(* ===== verification/Mse_Prelude.thy ===== *)
theory Mse_Prelude
  imports Main "HOL-Library.Char_ord" "HOL-Library.List_Lexorder"
begin

text \<open>
  Shared vocabulary of the development: the collections of simplification rules, decimal
  printing as \<open>std::to_string\<close> does it on integers, and whitespace-separated extraction as
  \<open>operator>>(std::istream&, std::string&)\<close> does it. Strings are lists of bytes;
  \<open>Char_ord\<close> and \<open>List_Lexorder\<close> give them the byte-wise lexicographic order of
  \<open>std::string::operator<\<close>.
\<close>

named_theorems comp_simps \<open>equations that run effectful computations\<close>

named_theorems ctx_simps \<open>equations of the operations on context objects\<close>

subsection \<open>Decimal numbers\<close>

definition digit_char :: "nat \<Rightarrow> char" where
  "digit_char d = char_of (48 + d)"

fun show_nat :: "nat \<Rightarrow> string" where
  "show_nat n = (if n < 10 then [digit_char n] else show_nat (n div 10) @ [digit_char (n mod 10)])"

declare show_nat.simps [simp del]

definition show_int :: "int \<Rightarrow> string" where
  "show_int i = (if i < 0 then CHR ''-'' # show_nat (nat (- i)) else show_nat (nat i))"

lemma show_nat_nonempty [simp]: "show_nat n \<noteq> []"
  by (subst show_nat.simps) simp

subsection \<open>Words of a stream\<close>

definition is_space :: "char \<Rightarrow> bool" where
  "is_space c \<longleftrightarrow> c \<in> {CHR 0x09, CHR 0x0A, CHR 0x0B, CHR 0x0C, CHR 0x0D, CHR '' ''}"

text \<open>Reading decimal digits back.\<close>

definition is_digit :: "char \<Rightarrow> bool" where
  "is_digit c \<longleftrightarrow> CHR ''0'' \<le> c \<and> c \<le> CHR ''9''"

definition digits_value :: "string \<Rightarrow> nat" where
  "digits_value ds = foldl (\<lambda>n c. 10 * n + (of_char c - 48)) 0 ds"

lemma of_char_digit [simp]: "d < 10 \<Longrightarrow> (of_char (digit_char d) :: nat) = 48 + d"
  by (simp add: digit_char_def)

lemma is_digit_iff: "is_digit c \<longleftrightarrow> 48 \<le> (of_char c :: nat) \<and> (of_char c :: nat) \<le> 57"
  by (simp add: is_digit_def less_eq_char_def)

lemma show_nat_digits: "list_all is_digit (show_nat n) \<and> digits_value (show_nat n) = n"
proof (induction n rule: show_nat.induct)
  case (1 n)
  show ?case
  proof (cases "n < 10")
    case True
    then show ?thesis by (simp add: show_nat.simps [of n] digits_value_def is_digit_iff)
  next
    case False
    with 1 show ?thesis
      by (simp add: show_nat.simps [of n] is_digit_iff) (simp add: digits_value_def)
  qed
qed

lemma is_digit_not_space: "is_digit c \<Longrightarrow> \<not> is_space c \<and> c \<noteq> CHR ''-'' \<and> c \<noteq> CHR ''+''"
  by (auto simp: is_digit_iff is_space_def)

lemma takeWhile_digits:
  "list_all is_digit ds \<Longrightarrow> rest = [] \<or> \<not> is_digit (hd rest) \<Longrightarrow>
   takeWhile is_digit (ds @ rest) = ds \<and> dropWhile is_digit (ds @ rest) = rest"
  by (induction ds) (cases rest; simp)+

text \<open>
  The number at the start of a text as \<open>strtol\<close> reads it in base 10: white space is skipped, then an
  optional sign and the longest run of digits are taken; without a digit there is none. (The
  clamping to \<open>long\<close> is left to the callers, which need smaller numbers only.)
\<close>

definition leading_int :: "string \<Rightarrow> int option" where
  "leading_int s =
     (let t = dropWhile is_space s;
          negative = (t \<noteq> [] \<and> hd t = CHR ''-'');
          u = (if t \<noteq> [] \<and> (hd t = CHR ''-'' \<or> hd t = CHR ''+'') then tl t else t);
          ds = takeWhile is_digit u;
          i = (if negative then - int (digits_value ds) else int (digits_value ds))
      in if ds = [] then None else Some i)"

lemma leading_int_digits:
  assumes "list_all is_digit ds" and "ds \<noteq> []"
  shows "leading_int ds = Some (int (digits_value ds))"
proof -
  obtain d r where p: "ds = d # r" using assms(2) by (cases ds) auto
  have d: "\<not> is_space d" "d \<noteq> CHR ''-''" "d \<noteq> CHR ''+''" using is_digit_not_space [of d] assms(1) p by auto
  have t: "takeWhile is_digit ds = ds" using takeWhile_digits [OF assms(1), of "[]"] by simp
  then show ?thesis using d p by (simp add: leading_int_def)
qed

text \<open>
  One formatted extraction into a string: leading white space is skipped, then the longest
  run of other characters is taken. An empty run sets the stream's fail state (\<open>None\<close>).
\<close>

definition extract_word :: "string \<Rightarrow> (string \<times> string) option" where
  "extract_word s =
     (let t = dropWhile is_space s; w = takeWhile (\<lambda>c. \<not> is_space c) t
      in if w = [] then None else Some (w, dropWhile (\<lambda>c. \<not> is_space c) t))"

lemma extract_word_shrinks: "extract_word s = Some (w, r) \<Longrightarrow> length r < length s"
proof -
  assume a: "extract_word s = Some (w, r)"
  let ?t = "dropWhile is_space s"
  from a have "takeWhile (\<lambda>c. \<not> is_space c) ?t \<noteq> []" and r: "r = dropWhile (\<lambda>c. \<not> is_space c) ?t"
    by (auto simp: extract_word_def Let_def split: if_splits)
  then have "length r < length ?t"
    by (metis add.commute less_add_same_cancel1 length_append length_greater_0_conv
        takeWhile_dropWhile_id)
  also have "length ?t \<le> length s" by (rule length_dropWhile_le)
  finally show ?thesis .
qed

text \<open>The loop \<open>while (stream >> token)\<close>: the tokens it sees, in order.\<close>

function extract_words :: "string \<Rightarrow> string list" where
  "extract_words s = (case extract_word s of None \<Rightarrow> [] | Some (w, r) \<Rightarrow> w # extract_words r)"
  by pat_completeness auto
termination
  by (relation "measure length") (auto dest: extract_word_shrinks)

declare extract_words.simps [simp del]

definition plain_word :: "string \<Rightarrow> bool" where
  "plain_word w \<longleftrightarrow> w \<noteq> [] \<and> list_all (\<lambda>c. \<not> is_space c) w"

lemma is_space_blank [simp]: "is_space CHR '' ''"
  by (simp add: is_space_def)

lemma plain_wordD: "plain_word w \<Longrightarrow> takeWhile (\<lambda>c. \<not> is_space c) w = w"
  by (auto simp: plain_word_def list_all_iff takeWhile_eq_all_conv)

lemma extract_word_last:
  assumes "plain_word w"
  shows "extract_word w = Some (w, [])"
proof -
  from assms have "dropWhile is_space w = w"
    by (cases w) (auto simp: plain_word_def)
  moreover from assms have "dropWhile (\<lambda>c. \<not> is_space c) w = []"
    by (auto simp: plain_word_def list_all_iff)
  ultimately show ?thesis
    using assms by (simp add: extract_word_def plain_wordD) (simp add: plain_word_def)
qed

lemma extract_word_blank:
  assumes "plain_word w"
  shows "extract_word (w @ '' '' @ s) = Some (w, '' '' @ s)"
proof -
  from assms have d: "dropWhile is_space (w @ '' '' @ s) = w @ '' '' @ s"
    by (cases w) (auto simp: plain_word_def)
  from assms have t: "takeWhile (\<lambda>c. \<not> is_space c) (w @ '' '' @ s) = w"
    and r: "dropWhile (\<lambda>c. \<not> is_space c) (w @ '' '' @ s) = '' '' @ s"
    by (auto simp: plain_word_def list_all_iff takeWhile_append dropWhile_append)
  from assms have "w \<noteq> []" by (simp add: plain_word_def)
  with d t r show ?thesis by (simp only: extract_word_def Let_def if_False)
qed

lemma extract_words_skip: "extract_words ('' '' @ s) = extract_words s"
proof -
  have "extract_word ('' '' @ s) = extract_word s" by (simp add: extract_word_def)
  then show ?thesis by (metis extract_words.simps)
qed

lemma extract_words_Nil [simp]: "extract_words [] = []"
  by (simp add: extract_words.simps extract_word_def)

lemma extract_words_plain: "plain_word w \<Longrightarrow> extract_words w = [w]"
  by (simp add: extract_words.simps [of w] extract_word_last)

lemma extract_words_blank:
  "plain_word w \<Longrightarrow> extract_words (w @ '' '' @ s) = w # extract_words s"
  by (simp only: extract_words.simps [of "w @ '' '' @ s"] extract_word_blank)
    (simp add: extract_words_skip [simplified])

end
