(* ===== verification/Mse_Status.thy ===== *)
theory Mse_Status
  imports Mse_Prelude
begin

text \<open>
  \<open>status.h\<close> and \<open>status.cpp\<close>: the status codes of a request, the \<open>Status\<close> struct,
  printing and parsing of codes; and the exceptions that the library's code throws or
  distinguishes, with the class hierarchy its \<open>catch\<close> clauses rely on.
\<close>

subsection \<open>Status codes\<close>

datatype StatusCode =
    SC_invalid
  | SC_ok
  | SC_cancelled
  | SC_unknown
  | SC_invalid_argument
  | SC_deadline_exceeded
  | SC_not_found
  | SC_already_exists
  | SC_permission_denied
  | SC_resource_exhausted
  | SC_failed_precondition
  | SC_aborted
  | SC_out_of_range
  | SC_unimplemented
  | SC_internal
  | SC_unavailable
  | SC_data_loss
  | SC_unauthenticated

text \<open>\<open>static_cast<int>\<close> of a code, and the enumerators \<open>lowest\<close> and \<open>highest\<close>.\<close>

fun status_code_id :: "StatusCode \<Rightarrow> int" where
  "status_code_id SC_invalid = -1"
| "status_code_id SC_ok = 0"
| "status_code_id SC_cancelled = 1"
| "status_code_id SC_unknown = 2"
| "status_code_id SC_invalid_argument = 3"
| "status_code_id SC_deadline_exceeded = 4"
| "status_code_id SC_not_found = 5"
| "status_code_id SC_already_exists = 6"
| "status_code_id SC_permission_denied = 7"
| "status_code_id SC_resource_exhausted = 8"
| "status_code_id SC_failed_precondition = 9"
| "status_code_id SC_aborted = 10"
| "status_code_id SC_out_of_range = 11"
| "status_code_id SC_unimplemented = 12"
| "status_code_id SC_internal = 13"
| "status_code_id SC_unavailable = 14"
| "status_code_id SC_data_loss = 15"
| "status_code_id SC_unauthenticated = 16"

abbreviation SC_lowest :: StatusCode where "SC_lowest \<equiv> SC_ok"
abbreviation SC_highest :: StatusCode where "SC_highest \<equiv> SC_unauthenticated"

text \<open>
  \<open>static_cast<StatusCode>\<close> of an integer. Every cast of the library is of a value between
  \<open>lowest\<close> and \<open>highest\<close>; other integers name no enumerator and are sent to \<open>SC_invalid\<close>.
\<close>

definition status_codes :: "StatusCode list" where
  "status_codes =
     [SC_ok, SC_cancelled, SC_unknown, SC_invalid_argument, SC_deadline_exceeded, SC_not_found,
      SC_already_exists, SC_permission_denied, SC_resource_exhausted, SC_failed_precondition,
      SC_aborted, SC_out_of_range, SC_unimplemented, SC_internal, SC_unavailable, SC_data_loss,
      SC_unauthenticated]"

definition status_code_of_int :: "int \<Rightarrow> StatusCode" where
  "status_code_of_int i =
     (if status_code_id SC_lowest \<le> i \<and> i \<le> status_code_id SC_highest
      then status_codes ! nat i else SC_invalid)"

lemma status_code_of_id [simp]: "status_code_of_int (status_code_id c) = c"
  by (cases c) (simp_all add: status_code_of_int_def status_codes_def)

lemma status_code_id_inject [simp]: "status_code_id a = status_code_id b \<longleftrightarrow> a = b"
  by (metis status_code_of_id)

lemma status_code_id_of_int:
  "0 \<le> i \<Longrightarrow> i \<le> 16 \<Longrightarrow> status_code_id (status_code_of_int i) = i"
proof -
  assume "0 \<le> i" "i \<le> 16"
  then have "i \<in> {0, 1, 2, 3, 4, 5, 6, 7, 8, 9, 10, 11, 12, 13, 14, 15, 16}"
    unfolding insert_iff empty_iff by presburger
  then show ?thesis by (auto simp: status_code_of_int_def status_codes_def)
qed

lemma set_status_codes: "set status_codes = UNIV - {SC_invalid}"
proof -
  have "c \<in> set status_codes \<longleftrightarrow> c \<noteq> SC_invalid" for c
    by (cases c) (simp_all add: status_codes_def)
  then show ?thesis by auto
qed

lemma status_code_id_bounds: "-1 \<le> status_code_id c \<and> status_code_id c \<le> 16"
  by (cases c) simp_all

text \<open>The order of the codes is the order of their numbers, as in \<open>std::set<StatusCode>\<close>.\<close>

instantiation StatusCode :: linorder
begin

definition less_eq_StatusCode :: "StatusCode \<Rightarrow> StatusCode \<Rightarrow> bool" where
  "a \<le> b \<longleftrightarrow> status_code_id a \<le> status_code_id b"

definition less_StatusCode :: "StatusCode \<Rightarrow> StatusCode \<Rightarrow> bool" where
  "a < b \<longleftrightarrow> status_code_id a < status_code_id b"

instance
  by standard (auto simp: less_eq_StatusCode_def less_StatusCode_def)
end

record Status =
  code :: StatusCode
  details :: string

definition Status_of :: "StatusCode \<Rightarrow> string \<Rightarrow> Status" where
  "Status_of c d = \<lparr>code = c, details = d\<rparr>"

definition Status_OK :: Status where
  "Status_OK = \<lparr>code = SC_ok, details = []\<rparr>"

text \<open>\<open>Status::operator bool\<close>.\<close>

definition succeeded :: "Status \<Rightarrow> bool" where
  "succeeded s \<longleftrightarrow> code s = SC_ok"

lemma Status_of_sel [simp]: "code (Status_of c d) = c" "details (Status_of c d) = d"
  by (simp_all add: Status_of_def)

lemma Status_OK_sel [simp]: "code Status_OK = SC_ok" "details Status_OK = []"
  by (simp_all add: Status_OK_def)

lemma succeeded_OK [simp]: "succeeded Status_OK"
  by (simp add: succeeded_def)

lemma succeeded_Status_of [simp]: "succeeded (Status_of c d) \<longleftrightarrow> c = SC_ok"
  by (simp add: succeeded_def)

subsection \<open>Exceptions\<close>

text \<open>
  The exception objects the code throws or meets: the standard classes by name with their
  \<open>what()\<close> text, the library's own \<open>ErrorForwardingException\<close> (a \<open>runtime_error\<close> that carries
  a status), \<open>StdException\<close> for any other class derived from \<open>std::exception\<close>, and
  \<open>NonStdException\<close> for thrown values that are not derived from it.
\<close>

datatype exn =
    LogicError string
  | InvalidArgument string
  | OutOfRange string
  | RuntimeError string
  | BadAnyCast
  | BadOptionalAccess
  | ErrorForwardingException Status string
  | StdException string
  | NonStdException nat

datatype exn_type =
    T_exception
  | T_logic_error
  | T_invalid_argument
  | T_out_of_range
  | T_runtime_error
  | T_ErrorForwardingException

text \<open>Whether \<open>catch (const T&)\<close> takes the exception: its class is \<open>T\<close> or derived from it.\<close>

fun caught_as :: "exn_type \<Rightarrow> exn \<Rightarrow> bool" where
  "caught_as T_exception e = (case e of NonStdException _ \<Rightarrow> False | _ \<Rightarrow> True)"
| "caught_as T_logic_error e =
     (case e of LogicError _ \<Rightarrow> True | InvalidArgument _ \<Rightarrow> True | OutOfRange _ \<Rightarrow> True | _ \<Rightarrow> False)"
| "caught_as T_invalid_argument e = (case e of InvalidArgument _ \<Rightarrow> True | _ \<Rightarrow> False)"
| "caught_as T_out_of_range e = (case e of OutOfRange _ \<Rightarrow> True | _ \<Rightarrow> False)"
| "caught_as T_runtime_error e =
     (case e of RuntimeError _ \<Rightarrow> True | ErrorForwardingException _ _ \<Rightarrow> True | _ \<Rightarrow> False)"
| "caught_as T_ErrorForwardingException e = (case e of ErrorForwardingException _ _ \<Rightarrow> True | _ \<Rightarrow> False)"

text \<open>
  \<open>std::exception::what()\<close>; thrown values of other types have none. It is a C string, so what
  reads it stops at the first null character.
\<close>

definition c_str :: "string \<Rightarrow> string" where
  "c_str s = takeWhile (\<lambda>c. c \<noteq> CHR 0x00) s"

fun what :: "exn \<Rightarrow> string" where
  "what (LogicError s) = c_str s"
| "what (InvalidArgument s) = c_str s"
| "what (OutOfRange s) = c_str s"
| "what (RuntimeError s) = c_str s"
| "what BadAnyCast = ''bad any_cast''"
| "what BadOptionalAccess = ''bad optional access''"
| "what (ErrorForwardingException _ s) = c_str s"
| "what (StdException s) = c_str s"
| "what (NonStdException _) = []"

subsection \<open>Printing and parsing\<close>

fun StatusCode_to_string :: "StatusCode \<Rightarrow> exn + string" where
  "StatusCode_to_string SC_ok = Inr ''OK''"
| "StatusCode_to_string SC_cancelled = Inr ''CANCELLED''"
| "StatusCode_to_string SC_unknown = Inr ''UNKNOWN''"
| "StatusCode_to_string SC_invalid_argument = Inr ''INVALID_ARGUMENT''"
| "StatusCode_to_string SC_deadline_exceeded = Inr ''DEADLINE_EXCEEDED''"
| "StatusCode_to_string SC_not_found = Inr ''NOT_FOUND''"
| "StatusCode_to_string SC_already_exists = Inr ''ALREADY_EXISTS''"
| "StatusCode_to_string SC_permission_denied = Inr ''PERMISSION_DENIED''"
| "StatusCode_to_string SC_resource_exhausted = Inr ''RESOURCE_EXHAUSTED''"
| "StatusCode_to_string SC_failed_precondition = Inr ''FAILED_PRECONDITION''"
| "StatusCode_to_string SC_aborted = Inr ''ABORTED''"
| "StatusCode_to_string SC_out_of_range = Inr ''OUT_OF_RANGE''"
| "StatusCode_to_string SC_unimplemented = Inr ''UNIMPLEMENTED''"
| "StatusCode_to_string SC_internal = Inr ''INTERNAL''"
| "StatusCode_to_string SC_unavailable = Inr ''UNAVAILABLE''"
| "StatusCode_to_string SC_data_loss = Inr ''DATA_LOSS''"
| "StatusCode_to_string SC_unauthenticated = Inr ''UNAUTHENTICATED''"
| "StatusCode_to_string SC_invalid =
     Inl (InvalidArgument (''invalid status code with id '' @ show_int (status_code_id SC_invalid)))"

definition StatusCode_mapping :: "(string \<times> StatusCode) list" where
  "StatusCode_mapping =
     [(''OK'', SC_ok),
      (''CANCELLED'', SC_cancelled),
      (''UNKNOWN'', SC_unknown),
      (''INVALID_ARGUMENT'', SC_invalid_argument),
      (''DEADLINE_EXCEEDED'', SC_deadline_exceeded),
      (''NOT_FOUND'', SC_not_found),
      (''ALREADY_EXISTS'', SC_already_exists),
      (''PERMISSION_DENIED'', SC_permission_denied),
      (''RESOURCE_EXHAUSTED'', SC_resource_exhausted),
      (''FAILED_PRECONDITION'', SC_failed_precondition),
      (''ABORTED'', SC_aborted),
      (''OUT_OF_RANGE'', SC_out_of_range),
      (''UNIMPLEMENTED'', SC_unimplemented),
      (''INTERNAL'', SC_internal),
      (''UNAVAILABLE'', SC_unavailable),
      (''DATA_LOSS'', SC_data_loss),
      (''UNAUTHENTICATED'', SC_unauthenticated)]"

definition StatusCode_from_string :: "string \<Rightarrow> StatusCode" where
  "StatusCode_from_string s = (case map_of StatusCode_mapping s of Some c \<Rightarrow> c | None \<Rightarrow> SC_invalid)"

text \<open>
  \<open>operator>>\<close>: the extracted word is parsed, the rest of the stream remains, and the result
  says whether a valid code was read. On a failed extraction the word stays empty.
\<close>

definition StatusCode_extract :: "string \<Rightarrow> (bool \<times> StatusCode) \<times> string" where
  "StatusCode_extract s =
     (let (w, r) = (case extract_word s of Some (w, r) \<Rightarrow> (w, r) | None \<Rightarrow> ([], []));
          c = StatusCode_from_string w
      in ((c \<noteq> SC_invalid, c), r))"

text \<open>\<open>operator<<\<close> appends the printed code to the stream; the exception leaves it as it was.\<close>

definition StatusCode_insert :: "string \<Rightarrow> StatusCode \<Rightarrow> exn + string" where
  "StatusCode_insert os c = (case StatusCode_to_string c of Inl e \<Rightarrow> Inl e | Inr s \<Rightarrow> Inr (os @ s))"

lemma StatusCode_to_string_Inl_iff [simp]:
  "(\<exists>e. StatusCode_to_string c = Inl e) \<longleftrightarrow> c = SC_invalid"
  by (cases c) simp_all

lemma StatusCode_to_string_valid: "c \<noteq> SC_invalid \<Longrightarrow> \<exists>s. StatusCode_to_string c = Inr s"
  by (cases c) simp_all

lemma StatusCode_mapping_keys: "distinct (map fst StatusCode_mapping)"
  by (simp add: StatusCode_mapping_def)

lemma StatusCode_printed_mapping:
  "StatusCode_to_string c = Inr s \<Longrightarrow> (s, c) \<in> set StatusCode_mapping"
  by (cases c) (simp_all add: StatusCode_mapping_def)

lemma StatusCode_from_to:
  "StatusCode_to_string c = Inr s \<Longrightarrow> StatusCode_from_string s = c"
  by (simp add: StatusCode_from_string_def
      map_of_is_SomeI [OF StatusCode_mapping_keys StatusCode_printed_mapping])

lemma StatusCode_mapping_printed:
  "(s, c) \<in> set StatusCode_mapping \<Longrightarrow> StatusCode_to_string c = Inr s"
proof -
  have "list_all (\<lambda>(s, c). StatusCode_to_string c = Inr s) StatusCode_mapping"
    by (simp add: StatusCode_mapping_def)
  then show "(s, c) \<in> set StatusCode_mapping \<Longrightarrow> StatusCode_to_string c = Inr s"
    by (auto simp: list_all_iff)
qed

lemma StatusCode_to_from:
  "StatusCode_from_string s \<noteq> SC_invalid \<Longrightarrow> StatusCode_to_string (StatusCode_from_string s) = Inr s"
  by (auto simp: StatusCode_from_string_def split: option.splits
      dest!: map_of_SomeD StatusCode_mapping_printed)

text \<open>
  Printing and parsing are exact inverses on the valid codes. A string parses to
  a valid code exactly when it is the text that code prints as; everything else, and only
  that, parses to \<open>invalid\<close>, and \<open>invalid\<close> alone cannot be printed.
\<close>

theorem StatusCode_print_parse:
  "(StatusCode_to_string c = Inr s) = (c \<noteq> SC_invalid \<and> StatusCode_from_string s = c)"
proof
  assume a: "StatusCode_to_string c = Inr s"
  then have "c \<noteq> SC_invalid" by auto
  with a show "c \<noteq> SC_invalid \<and> StatusCode_from_string s = c" by (simp add: StatusCode_from_to)
next
  assume "c \<noteq> SC_invalid \<and> StatusCode_from_string s = c"
  then show "StatusCode_to_string c = Inr s" using StatusCode_to_from by auto
qed

end
