(* ===== verification/Mse_Effects.thy ===== *)
theory Mse_Effects
  imports Mse_Status
begin

text \<open>
  Effectful code. A computation takes the state and gives \<open>None\<close> when C++ gives the run no
  result (undefined behaviour such as a dangling pointer, or a loop that does not end), and
  otherwise the new state with either the exception that left the code (\<open>Inl\<close>) or the
  value it returned (\<open>Inr\<close>). State changes made before a throw are kept.
\<close>

type_synonym ('w, 'a) comp = "'w \<Rightarrow> ((exn + 'a) \<times> 'w) option"

definition ret :: "'a \<Rightarrow> ('w, 'a) comp" where
  "ret x = (\<lambda>w. Some (Inr x, w))"

definition throw :: "exn \<Rightarrow> ('w, 'a) comp" where
  "throw e = (\<lambda>w. Some (Inl e, w))"

definition undefined_behaviour :: "('w, 'a) comp" where
  "undefined_behaviour = (\<lambda>w. None)"

definition bindC :: "('w, 'a) comp \<Rightarrow> ('a \<Rightarrow> ('w, 'b) comp) \<Rightarrow> ('w, 'b) comp" where
  "bindC m k = (\<lambda>w. case m w of
      None \<Rightarrow> None
    | Some (Inl e, w') \<Rightarrow> Some (Inl e, w')
    | Some (Inr x, w') \<Rightarrow> k x w')"

definition thenC :: "('w, 'a) comp \<Rightarrow> ('w, 'b) comp \<Rightarrow> ('w, 'b) comp" where
  "thenC m k = bindC m (\<lambda>_. k)"

text \<open>
  \<open>try m catch (e) { h e }\<close>; a try block whose result is inspected afterwards (\<open>tryC\<close>); and the
  clean-up a destructor does on every exit.
\<close>

definition catchC :: "('w, 'a) comp \<Rightarrow> (exn \<Rightarrow> ('w, 'a) comp) \<Rightarrow> ('w, 'a) comp" where
  "catchC m h = (\<lambda>w. case m w of
      None \<Rightarrow> None
    | Some (Inl e, w') \<Rightarrow> h e w'
    | Some (Inr x, w') \<Rightarrow> Some (Inr x, w'))"

definition tryC :: "('w, 'a) comp \<Rightarrow> ('w, exn + 'a) comp" where
  "tryC m = (\<lambda>w. case m w of None \<Rightarrow> None | Some (r, w') \<Rightarrow> Some (Inr r, w'))"

definition cleanupC :: "('w, 'a) comp \<Rightarrow> ('w \<Rightarrow> 'w) \<Rightarrow> ('w, 'a) comp" where
  "cleanupC m f = (\<lambda>w. case m w of None \<Rightarrow> None | Some (r, w') \<Rightarrow> Some (r, f w'))"

definition modifyC :: "('w \<Rightarrow> 'w) \<Rightarrow> ('w, unit) comp" where
  "modifyC f = (\<lambda>w. Some (Inr (), f w))"

definition getC :: "('w \<Rightarrow> 'a) \<Rightarrow> ('w, 'a) comp" where
  "getC f = (\<lambda>w. Some (Inr (f w), w))"

text \<open>A pure result that may be an exception, and one that may be undefined as well.\<close>

definition liftE :: "exn + 'a \<Rightarrow> ('w, 'a) comp" where
  "liftE r = (\<lambda>w. Some (r, w))"

definition readC :: "('w \<Rightarrow> (exn + 'a) option) \<Rightarrow> ('w, 'a) comp" where
  "readC f = (\<lambda>w. case f w of None \<Rightarrow> None | Some r \<Rightarrow> Some (r, w))"

text \<open>A computation on one part of a larger state.\<close>

definition zoomC :: "('w \<Rightarrow> 's) \<Rightarrow> ('s \<Rightarrow> 'w \<Rightarrow> 'w) \<Rightarrow> ('s, 'a) comp \<Rightarrow> ('w, 'a) comp" where
  "zoomC rd wr m = (\<lambda>w. case m (rd w) of None \<Rightarrow> None | Some (r, s) \<Rightarrow> Some (r, wr s w))"

subsection \<open>Values of any type\<close>

text \<open>
  \<open>std::any\<close>: empty, or a value with its dynamic type. The type is a name; a value of one of
  the application's types is kept as \<open>'v\<close>. \<open>AnyLRU\<close> is the pair of a list iterator and another
  \<open>std::any\<close> that \<open>LRUCache\<close> stores.
\<close>

datatype 'v any =
    AnyEmpty
  | AnyOf string 'v
  | AnyLRU nat "'v any"

fun any_type :: "'v any \<Rightarrow> string" where
  "any_type AnyEmpty = ''void''"
| "any_type (AnyOf t _) = t"
| "any_type (AnyLRU _ _) = ''LRUElement''"

definition any_has_value :: "'v any \<Rightarrow> bool" where
  "any_has_value a \<longleftrightarrow> a \<noteq> AnyEmpty"

fun any_cast :: "string \<Rightarrow> 'v any \<Rightarrow> exn + 'v" where
  "any_cast t (AnyOf t' v) = (if t = t' then Inr v else Inl BadAnyCast)"
| "any_cast t _ = Inl BadAnyCast"

fun any_cast_LRU :: "'v any \<Rightarrow> exn + (nat \<times> 'v any)" where
  "any_cast_LRU (AnyLRU it a) = Inr (it, a)"
| "any_cast_LRU _ = Inl BadAnyCast"

subsection \<open>Running computations\<close>

lemma ret_apply [comp_simps]: "ret x w = Some (Inr x, w)"
  by (simp add: ret_def)

lemma throw_apply [comp_simps]: "throw e w = Some (Inl e, w)"
  by (simp add: throw_def)

lemma undefined_behaviour_apply [comp_simps]: "undefined_behaviour w = None"
  by (simp add: undefined_behaviour_def)

lemma modifyC_apply [comp_simps]: "modifyC f w = Some (Inr (), f w)"
  by (simp add: modifyC_def)

lemma getC_apply [comp_simps]: "getC f w = Some (Inr (f w), w)"
  by (simp add: getC_def)

lemma liftE_apply [comp_simps]: "liftE r w = Some (r, w)"
  by (simp add: liftE_def)

lemma bindC_Inr [comp_simps]: "m w = Some (Inr x, w') \<Longrightarrow> bindC m k w = k x w'"
  by (simp add: bindC_def)

lemma bindC_Inl [comp_simps]: "m w = Some (Inl e, w') \<Longrightarrow> bindC m k w = Some (Inl e, w')"
  by (simp add: bindC_def)

lemma bindC_None [comp_simps]: "m w = None \<Longrightarrow> bindC m k w = None"
  by (simp add: bindC_def)

lemma thenC_Inr [comp_simps]: "m w = Some (Inr x, w') \<Longrightarrow> thenC m k w = k w'"
  by (simp add: thenC_def bindC_def)

lemma thenC_Inl [comp_simps]: "m w = Some (Inl e, w') \<Longrightarrow> thenC m k w = Some (Inl e, w')"
  by (simp add: thenC_def bindC_def)

lemma thenC_None [comp_simps]: "m w = None \<Longrightarrow> thenC m k w = None"
  by (simp add: thenC_def bindC_def)

lemma catchC_Inr [comp_simps]: "m w = Some (Inr x, w') \<Longrightarrow> catchC m h w = Some (Inr x, w')"
  by (simp add: catchC_def)

lemma catchC_Inl [comp_simps]: "m w = Some (Inl e, w') \<Longrightarrow> catchC m h w = h e w'"
  by (simp add: catchC_def)

lemma catchC_None [comp_simps]: "m w = None \<Longrightarrow> catchC m h w = None"
  by (simp add: catchC_def)

lemma tryC_Some [comp_simps]: "m w = Some (r, w') \<Longrightarrow> tryC m w = Some (Inr r, w')"
  by (simp add: tryC_def)

lemma tryC_None [comp_simps]: "m w = None \<Longrightarrow> tryC m w = None"
  by (simp add: tryC_def)

lemma cleanupC_Some [comp_simps]: "m w = Some (r, w') \<Longrightarrow> cleanupC m f w = Some (r, f w')"
  by (simp add: cleanupC_def)

lemma cleanupC_None [comp_simps]: "m w = None \<Longrightarrow> cleanupC m f w = None"
  by (simp add: cleanupC_def)

lemma readC_Some [comp_simps]: "f w = Some r \<Longrightarrow> readC f w = Some (r, w)"
  by (simp add: readC_def)

lemma readC_None [comp_simps]: "f w = None \<Longrightarrow> readC f w = None"
  by (simp add: readC_def)

subsection \<open>Monad laws and inversion\<close>

lemma bindC_ret_left: "bindC (ret x) k = k x"
  by (rule ext) (simp add: comp_simps)

lemma bindC_ret_right: "bindC m ret = m"
  by (rule ext) (auto simp: bindC_def ret_def split: option.splits sum.splits)

lemma bindC_throw: "bindC (throw e) k = throw e"
  by (rule ext) (simp add: comp_simps)

lemma bindC_assoc: "bindC (bindC m k) l = bindC m (\<lambda>x. bindC (k x) l)"
  by (rule ext) (auto simp: bindC_def split: option.splits sum.splits)

lemma bindC_SomeE:
  assumes "bindC m k w = Some (r, w')"
  obtains (raise) e where "m w = Some (Inl e, w')" "r = Inl e"
  | (return) x w1 where "m w = Some (Inr x, w1)" "k x w1 = Some (r, w')"
  using assms by (auto simp: bindC_def split: option.splits sum.splits)

lemma thenC_SomeE:
  assumes "thenC m k w = Some (r, w')"
  obtains (raise) e where "m w = Some (Inl e, w')" "r = Inl e"
  | (return) x w1 where "m w = Some (Inr x, w1)" "k w1 = Some (r, w')"
  using assms by (auto simp: thenC_def bindC_def split: option.splits sum.splits)

lemma catchC_SomeE:
  assumes "catchC m h w = Some (r, w')"
  obtains (return) x where "m w = Some (Inr x, w')" "r = Inr x"
  | (handle) e w1 where "m w = Some (Inl e, w1)" "h e w1 = Some (r, w')"
  using assms by (auto simp: catchC_def split: option.splits sum.splits)

text \<open>
  Invariants of computations: \<open>keeps I m\<close> when every run of \<open>m\<close> from a state with \<open>I\<close> that
  has a result, normal or exceptional, ends in a state with \<open>I\<close>.
\<close>

definition keeps :: "('w \<Rightarrow> bool) \<Rightarrow> ('w, 'a) comp \<Rightarrow> bool" where
  "keeps I m \<longleftrightarrow> (\<forall>w r w'. I w \<longrightarrow> m w = Some (r, w') \<longrightarrow> I w')"

lemma keepsI: "(\<And>w r w'. I w \<Longrightarrow> m w = Some (r, w') \<Longrightarrow> I w') \<Longrightarrow> keeps I m"
  by (simp add: keeps_def)

lemma keepsD: "keeps I m \<Longrightarrow> m w = Some (r, w') \<Longrightarrow> I w \<Longrightarrow> I w'"
  by (auto simp: keeps_def)

lemma keeps_ret [intro]: "keeps I (ret x)"
  by (simp add: keeps_def ret_def)

lemma keeps_throw [intro]: "keeps I (throw e)"
  by (simp add: keeps_def throw_def)

lemma keeps_liftE [intro]: "keeps I (liftE r)"
  by (simp add: keeps_def liftE_def)

lemma keeps_getC [intro]: "keeps I (getC f)"
  by (simp add: keeps_def getC_def)

lemma keeps_readC [intro]: "keeps I (readC f)"
  by (auto simp: keeps_def readC_def split: option.splits)

lemma keeps_bindC [intro]: "keeps I m \<Longrightarrow> (\<And>x. keeps I (k x)) \<Longrightarrow> keeps I (bindC m k)"
  by (rule keepsI) (erule bindC_SomeE; blast dest: keepsD)

lemma keeps_thenC [intro]: "keeps I m \<Longrightarrow> keeps I k \<Longrightarrow> keeps I (thenC m k)"
  by (rule keepsI) (erule thenC_SomeE; blast dest: keepsD)

lemma keeps_tryC [intro]: "keeps I m \<Longrightarrow> keeps I (tryC m)"
  by (auto simp: keeps_def tryC_def split: option.splits)

lemma keeps_catchC [intro]: "keeps I m \<Longrightarrow> (\<And>e. keeps I (h e)) \<Longrightarrow> keeps I (catchC m h)"
  by (rule keepsI) (erule catchC_SomeE; blast dest: keepsD)

text \<open>
  Runs that end: \<open>costs I c k m\<close> when every run of \<open>m\<close> from a state with \<open>I\<close> has a result,
  ends in a state with \<open>I\<close>, and raises the count \<open>c\<close> by at most \<open>k\<close>.
\<close>

definition costs :: "('w \<Rightarrow> bool) \<Rightarrow> ('w \<Rightarrow> nat) \<Rightarrow> nat \<Rightarrow> ('w, 'a) comp \<Rightarrow> bool" where
  "costs I c k m \<longleftrightarrow> (\<forall>w. I w \<longrightarrow> (\<exists>r w'. m w = Some (r, w') \<and> I w' \<and> c w' \<le> c w + k))"

lemma costsI:
  "(\<And>w. I w \<Longrightarrow> \<exists>r w'. m w = Some (r, w') \<and> I w' \<and> c w' \<le> c w + k) \<Longrightarrow> costs I c k m"
  by (simp add: costs_def)

lemma costsE:
  assumes "costs I c k m" and "I w"
  obtains r w' where "m w = Some (r, w')" "I w'" "c w' \<le> c w + k"
  using assms by (auto simp: costs_def)

lemma costs_mono: "costs I c k m \<Longrightarrow> k \<le> l \<Longrightarrow> costs I c l m"
  unfolding costs_def by (meson add_le_mono le_refl le_trans)

lemma costs_ret: "costs I c k (ret x)"
  by (simp add: costs_def ret_def)

lemma costs_throw: "costs I c k (throw e)"
  by (simp add: costs_def throw_def)

lemma costs_liftE: "costs I c k (liftE r)"
  by (simp add: costs_def liftE_def)

lemma costs_getC: "costs I c k (getC f)"
  by (simp add: costs_def getC_def)

lemma costs_bindC:
  assumes "costs I c a m" and "\<And>x. costs I c b (k x)"
  shows "costs I c (a + b) (bindC m k)"
proof (rule costsI)
  fix w assume "I w"
  with assms(1) obtain r w1 where m: "m w = Some (r, w1)" "I w1" "c w1 \<le> c w + a" by (rule costsE)
  show "\<exists>r w'. bindC m k w = Some (r, w') \<and> I w' \<and> c w' \<le> c w + (a + b)"
  proof (cases r)
    case (Inl e)
    with m show ?thesis by (simp add: bindC_Inl)
  next
    case (Inr x)
    from assms(2) m(2) obtain r2 w2 where "k x w1 = Some (r2, w2)" "I w2" "c w2 \<le> c w1 + b" by (rule costsE)
    with m Inr show ?thesis by (simp add: bindC_Inr)
  qed
qed

lemma costs_thenC: "costs I c a m \<Longrightarrow> costs I c b k \<Longrightarrow> costs I c (a + b) (thenC m k)"
  unfolding thenC_def by (rule costs_bindC)

text \<open>Steps that cost nothing before one that may.\<close>

lemma costs_bindC_0: "costs I c 0 m \<Longrightarrow> (\<And>x. costs I c b (k x)) \<Longrightarrow> costs I c b (bindC m k)"
  using costs_bindC [of I c 0 m b k] by simp

lemma costs_thenC_0: "costs I c 0 m \<Longrightarrow> costs I c b k \<Longrightarrow> costs I c b (thenC m k)"
  using costs_thenC [of I c 0 m b k] by simp

lemma costs_tryC: "costs I c k m \<Longrightarrow> costs I c k (tryC m)"
  by (rule costsI) (erule (1) costsE, simp add: tryC_Some)

lemma costs_if: "(P \<Longrightarrow> costs I c k a) \<Longrightarrow> (\<not> P \<Longrightarrow> costs I c k b) \<Longrightarrow> costs I c k (if P then a else b)"
  by simp

lemma costs_sum_case:
  "(\<And>e. costs I c k (f e)) \<Longrightarrow> (\<And>x. costs I c k (g x)) \<Longrightarrow> costs I c k (case r of Inl e \<Rightarrow> f e | Inr x \<Rightarrow> g x)"
  by (cases r) simp_all

lemma costs_option_case:
  "costs I c k a \<Longrightarrow> (\<And>x. costs I c k (g x)) \<Longrightarrow> costs I c k (case r of None \<Rightarrow> a | Some x \<Rightarrow> g x)"
  by (cases r) simp_all

lemma costs_keeps: "costs I c k m \<Longrightarrow> keeps I m"
  by (auto simp: costs_def keeps_def)

text \<open>For recursion through computations: they are monotone in the computations they run.\<close>

lemma bindC_mono [partial_function_mono]:
  fixes m :: "('x \<Rightarrow> 'y option) \<Rightarrow> ('w, 'a) comp"
  assumes "\<And>w. mono_option (\<lambda>f. m f w)" and "\<And>x w. mono_option (\<lambda>f. k f x w)"
  shows "mono_option (\<lambda>f. bindC (m f) (k f) w)"
  unfolding bindC_def
proof (rule monotoneI)
  fix f g :: "'x \<Rightarrow> 'y option" assume le: "option.le_fun f g"
  have m: "option_ord (m f w) (m g w)" by (rule monotoneD [where f = "\<lambda>f. m f w"]) (rule assms(1), rule le)
  have k: "option_ord (k f x w) (k g x w)" for x w
    by (rule monotoneD [where f = "\<lambda>f. k f x w"]) (rule assms(2), rule le)
  show "option_ord
      (case m f w of None \<Rightarrow> None | Some (Inl e, w') \<Rightarrow> Some (Inl e, w') | Some (Inr x, w') \<Rightarrow> k f x w')
      (case m g w of None \<Rightarrow> None | Some (Inl e, w') \<Rightarrow> Some (Inl e, w') | Some (Inr x, w') \<Rightarrow> k g x w')"
  proof (cases "m f w")
    case (Some p)
    with m have "m g w = Some p" by (auto simp: flat_ord_def)
    with Some show ?thesis using k by (cases p; cases "fst p") (simp_all add: flat_ord_def)
  qed (simp add: flat_ord_def)
qed

lemma ifC_mono [partial_function_mono]:
  assumes "mono_option (\<lambda>f. m f w)" and "mono_option (\<lambda>f. k f w)"
  shows "mono_option (\<lambda>f. (if P then m f else k f) w)"
  using assms by (cases P) simp_all


lemma thenC_mono [partial_function_mono]:
  assumes "\<And>w. mono_option (\<lambda>f. m f w)" and "\<And>w. mono_option (\<lambda>f. k f w)"
  shows "mono_option (\<lambda>f. thenC (m f) (k f) w)"
  unfolding thenC_def by (rule bindC_mono [OF assms])

lemma tryC_mono [partial_function_mono]:
  fixes m :: "('x \<Rightarrow> 'y option) \<Rightarrow> ('w, 'a) comp"
  assumes "\<And>w. mono_option (\<lambda>f. m f w)"
  shows "mono_option (\<lambda>f. tryC (m f) w)"
  unfolding tryC_def
proof (rule monotoneI)
  fix f g :: "'x \<Rightarrow> 'y option" assume "option.le_fun f g"
  then have "option_ord (m f w) (m g w)" using assms by (auto dest: monotoneD)
  then show "option_ord (case m f w of None \<Rightarrow> None | Some (r, w') \<Rightarrow> Some (Inr r, w'))
      (case m g w of None \<Rightarrow> None | Some (r, w') \<Rightarrow> Some (Inr r, w'))"
    by (auto simp: flat_ord_def split: option.splits)
qed

subsection \<open>Pre- and postconditions\<close>

text \<open>From a state with \<open>P\<close> the run has a result, and it satisfies \<open>Q\<close>.\<close>

definition hoare :: "('w \<Rightarrow> bool) \<Rightarrow> ('w, 'a) comp \<Rightarrow> (exn + 'a \<Rightarrow> 'w \<Rightarrow> bool) \<Rightarrow> bool" where
  "hoare P m Q \<longleftrightarrow> (\<forall>w. P w \<longrightarrow> (\<exists>r w'. m w = Some (r, w') \<and> Q r w'))"

lemma hoareI: "(\<And>w. P w \<Longrightarrow> \<exists>r w'. m w = Some (r, w') \<and> Q r w') \<Longrightarrow> hoare P m Q"
  by (simp add: hoare_def)

lemma hoareE:
  assumes "hoare P m Q" and "P w"
  obtains r w' where "m w = Some (r, w')" "Q r w'"
  using assms by (auto simp: hoare_def)

lemma hoare_weaken: "hoare P m Q \<Longrightarrow> (\<And>r w. Q r w \<Longrightarrow> R r w) \<Longrightarrow> hoare P m R"
  unfolding hoare_def by blast

lemma hoare_strengthen: "hoare P m Q \<Longrightarrow> (\<And>w. R w \<Longrightarrow> P w) \<Longrightarrow> hoare R m Q"
  unfolding hoare_def by blast

lemma hoare_ret: "(\<And>w. P w \<Longrightarrow> Q (Inr x) w) \<Longrightarrow> hoare P (ret x) Q"
  by (simp add: hoare_def ret_def)

lemma hoare_throw: "(\<And>w. P w \<Longrightarrow> Q (Inl e) w) \<Longrightarrow> hoare P (throw e) Q"
  by (simp add: hoare_def throw_def)

lemma hoare_if: "(c \<Longrightarrow> hoare P m Q) \<Longrightarrow> (\<not> c \<Longrightarrow> hoare P k Q) \<Longrightarrow> hoare P (if c then m else k) Q"
  by simp

lemma hoare_bindC:
  assumes "hoare P m Q" and "\<And>x. hoare (Q (Inr x)) (k x) R" and "\<And>e w. Q (Inl e) w \<Longrightarrow> R (Inl e) w"
  shows "hoare P (bindC m k) R"
proof (rule hoareI)
  fix w assume "P w"
  with assms(1) obtain r w1 where m: "m w = Some (r, w1)" "Q r w1" by (rule hoareE)
  show "\<exists>r w'. bindC m k w = Some (r, w') \<and> R r w'"
  proof (cases r)
    case (Inl e)
    with m assms(3) show ?thesis by (simp add: bindC_Inl)
  next
    case (Inr x)
    with m have "Q (Inr x) w1" by simp
    with assms(2) obtain r2 w2 where "k x w1 = Some (r2, w2)" "R r2 w2" by (rule hoareE)
    with m Inr show ?thesis by (simp add: bindC_Inr)
  qed
qed

lemma hoare_thenC:
  assumes "hoare P m Q" and "\<And>x. hoare (Q (Inr x)) k R" and "\<And>e w. Q (Inl e) w \<Longrightarrow> R (Inl e) w"
  shows "hoare P (thenC m k) R"
  unfolding thenC_def by (rule hoare_bindC [OF assms])

text \<open>A first part whose value, or exception, is known.\<close>

lemma hoare_bind_value:
  assumes "hoare P m (\<lambda>r w. r = Inr x \<and> Q w)" and "hoare Q (k x) R"
  shows "hoare P (bindC m k) R"
proof (rule hoareI)
  fix w assume "P w"
  with assms(1) obtain w1 where m: "m w = Some (Inr x, w1)" and q: "Q w1" by (auto elim: hoareE)
  from assms(2) q obtain r w2 where "k x w1 = Some (r, w2)" "R r w2" by (rule hoareE)
  with m show "\<exists>r w'. bindC m k w = Some (r, w') \<and> R r w'" by (simp add: bindC_Inr)
qed

lemma hoare_then_value:
  assumes "hoare P m (\<lambda>r w. r = Inr x \<and> Q w)" and "hoare Q k R"
  shows "hoare P (thenC m k) R"
  unfolding thenC_def using assms by (rule hoare_bind_value)

lemma hoare_bind_error:
  assumes "hoare P m (\<lambda>r w. r = Inl e \<and> Q w)"
  shows "hoare P (bindC m k) (\<lambda>r w. r = Inl e \<and> Q w)"
proof (rule hoareI)
  fix w assume "P w"
  with assms obtain w1 where "m w = Some (Inl e, w1)" and "Q w1" by (auto elim: hoareE)
  then show "\<exists>r w'. bindC m k w = Some (r, w') \<and> r = Inl e \<and> Q w'" by (simp add: bindC_Inl)
qed

lemma hoare_tryC:
  assumes "hoare P m Q"
  shows "hoare P (tryC m) (\<lambda>r w. \<exists>x. r = Inr x \<and> Q x w)"
  using assms unfolding hoare_def tryC_def by fastforce

end
