(* ===== verification/Mse_Multimap.thy ===== *)
theory Mse_Multimap
  imports Mse_Prelude
begin

text \<open>
  \<open>std::multimap\<close> as the library uses it: the list of its elements in iteration order, that
  is sorted by key with equal keys in the order of their insertion. \<open>find\<close> gives the first
  element of its key (the standard leaves the choice open; libstdc++, libc++ and the MSVC
  library return the first).
\<close>

fun mm_insert :: "'k::linorder \<times> 'v \<Rightarrow> ('k \<times> 'v) list \<Rightarrow> ('k \<times> 'v) list" where
  "mm_insert x [] = [x]"
| "mm_insert x (y # ys) = (if fst x < fst y then x # y # ys else y # mm_insert x ys)"

definition mm_merge :: "('k::linorder \<times> 'v) list \<Rightarrow> ('k \<times> 'v) list \<Rightarrow> ('k \<times> 'v) list" where
  "mm_merge dst src = fold mm_insert src dst"

definition mm_of_list :: "('k::linorder \<times> 'v) list \<Rightarrow> ('k \<times> 'v) list" where
  "mm_of_list xs = fold mm_insert xs []"

definition mm_erase :: "'k \<Rightarrow> ('k \<times> 'v) list \<Rightarrow> ('k \<times> 'v) list" where
  "mm_erase k m = filter (\<lambda>x. fst x \<noteq> k) m"

definition mm_count :: "'k \<Rightarrow> ('k \<times> 'v) list \<Rightarrow> nat" where
  "mm_count k m = length (filter (\<lambda>x. fst x = k) m)"

definition mm_find :: "'k \<Rightarrow> ('k \<times> 'v) list \<Rightarrow> 'v option" where
  "mm_find k m = map_of m k"

definition mm_values :: "'k \<Rightarrow> ('k \<times> 'v) list \<Rightarrow> 'v list" where
  "mm_values k m = map snd (filter (\<lambda>x. fst x = k) m)"

definition mm_sorted :: "('k::linorder \<times> 'v) list \<Rightarrow> bool" where
  "mm_sorted m \<longleftrightarrow> sorted (map fst m)"

lemma mm_sorted_Nil [simp]: "mm_sorted []"
  by (simp add: mm_sorted_def)

lemma set_mm_insert [simp]: "set (mm_insert x m) = insert x (set m)"
  by (induction m) auto

lemma mm_sorted_insert [simp]: "mm_sorted m \<Longrightarrow> mm_sorted (mm_insert x m)"
  by (induction m) (auto simp: mm_sorted_def)

lemma mm_sorted_erase [simp]: "mm_sorted m \<Longrightarrow> mm_sorted (mm_erase k m)"
  by (simp add: mm_sorted_def mm_erase_def sorted_filter)

lemma mm_sorted_merge [simp]: "mm_sorted d \<Longrightarrow> mm_sorted (mm_merge d s)"
  by (induction s arbitrary: d) (simp_all add: mm_merge_def)

lemma mm_sorted_of_list [simp]: "mm_sorted (mm_of_list xs)"
  using mm_sorted_merge [of "[]" xs] by (simp add: mm_merge_def mm_of_list_def)

lemma mm_find_Nil [simp]: "mm_find k [] = None"
  by (simp add: mm_find_def)

lemma mm_find_Cons [simp]: "mm_find k ((k', v) # m) = (if k = k' then Some v else mm_find k m)"
  by (simp add: mm_find_def)

lemma mm_find_insert:
  "mm_sorted m \<Longrightarrow> mm_find k' (mm_insert (k, v) m) =
     (if k' = k then (case mm_find k m of None \<Rightarrow> Some v | Some u \<Rightarrow> Some u) else mm_find k' m)"
proof (induction m)
  case Nil
  then show ?case by (simp add: mm_find_def)
next
  case (Cons y ys)
  have "k < fst y \<Longrightarrow> map_of (y # ys) k = None"
    using Cons.prems by (auto simp: mm_sorted_def map_of_eq_None_iff)
  with Cons show ?case
    by (cases y) (auto simp: mm_find_def mm_sorted_def)
qed

lemma mm_find_merge:
  "mm_sorted d \<Longrightarrow> mm_find k (mm_merge d s) = (case mm_find k d of Some v \<Rightarrow> Some v | None \<Rightarrow> mm_find k s)"
proof (induction s arbitrary: d)
  case Nil
  then show ?case by (simp add: mm_merge_def split: option.splits)
next
  case (Cons x xs)
  obtain k' v' where x: "x = (k', v')" by (cases x)
  have "mm_find k (mm_merge d (x # xs)) = mm_find k (mm_merge (mm_insert x d) xs)"
    by (simp add: mm_merge_def)
  also have "\<dots> = (case mm_find k (mm_insert x d) of Some v \<Rightarrow> Some v | None \<Rightarrow> mm_find k xs)"
    using Cons by simp
  also have "\<dots> = (case mm_find k d of Some v \<Rightarrow> Some v | None \<Rightarrow> mm_find k (x # xs))"
    using Cons.prems by (auto simp: x mm_find_insert split: option.splits)
  finally show ?case .
qed

lemma mm_find_erase: "mm_find k' (mm_erase k m) = (if k' = k then None else mm_find k' m)"
  by (induction m) (auto simp: mm_find_def mm_erase_def)

lemma mm_find_None_iff: "mm_find k m = None \<longleftrightarrow> k \<notin> fst ` set m"
  by (simp add: mm_find_def map_of_eq_None_iff)

lemma mm_values_insert:
  "mm_sorted m \<Longrightarrow> mm_values k' (mm_insert (k, v) m) = mm_values k' m @ (if k' = k then [v] else [])"
proof (induction m)
  case Nil
  then show ?case by (simp add: mm_values_def)
next
  case (Cons y ys)
  have "k < fst y \<Longrightarrow> filter (\<lambda>x. fst x = k) (y # ys) = []"
    using Cons.prems by (auto simp: mm_sorted_def filter_empty_conv)
  with Cons show ?case
    by (auto simp: mm_values_def mm_sorted_def)
qed

lemma mm_values_merge:
  "mm_sorted d \<Longrightarrow> mm_values k (mm_merge d s) = mm_values k d @ mm_values k s"
proof (induction s arbitrary: d)
  case Nil
  then show ?case by (simp add: mm_merge_def mm_values_def)
next
  case (Cons x xs)
  then show ?case
    by (cases x) (simp add: mm_merge_def mm_values_insert, simp add: mm_values_def)
qed

lemma mm_find_values: "mm_find k m = (case mm_values k m of [] \<Rightarrow> None | v # _ \<Rightarrow> Some v)"
  by (induction m) (auto simp: mm_find_def mm_values_def)

end
