(* ===== verification/Mse_Context.thy ===== *)
theory Mse_Context
  imports Mse_Effects Mse_Multimap
begin

text \<open>
  \<open>context.h\<close> and \<open>context.cpp\<close>. Context objects point at their parent, and pointers are
  compared, copied and followed, so the objects live in a store from addresses to contexts.
  An address outside the store is a destroyed (or never constructed) object: following it has
  no result. The first part translates the class; the second shows that the constructors and
  assignments keep every parent chain finite and free of dangling pointers, that on such
  stores all reads return, and how the reads of a chain agree with each other.
\<close>

type_synonym addr = nat

type_synonym metadata = "(string \<times> string) list"

record Context =
  ctx_metadata :: metadata
  ctx_parent :: "addr option"

type_synonym ctx_store = "addr \<rightharpoonup> Context"

text \<open>
  The global context and the thread local context of the running thread are static objects.
  They are created on first use; here they exist from the start, as their constructors would
  leave them.
\<close>

definition GlobalContext :: addr where
  "GlobalContext = 0"

definition ThreadLocalContext :: addr where
  "ThreadLocalContext = 1"

definition initial_contexts :: ctx_store where
  "initial_contexts =
     [GlobalContext \<mapsto> \<lparr>ctx_metadata = [], ctx_parent = None\<rparr>,
      ThreadLocalContext \<mapsto> \<lparr>ctx_metadata = [], ctx_parent = Some GlobalContext\<rparr>]"

lemma static_contexts_distinct [simp]:
  "GlobalContext \<noteq> ThreadLocalContext" "ThreadLocalContext \<noteq> GlobalContext"
  by (simp_all add: GlobalContext_def ThreadLocalContext_def)

subsection \<open>Reading a context\<close>

partial_function (option) GetAllMetadata :: "ctx_store \<Rightarrow> addr \<Rightarrow> metadata option" where
  "GetAllMetadata h a =
     (case h a of
        None \<Rightarrow> None
      | Some c \<Rightarrow>
          (case ctx_parent c of
             None \<Rightarrow> Some (ctx_metadata c)
           | Some p \<Rightarrow> Option.bind (GetAllMetadata h p) (\<lambda>m. Some (mm_merge (ctx_metadata c) m))))"

definition filter_metadata :: "metadata \<Rightarrow> string list \<Rightarrow> metadata" where
  "filter_metadata all keys =
     fold (\<lambda>key filtered. case mm_find key all of
             Some v \<Rightarrow> mm_insert (key, v) filtered
           | None \<Rightarrow> filtered) keys []"

definition GetFilteredMetadata :: "ctx_store \<Rightarrow> addr \<Rightarrow> string list \<Rightarrow> metadata option" where
  "GetFilteredMetadata h a keys = map_option (\<lambda>all. filter_metadata all keys) (GetAllMetadata h a)"

partial_function (option) Context_At :: "ctx_store \<Rightarrow> addr \<Rightarrow> string \<Rightarrow> (exn + string) option" where
  "Context_At h a key =
     (case h a of
        None \<Rightarrow> None
      | Some c \<Rightarrow>
          (case mm_find key (ctx_metadata c) of
             Some v \<Rightarrow> Some (Inr v)
           | None \<Rightarrow>
               (case ctx_parent c of
                  Some p \<Rightarrow> Context_At h p key
                | None \<Rightarrow> Some (Inl (OutOfRange (key @ '' not found in context metadata''))))))"

partial_function (option) Context_AtOr :: "ctx_store \<Rightarrow> addr \<Rightarrow> string \<Rightarrow> string \<Rightarrow> string option" where
  "Context_AtOr h a key default_value =
     (case h a of
        None \<Rightarrow> None
      | Some c \<Rightarrow>
          (case mm_find key (ctx_metadata c) of
             Some v \<Rightarrow> Some v
           | None \<Rightarrow>
               (case ctx_parent c of
                  Some p \<Rightarrow> Context_AtOr h p key default_value
                | None \<Rightarrow> Some default_value)))"

partial_function (option) Context_Contains :: "ctx_store \<Rightarrow> addr \<Rightarrow> string \<Rightarrow> bool option" where
  "Context_Contains h a key =
     (case h a of
        None \<Rightarrow> None
      | Some c \<Rightarrow>
          (if mm_find key (ctx_metadata c) \<noteq> None then Some True
           else (case ctx_parent c of
                   Some p \<Rightarrow> Context_Contains h p key
                 | None \<Rightarrow> Some False)))"

partial_function (option) getAllParents :: "ctx_store \<Rightarrow> addr \<Rightarrow> addr set option" where
  "getAllParents h a =
     (case h a of
        None \<Rightarrow> None
      | Some c \<Rightarrow>
          (case ctx_parent c of
             None \<Rightarrow> Some {}
           | Some p \<Rightarrow> Option.bind (getAllParents h p) (\<lambda>ps. Some (insert p ps))))"

subsection \<open>Changing a context\<close>

definition load_context :: "addr \<Rightarrow> (ctx_store, Context) comp" where
  "load_context a = readC (\<lambda>h. map_option Inr (h a))"

definition update_context :: "addr \<Rightarrow> (Context \<Rightarrow> Context) \<Rightarrow> (ctx_store, unit) comp" where
  "update_context a f = (\<lambda>h. case h a of None \<Rightarrow> None | Some c \<Rightarrow> Some (Inr (), h(a \<mapsto> f c)))"

definition initParentContext :: "addr \<Rightarrow> addr \<Rightarrow> (ctx_store, unit) comp" where
  "initParentContext this other =
     (if this = GlobalContext then update_context this (\<lambda>c. c\<lparr>ctx_parent := None\<rparr>)
      else bindC (load_context other) (\<lambda>oc.
        if ctx_parent oc = Some this then ret ()
        else bindC (readC (\<lambda>h. map_option Inr (getAllParents h other))) (\<lambda>parents.
          if this \<in> parents then throw (LogicError ''I cannot be one of my ancestors'')
          else update_context this (\<lambda>c. c\<lparr>ctx_parent := ctx_parent oc\<rparr>))))"

definition Context_copy_assign :: "addr \<Rightarrow> addr \<Rightarrow> (ctx_store, unit) comp" where
  "Context_copy_assign this other =
     (if this = other then ret ()
      else bindC (load_context other) (\<lambda>oc.
        thenC (update_context this (\<lambda>c. c\<lparr>ctx_metadata := ctx_metadata oc\<rparr>))
              (initParentContext this other)))"

text \<open>Moving from a multimap leaves it empty.\<close>

definition Context_move_assign :: "addr \<Rightarrow> addr \<Rightarrow> (ctx_store, unit) comp" where
  "Context_move_assign this other =
     (if this = other then ret ()
      else bindC (load_context other) (\<lambda>oc.
        thenC (update_context this (\<lambda>c. c\<lparr>ctx_metadata := ctx_metadata oc\<rparr>))
        (thenC (update_context other (\<lambda>c. c\<lparr>ctx_metadata := []\<rparr>))
               (initParentContext this other))))"

text \<open>
  The constructors make an object at \<open>this\<close>. When one throws there is no object. The copy
  and move constructors default-initialise the members and then assign.
\<close>

definition Context_construct :: "addr \<Rightarrow> metadata \<Rightarrow> addr option \<Rightarrow> (ctx_store, unit) comp" where
  "Context_construct this md parent_context =
     (if parent_context = Some this
      then throw (LogicError ''parent context is identical to its child'')
      else modifyC (\<lambda>h. h(this \<mapsto>
             \<lparr>ctx_metadata = md,
              ctx_parent = (case parent_context of Some p \<Rightarrow> Some p | None \<Rightarrow> Some ThreadLocalContext)\<rparr>)))"

definition Context_construct_default :: "addr \<Rightarrow> (ctx_store, unit) comp" where
  "Context_construct_default this = Context_construct this [] None"

definition Context_destroy :: "addr \<Rightarrow> (ctx_store, unit) comp" where
  "Context_destroy this = modifyC (\<lambda>h. h(this := None))"

definition Context_construct_by ::
    "(addr \<Rightarrow> addr \<Rightarrow> (ctx_store, unit) comp) \<Rightarrow> addr \<Rightarrow> addr \<Rightarrow> (ctx_store, unit) comp" where
  "Context_construct_by assign this other =
     thenC (modifyC (\<lambda>h. h(this \<mapsto> \<lparr>ctx_metadata = [], ctx_parent = None\<rparr>)))
       (catchC (assign this other) (\<lambda>e. thenC (Context_destroy this) (throw e)))"

definition Context_copy_construct :: "addr \<Rightarrow> addr \<Rightarrow> (ctx_store, unit) comp" where
  "Context_copy_construct this other = Context_construct_by Context_copy_assign this other"

definition Context_move_construct :: "addr \<Rightarrow> addr \<Rightarrow> (ctx_store, unit) comp" where
  "Context_move_construct this other = Context_construct_by Context_move_assign this other"

definition Context_Clear :: "addr \<Rightarrow> (ctx_store, unit) comp" where
  "Context_Clear this = update_context this (\<lambda>c. c\<lparr>ctx_metadata := []\<rparr>)"

definition Context_Erase :: "addr \<Rightarrow> string \<Rightarrow> (ctx_store, nat) comp" where
  "Context_Erase this key =
     bindC (load_context this) (\<lambda>c.
       thenC (update_context this (\<lambda>c. c\<lparr>ctx_metadata := mm_erase key (ctx_metadata c)\<rparr>))
             (ret (mm_count key (ctx_metadata c))))"

definition Context_Insert :: "addr \<Rightarrow> string \<Rightarrow> string \<Rightarrow> (ctx_store, unit) comp" where
  "Context_Insert this key v =
     update_context this (\<lambda>c. c\<lparr>ctx_metadata := mm_insert (key, v) (ctx_metadata c)\<rparr>)"

definition Context_Insert_list :: "addr \<Rightarrow> (string \<times> string) list \<Rightarrow> (ctx_store, unit) comp" where
  "Context_Insert_list this kvs =
     update_context this (\<lambda>c. c\<lparr>ctx_metadata := fold mm_insert kvs (ctx_metadata c)\<rparr>)"

subsection \<open>The local context of a log statement\<close>

text \<open>
  \<open>gmtime_r\<close> and \<open>std::put_time("%FT%TZ")\<close> on a system clock value in nanoseconds since the
  epoch: whole seconds (\<open>to_time_t\<close> truncates), split into the proleptic Gregorian calendar.
\<close>

definition pad2 :: "int \<Rightarrow> string" where
  "pad2 i = (if i < 10 then ''0'' @ show_int i else show_int i)"

definition civil_from_days :: "int \<Rightarrow> int \<times> int \<times> int" where
  "civil_from_days days =
     (let z = days + 719468;
          era = z div 146097;
          doe = z - era * 146097;
          yoe = (doe - doe div 1460 + doe div 36524 - doe div 146096) div 365;
          doy = doe - (365 * yoe + yoe div 4 - yoe div 100);
          mp = (5 * doy + 2) div 153;
          d = doy - (153 * mp + 2) div 5 + 1;
          m = (if mp < 10 then mp + 3 else mp - 9);
          y = yoe + era * 400
      in (if m \<le> 2 then y + 1 else y, m, d))"

definition trunc_div :: "int \<Rightarrow> int \<Rightarrow> int" where
  "trunc_div a b = sgn a * sgn b * (\<bar>a\<bar> div \<bar>b\<bar>)"

definition time_to_string :: "int \<Rightarrow> string" where
  "time_to_string tp =
     (let tt = trunc_div tp 1000000000;
          days = tt div 86400;
          secs = tt mod 86400;
          (y, m, d) = civil_from_days days
      in show_int y @ ''-'' @ pad2 m @ ''-'' @ pad2 d @ ''T'' @ pad2 (secs div 3600) @ '':''
         @ pad2 (secs div 60 mod 60) @ '':'' @ pad2 (secs mod 60) @ ''Z'')"

definition local_metadata :: "string \<Rightarrow> string \<Rightarrow> int \<Rightarrow> int \<Rightarrow> metadata" where
  "local_metadata file function line tp =
     mm_of_list [(''file'', file), (''function'', function), (''line'', show_int line),
                 (''timestamp'', time_to_string tp)]"

definition Context_construct_local ::
    "addr \<Rightarrow> addr option \<Rightarrow> string \<Rightarrow> string \<Rightarrow> int \<Rightarrow> int \<Rightarrow> (ctx_store, unit) comp" where
  "Context_construct_local this parent_context file function line tp =
     Context_construct this (local_metadata file function line tp) parent_context"

subsection \<open>Well-formed stores\<close>

text \<open>
  \<open>rooted h a\<close>: following the parent pointers from \<open>a\<close> meets live objects only and ends.
\<close>

inductive rooted :: "ctx_store \<Rightarrow> addr \<Rightarrow> bool" for h where
  root: "h a = Some c \<Longrightarrow> ctx_parent c = None \<Longrightarrow> rooted h a"
| link: "h a = Some c \<Longrightarrow> ctx_parent c = Some p \<Longrightarrow> rooted h p \<Longrightarrow> rooted h a"

inductive_cases rooted_elim: "rooted h a"

inductive_simps rooted_iff: "rooted h a"

definition store_ok :: "ctx_store \<Rightarrow> bool" where
  "store_ok h \<longleftrightarrow>
     (\<forall>a\<in>dom h. rooted h a) \<and>
     (\<forall>a c. h a = Some c \<longrightarrow> mm_sorted (ctx_metadata c)) \<and>
     (\<exists>c. h GlobalContext = Some c \<and> ctx_parent c = None) \<and>
     ThreadLocalContext \<in> dom h"

lemma rooted_live: "rooted h a \<Longrightarrow> a \<in> dom h"
  by (auto elim: rooted_elim)

lemma store_ok_rooted: "store_ok h \<Longrightarrow> a \<in> dom h \<Longrightarrow> rooted h a"
  by (auto simp: store_ok_def)

lemma store_ok_sorted: "store_ok h \<Longrightarrow> h a = Some c \<Longrightarrow> mm_sorted (ctx_metadata c)"
  by (auto simp: store_ok_def)

lemma store_ok_initial: "store_ok initial_contexts"
proof -
  have g: "rooted initial_contexts GlobalContext"
    by (rule rooted.root [where c = "\<lparr>ctx_metadata = [], ctx_parent = None\<rparr>"])
      (simp_all add: initial_contexts_def)
  have t: "rooted initial_contexts ThreadLocalContext"
    by (rule rooted.link [where c = "\<lparr>ctx_metadata = [], ctx_parent = Some GlobalContext\<rparr>", OF _ _ g])
      (simp_all add: initial_contexts_def)
  from g t show ?thesis
    unfolding store_ok_def by (auto simp: initial_contexts_def split: if_splits)
qed

subsubsection \<open>The reads return on rooted contexts\<close>

lemma GetAllMetadata_defined:
  "rooted h a \<Longrightarrow> \<exists>m. GetAllMetadata h a = Some m"
  by (induction rule: rooted.induct) (auto simp: GetAllMetadata.simps)

lemma getAllParents_defined: "rooted h a \<Longrightarrow> \<exists>ps. getAllParents h a = Some ps"
  by (induction rule: rooted.induct) (auto simp: getAllParents.simps)

lemma GetAllMetadata_lookup:
  "rooted h a \<Longrightarrow> \<forall>a c. h a = Some c \<longrightarrow> mm_sorted (ctx_metadata c) \<Longrightarrow>
   \<exists>m. GetAllMetadata h a = Some m \<and> mm_sorted m \<and>
       Context_AtOr h a k d = Some (case mm_find k m of Some v \<Rightarrow> v | None \<Rightarrow> d) \<and>
       Context_Contains h a k = Some (mm_find k m \<noteq> None) \<and>
       Context_At h a k = Some (case mm_find k m of Some v \<Rightarrow> Inr v
          | None \<Rightarrow> Inl (OutOfRange (k @ '' not found in context metadata'')))"
proof (induction rule: rooted.induct)
  case (root a c)
  then show ?case
    by (auto simp: GetAllMetadata.simps Context_AtOr.simps Context_Contains.simps
        Context_At.simps split: option.splits)
next
  case (link a c p)
  then obtain m where m: "GetAllMetadata h p = Some m" "mm_sorted m"
      "Context_AtOr h p k d = Some (case mm_find k m of Some v \<Rightarrow> v | None \<Rightarrow> d)"
      "Context_Contains h p k = Some (mm_find k m \<noteq> None)"
      "Context_At h p k = Some (case mm_find k m of Some v \<Rightarrow> Inr v
          | None \<Rightarrow> Inl (OutOfRange (k @ '' not found in context metadata'')))"
    by blast
  from link have s: "mm_sorted (ctx_metadata c)" by blast
  show ?case
  proof (intro exI conjI)
    show "GetAllMetadata h a = Some (mm_merge (ctx_metadata c) m)"
      using link m by (simp add: GetAllMetadata.simps [of h a])
    show "mm_sorted (mm_merge (ctx_metadata c) m)" using s by simp
    show "Context_AtOr h a k d
        = Some (case mm_find k (mm_merge (ctx_metadata c) m) of Some v \<Rightarrow> v | None \<Rightarrow> d)"
      using link(1,2) m(3) s
      by (simp add: Context_AtOr.simps [of h a] mm_find_merge split: option.splits)
    show "Context_Contains h a k = Some (mm_find k (mm_merge (ctx_metadata c) m) \<noteq> None)"
      using link(1,2) m(4) s
      by (auto simp: Context_Contains.simps [of h a] mm_find_merge split: option.splits)
    show "Context_At h a k = Some (case mm_find k (mm_merge (ctx_metadata c) m) of Some v \<Rightarrow> Inr v
        | None \<Rightarrow> Inl (OutOfRange (k @ '' not found in context metadata'')))"
      using link(1,2) m(5) s
      by (simp add: Context_At.simps [of h a] mm_find_merge split: option.splits)
  qed
qed

subsubsection \<open>How rootedness depends on the store\<close>

lemma rooted_cong:
  assumes "rooted h a"
    and "\<And>b c. h b = Some c \<Longrightarrow> \<exists>c'. h' b = Some c' \<and> ctx_parent c' = ctx_parent c"
  shows "rooted h' a"
  using assms(1)
proof (induction rule: rooted.induct)
  case (root a c)
  with assms(2) [of a c] show ?case by (auto intro: rooted.root)
next
  case (link a c p)
  with assms(2) [of a c] show ?case by (auto intro: rooted.link)
qed

lemma getAllParents_cong:
  assumes "rooted h a"
    and "\<And>b c. h b = Some c \<Longrightarrow> \<exists>c'. h' b = Some c' \<and> ctx_parent c' = ctx_parent c"
  shows "getAllParents h' a = getAllParents h a"
  using assms(1)
proof (induction rule: rooted.induct)
  case (root a c)
  with assms(2) [of a c] show ?case by (auto simp: getAllParents.simps [of _ a])
next
  case (link a c p)
  with assms(2) [of a c] show ?case by (auto simp: getAllParents.simps [of _ a])
qed

lemma rooted_avoiding:
  assumes "rooted h a" and "getAllParents h a = Some ps" and "this \<notin> ps" and "a \<noteq> this"
  shows "rooted (h(this := x)) a"
  using assms
proof (induction arbitrary: ps rule: rooted.induct)
  case (root a c)
  then show ?case by (auto intro: rooted.root)
next
  case (link a c p)
  then obtain ps' where ps': "getAllParents h p = Some ps'"
    using getAllParents_defined by blast
  with link have "ps = insert p ps'" by (simp add: getAllParents.simps [of h a])
  with link.IH link.prems ps' have p: "rooted (h(this := x)) p" by blast
  show ?case by (rule rooted.link [OF _ _ p]) (use link in simp_all)
qed

lemma rooted_via:
  assumes "rooted h a" and "rooted h' this" and "\<And>b. b \<noteq> this \<Longrightarrow> h' b = h b"
  shows "rooted h' a"
  using assms(1)
proof (induction rule: rooted.induct)
  case (root a c)
  with assms(2,3) show ?case by (cases "a = this") (auto intro: rooted.root)
next
  case (link a c p)
  with assms(2,3) show ?case by (cases "a = this") (auto intro: rooted.link)
qed

lemma store_ok_set_metadata:
  assumes "store_ok h" and "h a = Some c" and "mm_sorted md"
  shows "store_ok (h(a \<mapsto> c\<lparr>ctx_metadata := md\<rparr>))"
proof -
  let ?h = "h(a \<mapsto> c\<lparr>ctx_metadata := md\<rparr>)"
  have same: "\<And>b c. h b = Some c \<Longrightarrow> \<exists>c'. ?h b = Some c' \<and> ctx_parent c' = ctx_parent c"
    using assms(2) by auto
  have "rooted ?h b" if "b \<in> dom ?h" for b
  proof (rule rooted_cong [OF _ same])
    show "rooted h b" using that assms(1,2) by (auto simp: store_ok_def split: if_splits)
  qed
  with assms show ?thesis
    by (auto simp: store_ok_def)
qed

lemma store_ok_set_parent:
  assumes ok: "store_ok h" and tgt: "h this = Some t" "this \<noteq> GlobalContext"
    and other: "h other = Some oc" "getAllParents h other = Some ps" "this \<notin> ps"
  shows "store_ok (h(this \<mapsto> t\<lparr>ctx_parent := ctx_parent oc\<rparr>))"
proof -
  let ?h = "h(this \<mapsto> t\<lparr>ctx_parent := ctx_parent oc\<rparr>)"
  have rt: "rooted ?h this"
  proof (cases "ctx_parent oc")
    case None
    then show ?thesis by (auto intro: rooted.root)
  next
    case (Some p)
    have "rooted h other" using ok other(1) by (auto intro: store_ok_rooted)
    with other(1) Some have p: "rooted h p" by (auto elim: rooted_elim)
    then obtain ps' where ps': "getAllParents h p = Some ps'" using getAllParents_defined by blast
    with other Some have "ps = insert p ps'" by (simp add: getAllParents.simps [of h other])
    with other(3) p ps' have "rooted ?h p" by (intro rooted_avoiding) auto
    with Some show ?thesis by (auto intro: rooted.link)
  qed
  have "rooted ?h b" if "b \<in> dom ?h" for b
  proof (rule rooted_via [OF _ rt])
    show "rooted h b" using that ok tgt by (auto simp: store_ok_def split: if_splits)
  qed auto
  with ok tgt show ?thesis by (auto simp: store_ok_def)
qed

lemma store_ok_global_parent:
  assumes ok: "store_ok h" and g: "h GlobalContext = Some c"
  shows "h(GlobalContext \<mapsto> c\<lparr>ctx_parent := None\<rparr>) = h"
  using assms by (auto simp: store_ok_def fun_eq_iff)

lemma store_ok_extend:
  assumes ok: "store_ok h" and fresh: "this \<notin> dom h" and md: "mm_sorted (ctx_metadata c)"
    and par: "case ctx_parent c of None \<Rightarrow> True | Some p \<Rightarrow> p \<in> dom h"
  shows "store_ok (h(this \<mapsto> c))"
proof -
  let ?h = "h(this \<mapsto> c)"
  have ext: "\<And>b d. h b = Some d \<Longrightarrow> \<exists>d'. ?h b = Some d' \<and> ctx_parent d' = ctx_parent d"
    using fresh by auto
  have old: "rooted ?h b" if "b \<in> dom h" for b
    by (rule rooted_cong [OF store_ok_rooted [OF ok that] ext])
  have "rooted ?h this"
  proof (cases "ctx_parent c")
    case None
    then show ?thesis by (auto intro: rooted.root)
  next
    case (Some p)
    with par have "rooted ?h p" using old by simp
    with Some show ?thesis by (intro rooted.link [of ?h this c p]) simp_all
  qed
  with old ok fresh md show ?thesis by (auto simp: store_ok_def)
qed

lemma store_ok_remove:
  assumes ok: "store_ok h" and "this \<notin> {GlobalContext, ThreadLocalContext}"
    and orphan: "\<And>b c. h b = Some c \<Longrightarrow> ctx_parent c \<noteq> Some this"
  shows "store_ok (h(this := None))"
proof -
  have "rooted (h(this := None)) b" if "rooted h b" "b \<noteq> this" for b
    using that
  proof (induction rule: rooted.induct)
    case (root a c)
    then show ?case by (auto intro: rooted.root)
  next
    case (link a c p)
    with orphan have "p \<noteq> this" by blast
    with link show ?case by (auto intro: rooted.link)
  qed
  with assms show ?thesis by (auto simp: store_ok_def)
qed

subsection \<open>What the operations do to a well-formed store\<close>

lemma update_context_run [ctx_simps]:
  "h a = Some c \<Longrightarrow> update_context a f h = Some (Inr (), h(a \<mapsto> f c))"
  by (simp add: update_context_def)

lemma load_context_run [ctx_simps]: "h a = Some c \<Longrightarrow> load_context a h = Some (Inr c, h)"
  by (simp add: load_context_def readC_def)

lemma update_context_SomeE:
  assumes "update_context a f h = Some (r, h')"
  obtains c where "h a = Some c" "r = Inr ()" "h' = h(a \<mapsto> f c)"
  using assms by (auto simp: update_context_def split: option.splits)

text \<open>The outcome of re-parenting \<open>this\<close> to the parent of \<open>other\<close>, case by case.\<close>

definition reparented :: "ctx_store \<Rightarrow> addr \<Rightarrow> Context \<Rightarrow> Context \<Rightarrow> addr set \<Rightarrow> ((exn + unit) \<times> ctx_store)" where
  "reparented h this t oc ps =
     (if this = GlobalContext \<or> ctx_parent oc = Some this then (Inr (), h)
      else if this \<in> ps then (Inl (LogicError ''I cannot be one of my ancestors''), h)
      else (Inr (), h(this \<mapsto> t\<lparr>ctx_parent := ctx_parent oc\<rparr>)))"

lemma initParentContext_run:
  assumes ok: "store_ok h" and "h this = Some t" and "h other = Some oc"
    and ps: "getAllParents h other = Some ps"
  shows "initParentContext this other h = Some (reparented h this t oc ps)"
  using assms
  by (auto simp: initParentContext_def reparented_def comp_simps ctx_simps store_ok_global_parent)

lemma reparented_ok:
  assumes "store_ok h" and "h this = Some t" and "h other = Some oc"
    and "getAllParents h other = Some ps"
  shows "store_ok (snd (reparented h this t oc ps))"
  using assms store_ok_set_parent [of h this t other oc ps] by (auto simp: reparented_def)

lemma set_metadata_same_parents:
  assumes "h a = Some c" and "h b = Some d"
  shows "\<exists>d'. (h(a \<mapsto> c\<lparr>ctx_metadata := md\<rparr>)) b = Some d' \<and> ctx_parent d' = ctx_parent d"
  using assms by auto

lemma getAllParents_set_metadata:
  "rooted h b \<Longrightarrow> h a = Some c \<Longrightarrow>
   getAllParents (h(a \<mapsto> c\<lparr>ctx_metadata := md\<rparr>)) b = getAllParents h b"
  by (rule getAllParents_cong) (auto dest: set_metadata_same_parents)

lemma Context_copy_assign_run:
  assumes ok: "store_ok h" and t: "h this = Some t" and oc: "h other = Some oc"
    and ps: "getAllParents h other = Some ps" and ne: "this \<noteq> other"
  defines "t' \<equiv> t\<lparr>ctx_metadata := ctx_metadata oc\<rparr>"
  shows "Context_copy_assign this other h = Some (reparented (h(this \<mapsto> t')) this t' oc ps)"
proof -
  have ok': "store_ok (h(this \<mapsto> t'))"
    unfolding t'_def by (rule store_ok_set_metadata [OF ok t store_ok_sorted [OF ok oc]])
  have "rooted h other" using ok oc by (auto intro: store_ok_rooted)
  then have ps': "getAllParents (h(this \<mapsto> t')) other = Some ps"
    unfolding t'_def using t ps by (simp only: getAllParents_set_metadata)
  have "Context_copy_assign this other h = initParentContext this other (h(this \<mapsto> t'))"
    using ne t oc by (simp add: Context_copy_assign_def comp_simps ctx_simps t'_def)
  also have "\<dots> = Some (reparented (h(this \<mapsto> t')) this t' oc ps)"
    by (rule initParentContext_run [OF ok' _ _ ps']) (use ne oc in simp_all)
  finally show ?thesis .
qed

lemma keeps_initParentContext: "keeps store_ok (initParentContext this other)"
proof (rule keepsI)
  fix h r h' assume ok: "store_ok h" and run: "initParentContext this other h = Some (r, h')"
  show "store_ok h'"
  proof (cases "this = GlobalContext")
    case True
    then show ?thesis using run ok
      by (auto simp: initParentContext_def store_ok_global_parent elim!: update_context_SomeE)
  next
    case False
    then obtain oc where oc: "h other = Some oc"
      using run by (cases "h other")
        (auto simp: initParentContext_def load_context_def readC_def bindC_def)
    then obtain ps where ps: "getAllParents h other = Some ps"
      using getAllParents_defined store_ok_rooted [OF ok] by blast
    show ?thesis
    proof (cases "h this")
      case None
      then have "h' = h" using run False oc ps
        by (auto simp: initParentContext_def comp_simps ctx_simps update_context_def split: if_splits)
      then show ?thesis using ok by simp
    next
      case (Some t)
      then show ?thesis
        using run initParentContext_run [OF ok Some oc ps] reparented_ok [OF ok Some oc ps] by auto
    qed
  qed
qed

lemma keeps_update_metadata:
  assumes "\<And>m. mm_sorted m \<Longrightarrow> mm_sorted (f m)"
  shows "keeps store_ok (update_context a (\<lambda>c. c\<lparr>ctx_metadata := f (ctx_metadata c)\<rparr>))"
  by (rule keepsI, erule update_context_SomeE)
    (auto intro!: store_ok_set_metadata assms dest: store_ok_sorted)

lemma keeps_Context_Insert: "keeps store_ok (Context_Insert this k v)"
  unfolding Context_Insert_def by (rule keeps_update_metadata) simp

lemma mm_sorted_fold_insert: "mm_sorted m \<Longrightarrow> mm_sorted (fold mm_insert kvs m)"
  using mm_sorted_merge [of m kvs] by (simp add: mm_merge_def)

lemma keeps_Context_Insert_list: "keeps store_ok (Context_Insert_list this kvs)"
  unfolding Context_Insert_list_def by (rule keeps_update_metadata) (rule mm_sorted_fold_insert)

lemma keeps_Context_Clear: "keeps store_ok (Context_Clear this)"
  unfolding Context_Clear_def by (rule keeps_update_metadata) simp

lemma keeps_load_context: "keeps store_ok (load_context a)"
  unfolding load_context_def by blast

lemma keeps_Context_Erase: "keeps store_ok (Context_Erase this k)"
  unfolding Context_Erase_def
  by (intro keeps_bindC keeps_thenC keeps_ret keeps_load_context keeps_update_metadata) simp

lemma keeps_copy_metadata:
  assumes "mm_sorted md"
  shows "keeps store_ok (update_context a (\<lambda>c. c\<lparr>ctx_metadata := md\<rparr>))"
  using keeps_update_metadata [of "\<lambda>_. md" a] assms by simp

lemma keeps_Context_copy_assign: "keeps store_ok (Context_copy_assign this other)"
proof (rule keepsI)
  fix h r h' assume ok: "store_ok h" and run: "Context_copy_assign this other h = Some (r, h')"
  show "store_ok h'"
  proof (cases "this = other")
    case True
    then show ?thesis using run ok by (simp add: Context_copy_assign_def comp_simps)
  next
    case False
    then obtain oc where oc: "h other = Some oc"
      using run by (cases "h other")
        (auto simp: Context_copy_assign_def load_context_def readC_def bindC_def)
    have k: "keeps store_ok (thenC (update_context this (\<lambda>c. c\<lparr>ctx_metadata := ctx_metadata oc\<rparr>))
        (initParentContext this other))"
      by (intro keeps_thenC keeps_initParentContext keeps_copy_metadata store_ok_sorted [OF ok oc])
    from run False oc show ?thesis
      by (intro keepsD [OF k, of h r h'] ok) (simp add: Context_copy_assign_def comp_simps ctx_simps)
  qed
qed

lemma keeps_Context_move_assign: "keeps store_ok (Context_move_assign this other)"
proof (rule keepsI)
  fix h r h' assume ok: "store_ok h" and run: "Context_move_assign this other h = Some (r, h')"
  show "store_ok h'"
  proof (cases "this = other")
    case True
    then show ?thesis using run ok by (simp add: Context_move_assign_def comp_simps)
  next
    case False
    then obtain oc where oc: "h other = Some oc"
      using run by (cases "h other")
        (auto simp: Context_move_assign_def load_context_def readC_def bindC_def)
    have k: "keeps store_ok (thenC (update_context this (\<lambda>c. c\<lparr>ctx_metadata := ctx_metadata oc\<rparr>))
        (thenC (update_context other (\<lambda>c. c\<lparr>ctx_metadata := []\<rparr>)) (initParentContext this other)))"
      by (intro keeps_thenC keeps_initParentContext keeps_copy_metadata mm_sorted_Nil
          store_ok_sorted [OF ok oc])
    from run False oc show ?thesis
      by (intro keepsD [OF k, of h r h'] ok) (simp add: Context_move_assign_def comp_simps ctx_simps)
  qed
qed

lemma Context_construct_run:
  assumes "this \<notin> dom h" and "store_ok h" and "case parent of None \<Rightarrow> True | Some p \<Rightarrow> p \<in> dom h"
  shows "Context_construct this md parent h = Some (Inr (), h(this \<mapsto>
      \<lparr>ctx_metadata = md,
       ctx_parent = Some (case parent of Some p \<Rightarrow> p | None \<Rightarrow> ThreadLocalContext)\<rparr>))"
  using assms by (auto simp: Context_construct_def comp_simps split: option.splits)

lemma store_ok_Context_construct:
  assumes fresh: "this \<notin> dom h" and ok: "store_ok h" and md: "mm_sorted md"
    and par: "case parent of None \<Rightarrow> True | Some p \<Rightarrow> p \<in> dom h"
    and run: "Context_construct this md parent h = Some (r, h')"
  shows "store_ok h'"
proof -
  have "ThreadLocalContext \<in> dom h" using ok by (simp add: store_ok_def)
  then show ?thesis
    using run Context_construct_run [OF fresh ok par, of md] par
    by (auto intro!: store_ok_extend [OF ok fresh] simp: md split: option.splits)
qed

lemma Context_construct_by_ok:
  assumes fresh: "this \<notin> dom h" and ok: "store_ok h" and k: "keeps store_ok (assign this other)"
    and run: "Context_construct_by assign this other h = Some (Inr (), h')"
  shows "store_ok h'"
proof -
  let ?h = "h(this \<mapsto> \<lparr>ctx_metadata = [], ctx_parent = None\<rparr>)"
  have ok': "store_ok ?h" by (rule store_ok_extend [OF ok fresh]) simp_all
  from run have "assign this other ?h = Some (Inr (), h')"
    by (auto simp: Context_construct_by_def Context_destroy_def thenC_def bindC_def catchC_def
        modifyC_def throw_def split: option.splits sum.splits)
  then show ?thesis using k ok' by (auto dest: keepsD)
qed

text \<open>
  What a program can do to contexts: construct objects at fresh addresses with live (or no)
  parents, copy and move them, change them by the public operations, go on after an
  exception, and destroy an object that is nobody's parent.
\<close>

inductive ctx_step :: "ctx_store \<Rightarrow> ctx_store \<Rightarrow> bool" where
  construct: "this \<notin> dom h \<Longrightarrow> (case parent of None \<Rightarrow> True | Some p \<Rightarrow> p \<in> dom h) \<Longrightarrow>
     Context_construct this (mm_of_list md) parent h = Some (r, h') \<Longrightarrow> ctx_step h h'"
| copy_construct: "this \<notin> dom h \<Longrightarrow>
     Context_copy_construct this other h = Some (Inr (), h') \<Longrightarrow> ctx_step h h'"
| move_construct: "this \<notin> dom h \<Longrightarrow>
     Context_move_construct this other h = Some (Inr (), h') \<Longrightarrow> ctx_step h h'"
| copy_assign: "Context_copy_assign this other h = Some (r, h') \<Longrightarrow> ctx_step h h'"
| move_assign: "Context_move_assign this other h = Some (r, h') \<Longrightarrow> ctx_step h h'"
| insert_one: "Context_Insert this k v h = Some (r, h') \<Longrightarrow> ctx_step h h'"
| insert_list: "Context_Insert_list this kvs h = Some (r, h') \<Longrightarrow> ctx_step h h'"
| erase: "Context_Erase this k h = Some (n, h') \<Longrightarrow> ctx_step h h'"
| clear: "Context_Clear this h = Some (r, h') \<Longrightarrow> ctx_step h h'"
| destroy: "this \<notin> {GlobalContext, ThreadLocalContext} \<Longrightarrow>
     (\<And>b c. h b = Some c \<Longrightarrow> ctx_parent c \<noteq> Some this) \<Longrightarrow>
     Context_destroy this h = Some (r, h') \<Longrightarrow> ctx_step h h'"

inductive ctx_reachable :: "ctx_store \<Rightarrow> bool" where
  initial: "ctx_reachable initial_contexts"
| step: "ctx_reachable h \<Longrightarrow> ctx_step h h' \<Longrightarrow> ctx_reachable h'"

lemma ctx_step_ok: "ctx_step h h' \<Longrightarrow> store_ok h \<Longrightarrow> store_ok h'"
proof (induction rule: ctx_step.induct)
  case (construct this h parent md r h')
  then show ?case by (rule_tac store_ok_Context_construct) (assumption | rule mm_sorted_of_list)+
next
  case (copy_construct this h other h')
  from copy_construct(2) show ?case
    unfolding Context_copy_construct_def
    by (rule Context_construct_by_ok [OF copy_construct(1,3) keeps_Context_copy_assign])
next
  case (move_construct this h other h')
  from move_construct(2) show ?case
    unfolding Context_move_construct_def
    by (rule Context_construct_by_ok [OF move_construct(1,3) keeps_Context_move_assign])
next
  case (copy_assign this other h r h')
  then show ?case by (rule keepsD [OF keeps_Context_copy_assign])
next
  case (move_assign this other h r h')
  then show ?case by (rule keepsD [OF keeps_Context_move_assign])
next
  case (insert_one this k v h r h')
  then show ?case by (rule keepsD [OF keeps_Context_Insert])
next
  case (insert_list this kvs h r h')
  then show ?case by (rule keepsD [OF keeps_Context_Insert_list])
next
  case (erase this k h n h')
  then show ?case by (rule keepsD [OF keeps_Context_Erase])
next
  case (clear this h r h')
  then show ?case by (rule keepsD [OF keeps_Context_Clear])
next
  case (destroy this h r h')
  from destroy(3) have "h' = h(this := None)" by (simp add: Context_destroy_def comp_simps)
  moreover have "store_ok (h(this := None))"
    by (rule store_ok_remove [OF destroy(4,1)]) (rule destroy(2))
  ultimately show ?case by (simp only:)
qed

lemma ctx_reachable_ok: "ctx_reachable h \<Longrightarrow> store_ok h"
  by (induction rule: ctx_reachable.induct) (auto intro: store_ok_initial ctx_step_ok)

lemma store_ok_reads:
  assumes "store_ok h" and "a \<in> dom h"
  shows "\<exists>m. GetAllMetadata h a = Some m \<and> mm_sorted m \<and>
       Context_AtOr h a k d = Some (case mm_find k m of Some v \<Rightarrow> v | None \<Rightarrow> d) \<and>
       Context_Contains h a k = Some (mm_find k m \<noteq> None) \<and>
       Context_At h a k = Some (case mm_find k m of Some v \<Rightarrow> Inr v
          | None \<Rightarrow> Inl (OutOfRange (k @ '' not found in context metadata'')))"
  using assms by (intro GetAllMetadata_lookup) (auto simp: store_ok_def)

lemma mm_find_filter_metadata_gen:
  "mm_sorted f \<Longrightarrow>
   mm_find k (fold (\<lambda>key filtered. case mm_find key all of
       Some v \<Rightarrow> mm_insert (key, v) filtered | None \<Rightarrow> filtered) keys f)
   = (case mm_find k f of Some v \<Rightarrow> Some v | None \<Rightarrow> if k \<in> set keys then mm_find k all else None)"
proof (induction keys arbitrary: f)
  case Nil
  then show ?case by (simp split: option.splits)
next
  case (Cons key keys)
  show ?case
  proof (cases "mm_find key all")
    case None
    with Cons show ?thesis by (auto split: option.splits)
  next
    case (Some v)
    with Cons.IH [of "mm_insert (key, v) f"] Cons.prems show ?thesis
      by (cases "k = key") (simp_all add: mm_find_insert split: option.splits)
  qed
qed

lemma mm_find_filter_metadata:
  "mm_find k (filter_metadata all keys) = (if k \<in> set keys then mm_find k all else None)"
  by (simp add: filter_metadata_def mm_find_filter_metadata_gen)

subsection \<open>Properties\<close>

text \<open>
  Claim C18: in every store a program can reach, all reads of a live context return, and
  they agree: \<open>AtOr\<close>, \<open>At\<close> and \<open>Contains\<close> answer from the first element that
  \<open>GetAllMetadata\<close> holds for the key, with the default, \<open>out_of_range\<close> and \<open>false\<close> exactly
  when it holds none. In particular parent chains are finite and no pointer dangles.
\<close>

theorem context_reads_agree:
  assumes "ctx_reachable h" and "a \<in> dom h"
  shows "\<exists>all. GetAllMetadata h a = Some all \<and>
       Context_AtOr h a k d = Some (case mm_find k all of Some v \<Rightarrow> v | None \<Rightarrow> d) \<and>
       Context_Contains h a k = Some (mm_find k all \<noteq> None) \<and>
       Context_At h a k = Some (case mm_find k all of Some v \<Rightarrow> Inr v
          | None \<Rightarrow> Inl (OutOfRange (k @ '' not found in context metadata'')))"
  using store_ok_reads [OF ctx_reachable_ok [OF assms(1)] assms(2)] by blast

lemma initial_ThreadLocal: "ThreadLocalContext \<in> dom initial_contexts"
  by (simp add: initial_contexts_def)

theorem context_reads_agree_witness:
  "\<exists>all. GetAllMetadata initial_contexts ThreadLocalContext = Some all \<and>
     Context_AtOr initial_contexts ThreadLocalContext ''request'' ''UNKNOWN''
       = Some (case mm_find ''request'' all of Some v \<Rightarrow> v | None \<Rightarrow> ''UNKNOWN'')"
  using context_reads_agree [OF ctx_reachable.initial initial_ThreadLocal] by blast

text \<open>
  Claim C19: the outcome of copy assignment between two different live contexts of a reachable
  store. It always returns and keeps the store well formed. The target takes the metadata of
  the source in every case; it takes its parent too unless the target is the global context or
  already the parent of the source, and it refuses with \<open>logic_error\<close> exactly when the target
  is a remoter ancestor of the source, so that no cycle arises.
\<close>

theorem copy_assign_outcome:
  assumes "ctx_reachable h" and "h this = Some t" and "h other = Some oc" and "this \<noteq> other"
  shows "\<exists>parents r h'. getAllParents h other = Some parents \<and>
       Context_copy_assign this other h = Some (r, h') \<and> store_ok h' \<and>
       (\<exists>c. h' this = Some c \<and> ctx_metadata c = ctx_metadata oc \<and>
         (if this = GlobalContext \<or> ctx_parent oc = Some this \<or> this \<in> parents
          then ctx_parent c = ctx_parent t else ctx_parent c = ctx_parent oc)) \<and>
       r = (if this \<noteq> GlobalContext \<and> ctx_parent oc \<noteq> Some this \<and> this \<in> parents
            then Inl (LogicError ''I cannot be one of my ancestors'') else Inr ())"
proof -
  have ok: "store_ok h" by (rule ctx_reachable_ok [OF assms(1)])
  then have "rooted h other" using assms(3) by (auto intro: store_ok_rooted)
  then obtain ps where ps: "getAllParents h other = Some ps" using getAllParents_defined by blast
  let ?t = "t\<lparr>ctx_metadata := ctx_metadata oc\<rparr>"
  let ?res = "reparented (h(this \<mapsto> ?t)) this ?t oc ps"
  have run: "Context_copy_assign this other h = Some (fst ?res, snd ?res)"
    using Context_copy_assign_run [OF ok assms(2,3) ps assms(4)] by simp
  have "store_ok (snd ?res)" by (rule keepsD [OF keeps_Context_copy_assign, OF run ok])
  with ps run show ?thesis
    by (intro exI [of _ ps] exI [of _ "fst ?res"] exI [of _ "snd ?res"])
      (auto simp: reparented_def)
qed

definition nested_contexts :: ctx_store where
  "nested_contexts = initial_contexts
     (2 \<mapsto> \<lparr>ctx_metadata = [], ctx_parent = Some ThreadLocalContext\<rparr>)"

lemma nested_contexts_reachable: "ctx_reachable nested_contexts"
proof (rule ctx_reachable.step [OF ctx_reachable.initial])
  have "Context_construct 2 (mm_of_list []) None initial_contexts = Some (Inr (), nested_contexts)"
    by (simp add: Context_construct_def nested_contexts_def mm_of_list_def comp_simps)
  then show "ctx_step initial_contexts nested_contexts"
    by (intro ctx_step.construct [where this = 2 and parent = None and md = "[]"])
      (simp_all add: initial_contexts_def GlobalContext_def ThreadLocalContext_def)
qed

theorem copy_assign_outcome_witness:
  "\<exists>r h'. Context_copy_assign GlobalContext 2 nested_contexts = Some (r, h') \<and> store_ok h'"
  using copy_assign_outcome [OF nested_contexts_reachable, of GlobalContext _ 2]
  by (fastforce simp: nested_contexts_def initial_contexts_def GlobalContext_def ThreadLocalContext_def)

text \<open>
  A filtered copy of the metadata answers every lookup of a requested key as the
  context itself does, and holds nothing for the keys that were not requested.
\<close>

theorem GetFilteredMetadata_lookup:
  assumes "ctx_reachable h" and "a \<in> dom h"
  shows "\<exists>f. GetFilteredMetadata h a keys = Some f \<and>
       (if k \<in> set keys
        then Context_AtOr h a k d = Some (case mm_find k f of Some v \<Rightarrow> v | None \<Rightarrow> d)
          \<and> Context_Contains h a k = Some (mm_find k f \<noteq> None)
        else mm_find k f = None)"
  using store_ok_reads [OF ctx_reachable_ok [OF assms(1)] assms(2), of k d]
  by (auto simp: GetFilteredMetadata_def mm_find_filter_metadata)

theorem GetFilteredMetadata_lookup_witness:
  "\<exists>f. GetFilteredMetadata initial_contexts ThreadLocalContext [''traceparent''] = Some f
     \<and> mm_find ''scope'' f = None"
  using GetFilteredMetadata_lookup [OF ctx_reachable.initial initial_ThreadLocal,
      of "[''traceparent'']" "''scope''"] by auto

end
