(* ===== verification/Mse_Logger.thy ===== *)
theory Mse_Logger
  imports Mse_Context
begin

text \<open>
  \<open>observability/logger.h\<close> and \<open>logger.cpp\<close>: log levels, the three loggers, the structured
  (JSON) format, the \<open>LogProvider\<close> singleton and the \<open>MSE_LOG_*\<close> macros; and the state that
  all of the library's code runs on (the \<open>world\<close> of one thread).
\<close>

subsection \<open>Log levels\<close>

datatype LogLevel =
    LL_invalid
  | LL_trace
  | LL_debug
  | LL_info
  | LL_warn
  | LL_err
  | LL_critical

fun log_level_id :: "LogLevel \<Rightarrow> int" where
  "log_level_id LL_invalid = -1"
| "log_level_id LL_trace = 0"
| "log_level_id LL_debug = 1"
| "log_level_id LL_info = 2"
| "log_level_id LL_warn = 3"
| "log_level_id LL_err = 4"
| "log_level_id LL_critical = 5"

abbreviation LL_lowest :: LogLevel where "LL_lowest \<equiv> LL_trace"

lemma log_level_id_inject [simp]: "log_level_id a = log_level_id b \<longleftrightarrow> a = b"
  by (cases a; cases b) simp_all

text \<open>The code compares levels by \<open>static_cast<int>\<close>.\<close>

instantiation LogLevel :: linorder
begin

definition less_eq_LogLevel :: "LogLevel \<Rightarrow> LogLevel \<Rightarrow> bool" where
  "a \<le> b \<longleftrightarrow> log_level_id a \<le> log_level_id b"

definition less_LogLevel :: "LogLevel \<Rightarrow> LogLevel \<Rightarrow> bool" where
  "a < b \<longleftrightarrow> log_level_id a < log_level_id b"

instance
  by standard (auto simp: less_eq_LogLevel_def less_LogLevel_def)
end

fun LogLevel_to_string :: "LogLevel \<Rightarrow> exn + string" where
  "LogLevel_to_string LL_trace = Inr ''TRACE''"
| "LogLevel_to_string LL_debug = Inr ''DEBUG''"
| "LogLevel_to_string LL_info = Inr ''INFO''"
| "LogLevel_to_string LL_warn = Inr ''WARN''"
| "LogLevel_to_string LL_err = Inr ''ERROR''"
| "LogLevel_to_string LL_critical = Inr ''CRITICAL''"
| "LogLevel_to_string LL_invalid =
     Inl (InvalidArgument (''invalid log level with id '' @ show_int (log_level_id LL_invalid)))"

definition LogLevel_mapping :: "(string \<times> LogLevel) list" where
  "LogLevel_mapping =
     [(''TRACE'', LL_trace), (''DEBUG'', LL_debug), (''INFO'', LL_info),
      (''WARN'', LL_warn), (''ERROR'', LL_err), (''CRITICAL'', LL_critical)]"

definition LogLevel_from_string :: "string \<Rightarrow> LogLevel" where
  "LogLevel_from_string s = (case map_of LogLevel_mapping s of Some l \<Rightarrow> l | None \<Rightarrow> LL_invalid)"

definition LogLevel_extract :: "string \<Rightarrow> (bool \<times> LogLevel) \<times> string" where
  "LogLevel_extract s =
     (let (w, r) = (case extract_word s of Some (w, r) \<Rightarrow> (w, r) | None \<Rightarrow> ([], []));
          l = LogLevel_from_string w
      in ((l \<noteq> LL_invalid, l), r))"

definition LogLevel_insert :: "string \<Rightarrow> LogLevel \<Rightarrow> exn + string" where
  "LogLevel_insert os l = (case LogLevel_to_string l of Inl e \<Rightarrow> Inl e | Inr s \<Rightarrow> Inr (os @ s))"

lemma LL_trace_le: "LL_trace \<le> l \<Longrightarrow> \<exists>s. LogLevel_to_string l = Inr s"
  by (cases l) (simp_all add: less_eq_LogLevel_def)

subsection \<open>The JSON format\<close>

definition escape_dict :: "(char \<times> string) list" where
  "escape_dict =
     [(CHR 0x08, [CHR 0x5C, CHR ''b'']), (CHR 0x0C, [CHR 0x5C, CHR ''f'']),
      (CHR 0x0A, [CHR 0x5C, CHR ''n'']), (CHR 0x0D, [CHR 0x5C, CHR ''r'']),
      (CHR 0x09, [CHR 0x5C, CHR ''t'']), (CHR 0x22, [CHR 0x5C, CHR 0x22]),
      (CHR 0x5C, [CHR 0x5C, CHR 0x5C])]"

text \<open>
  The regular expression is one character class, the keys of \<open>escape_dict\<close>: the loop copies
  the text between matches and replaces each match by its entry.
\<close>

fun json_escape :: "string \<Rightarrow> string" where
  "json_escape [] = []"
| "json_escape (c # cs) =
     (case map_of escape_dict c of Some r \<Rightarrow> r | None \<Rightarrow> [c]) @ json_escape cs"

definition json_member :: "string \<times> string \<Rightarrow> string" where
  "json_member kv =
     [CHR 0x22] @ json_escape (fst kv) @ [CHR 0x22, CHR '':'', CHR 0x22]
       @ json_escape (snd kv) @ [CHR 0x22]"

fun json_members :: "bool \<Rightarrow> metadata \<Rightarrow> string" where
  "json_members is_first [] = []"
| "json_members is_first (kv # kvs) =
     (if is_first then [] else '','') @ json_member kv @ json_members False kvs"

definition json_object :: "metadata \<Rightarrow> string" where
  "json_object md = [CHR 0x7B] @ json_members True md @ [CHR 0x7D]"

type_synonym formatter = "ctx_store \<Rightarrow> addr \<Rightarrow> string list option \<Rightarrow> string option"

definition to_json :: formatter where
  "to_json h a flds =
     map_option json_object
       (case flds of Some fs \<Rightarrow> GetFilteredMetadata h a fs | None \<Rightarrow> GetAllMetadata h a)"

definition default_fields :: "string list" where
  "default_fields =
     [''timestamp'', ''level'', ''app'', ''x-b3-traceid'', ''x-b3-spanid'', ''message'']"

subsection \<open>Loggers and the state of a thread\<close>

datatype Logger =
    ConsoleLogger (console_min: LogLevel) (console_min_err: LogLevel)
  | DiscardLogger
  | StructuredLogger (log_backend: Logger) (logged_fields: "string list") (log_format: formatter)

datatype out_stream = Cout | Cerr

text \<open>
  The state: the context objects and the top of the stack they are allocated on, the logger
  pointer of the \<open>LogProvider\<close>, the lines written to the standard streams, the two clocks in
  nanoseconds (they stand still while code runs and advance when a thread sleeps or the code
  of the application says so), and the state of the application and of the shared objects
  its hooks refer to.
\<close>

record 'u world =
  contexts :: ctx_store
  stack_top :: addr
  log_provider :: "Logger option"
  console :: "(out_stream \<times> string) list"
  system_clock :: int
  steady_clock :: int
  app :: 'u

definition on_contexts :: "(ctx_store, 'a) comp \<Rightarrow> ('u world, 'a) comp" where
  "on_contexts m = zoomC contexts (\<lambda>h w. w\<lparr>contexts := h\<rparr>) m"

text \<open>An automatic context object: constructed, used, and destroyed on every exit.\<close>

definition pop_context :: "addr \<Rightarrow> 'u world \<Rightarrow> 'u world" where
  "pop_context a w = w\<lparr>contexts := (contexts w)(a := None), stack_top := a\<rparr>"

definition with_context ::
    "metadata \<Rightarrow> addr option \<Rightarrow> (addr \<Rightarrow> ('u world, 'a) comp) \<Rightarrow> ('u world, 'a) comp" where
  "with_context md parent body =
     bindC (getC stack_top) (\<lambda>a.
       thenC (on_contexts (Context_construct a md parent))
       (thenC (modifyC (\<lambda>w. w\<lparr>stack_top := a + 1\<rparr>))
              (cleanupC (body a) (pop_context a))))"

fun min_log_level :: "Logger \<Rightarrow> LogLevel" where
  "min_log_level (ConsoleLogger m _) = m"
| "min_log_level DiscardLogger = LL_critical"
| "min_log_level (StructuredLogger _ _ _) = LL_lowest"

definition ConsoleLogger_write :: "LogLevel \<Rightarrow> LogLevel \<Rightarrow> string \<Rightarrow> ('u world, unit) comp" where
  "ConsoleLogger_write min_err level message =
     modifyC (\<lambda>w. w\<lparr>console := console w @ [(if min_err \<le> level then Cerr else Cout, message)]\<rparr>)"

definition DiscardLogger_write :: "('u world, unit) comp" where
  "DiscardLogger_write = ret ()"

declare ConsoleLogger_write_def [comp_simps] DiscardLogger_write_def [comp_simps]

primrec Logger_write :: "Logger \<Rightarrow> addr \<Rightarrow> LogLevel \<Rightarrow> string \<Rightarrow> ('u world, unit) comp" where
  "Logger_write (ConsoleLogger m min_err) ctx level message = ConsoleLogger_write min_err level message"
| "Logger_write DiscardLogger ctx level message = DiscardLogger_write"
| "Logger_write (StructuredLogger lb fs fm) ctx level message =
     bindC (liftE (LogLevel_to_string level)) (\<lambda>ls.
       with_context (mm_of_list [(''message'', message), (''level'', ls)]) (Some ctx) (\<lambda>a.
         bindC (readC (\<lambda>w. map_option Inr (fm (contexts w) a (if fs = [] then None else Some fs)))) (\<lambda>text.
           if min_log_level lb \<le> level then Logger_write lb a level text else ret ())))"

definition Logger_Write :: "Logger \<Rightarrow> addr \<Rightarrow> LogLevel \<Rightarrow> string \<Rightarrow> ('u world, unit) comp" where
  "Logger_Write lg ctx level message =
     (if min_log_level lg \<le> level then Logger_write lg ctx level message else ret ())"

definition Logger_Write_level :: "Logger \<Rightarrow> LogLevel \<Rightarrow> string \<Rightarrow> ('u world, unit) comp" where
  "Logger_Write_level lg level message =
     with_context [] None (\<lambda>ctx. Logger_Write lg ctx level message)"

definition Logger_Write_message :: "Logger \<Rightarrow> string \<Rightarrow> ('u world, unit) comp" where
  "Logger_Write_message lg message = Logger_Write_level lg LL_info message"

definition LogProvider_GetLogger :: "('u world, Logger) comp" where
  "LogProvider_GetLogger =
     getC (\<lambda>w. case log_provider w of Some lg \<Rightarrow> lg | None \<Rightarrow> DiscardLogger)"

definition LogProvider_SetLogger :: "Logger option \<Rightarrow> ('u world, unit) comp" where
  "LogProvider_SetLogger lg = modifyC (\<lambda>w. w\<lparr>log_provider := lg\<rparr>)"

text \<open>
  Construction and destruction of a logger register and deregister it: the member
  \<open>AutoRegistration\<close> sets the provider to the new logger, its destructor sets it to null.
\<close>

definition Logger_construct :: "Logger \<Rightarrow> ('u world, unit) comp" where
  "Logger_construct lg =
     (case lg of DiscardLogger \<Rightarrow> ret () | _ \<Rightarrow> LogProvider_SetLogger (Some lg))"

definition Logger_destroy :: "Logger \<Rightarrow> ('u world, unit) comp" where
  "Logger_destroy lg =
     (case lg of DiscardLogger \<Rightarrow> ret () | _ \<Rightarrow> LogProvider_SetLogger None)"

text \<open>
  \<open>MSE_LOG_<LEVEL>(m)\<close> at a place of the source: a local context (child of the thread local
  one) with the place and the time, written through the provided logger.
\<close>

definition mse_log ::
    "string \<Rightarrow> string \<Rightarrow> int \<Rightarrow> LogLevel \<Rightarrow> string \<Rightarrow> ('u world, unit) comp" where
  "mse_log file function line level message =
     bindC LogProvider_GetLogger (\<lambda>lg.
       bindC (getC system_clock) (\<lambda>tp.
         with_context (local_metadata file function line tp) None (\<lambda>ctx.
           Logger_Write lg ctx level message)))"

subsection \<open>Worlds and automatic contexts\<close>

primrec Logger_ok :: "Logger \<Rightarrow> bool" where
  "Logger_ok (ConsoleLogger m min_err) = True"
| "Logger_ok DiscardLogger = True"
| "Logger_ok (StructuredLogger lb fs fm) =
     (Logger_ok lb \<and> (\<forall>h a flds. store_ok h \<longrightarrow> a \<in> dom h \<longrightarrow> fm h a flds \<noteq> None))"

definition world_ok :: "'u world \<Rightarrow> bool" where
  "world_ok w \<longleftrightarrow>
     store_ok (contexts w) \<and> (\<forall>a\<in>dom (contexts w). a < stack_top w) \<and>
     (case log_provider w of None \<Rightarrow> True | Some lg \<Rightarrow> Logger_ok lg)"

lemma to_json_ok: "store_ok h \<Longrightarrow> a \<in> dom h \<Longrightarrow> to_json h a flds \<noteq> None"
  using store_ok_reads [of h a]
  by (auto simp: to_json_def GetFilteredMetadata_def split: option.splits)

lemma world_ok_store: "world_ok w \<Longrightarrow> store_ok (contexts w)"
  by (simp add: world_ok_def)

lemma world_ok_fresh: "world_ok w \<Longrightarrow> stack_top w \<notin> dom (contexts w)"
  by (auto simp: world_ok_def)

lemma world_ok_ThreadLocal: "world_ok w \<Longrightarrow> ThreadLocalContext \<in> dom (contexts w)"
  by (simp add: world_ok_def store_ok_def)

lemma world_ok_console [simp]: "world_ok (w\<lparr>console := out\<rparr>) = world_ok w"
  by (simp add: world_ok_def)

lemma world_ok_app [simp]: "world_ok (w\<lparr>app := u\<rparr>) = world_ok w"
  by (simp add: world_ok_def)

lemma world_ok_clocks [simp]:
  "world_ok (w\<lparr>system_clock := t\<rparr>) = world_ok w" "world_ok (w\<lparr>steady_clock := t\<rparr>) = world_ok w"
  by (simp_all add: world_ok_def)

definition push_context :: "metadata \<Rightarrow> addr option \<Rightarrow> 'u world \<Rightarrow> 'u world" where
  "push_context md parent w =
     w\<lparr>contexts := (contexts w)(stack_top w \<mapsto>
         \<lparr>ctx_metadata = md,
          ctx_parent = Some (case parent of Some p \<Rightarrow> p | None \<Rightarrow> ThreadLocalContext)\<rparr>),
       stack_top := stack_top w + 1\<rparr>"

definition parent_ok :: "'u world \<Rightarrow> addr option \<Rightarrow> bool" where
  "parent_ok w parent \<longleftrightarrow> (case parent of None \<Rightarrow> True | Some p \<Rightarrow> p \<in> dom (contexts w))"

lemma parent_ok_None [simp]: "parent_ok w None"
  by (simp add: parent_ok_def)

lemma world_ok_push_context:
  assumes "world_ok w" and "parent_ok w parent" and "mm_sorted md"
  shows "world_ok (push_context md parent w)"
proof -
  have "case parent of None \<Rightarrow> True | Some p \<Rightarrow> p \<in> dom (contexts w)"
    using assms(2) by (simp add: parent_ok_def)
  with assms have "store_ok (contexts (push_context md parent w))"
    unfolding push_context_def using world_ok_ThreadLocal [OF assms(1)]
    by (auto intro!: store_ok_extend [OF world_ok_store world_ok_fresh] split: option.splits)
  with assms(1) show ?thesis
    by (auto simp: world_ok_def push_context_def intro: less_SucI)
qed

lemma push_context_live: "stack_top w \<in> dom (contexts (push_context md parent w))"
  by (simp add: push_context_def)

lemma with_context_run:
  assumes "world_ok w" and "parent_ok w parent"
  shows "with_context md parent body w =
     (case body (stack_top w) (push_context md parent w) of
        None \<Rightarrow> None
      | Some (r, w') \<Rightarrow> Some (r, pop_context (stack_top w) w'))"
proof -
  have c: "Context_construct (stack_top w) md parent (contexts w) =
      Some (Inr (), contexts (push_context md parent w))"
    using Context_construct_run [of "stack_top w" "contexts w" parent md] assms
    by (simp add: push_context_def parent_ok_def world_ok_fresh world_ok_store)
  show ?thesis
    unfolding with_context_def
    by (simp add: comp_simps on_contexts_def zoomC_def c thenC_def bindC_def modifyC_def cleanupC_def)
      (simp add: push_context_def)
qed

lemma pop_push_context:
  "world_ok w \<Longrightarrow> pop_context (stack_top w) (push_context md parent w) = w"
  using world_ok_fresh [of w]
  by (auto simp: pop_context_def push_context_def fun_upd_idem)

lemma pop_push_console:
  "world_ok w \<Longrightarrow>
   pop_context (stack_top w) (push_context md parent w\<lparr>console := out\<rparr>) = w\<lparr>console := out\<rparr>"
  using world_ok_fresh [of w]
  by (auto simp: pop_context_def push_context_def fun_upd_idem)

subsection \<open>Logging changes nothing but the output\<close>

lemma Logger_write_run:
  "world_ok w \<Longrightarrow> a \<in> dom (contexts w) \<Longrightarrow> Logger_ok lg \<Longrightarrow> LL_trace \<le> level \<Longrightarrow>
   \<exists>out. length out \<le> 1 \<and>
     Logger_write lg a level message w = Some (Inr (), w\<lparr>console := console w @ out\<rparr>)"
proof (induction lg arbitrary: w a message)
  case (ConsoleLogger m min_err)
  show ?case
    by (intro exI [of _ "[(if min_err \<le> level then Cerr else Cout, message)]"])
      (simp add: comp_simps)
next
  case DiscardLogger
  have "Logger_write DiscardLogger a level message w = Some (Inr (), w\<lparr>console := console w @ []\<rparr>)"
    by (simp add: comp_simps)
  then show ?case by (intro exI [of _ "[]"]) simp
next
  case (StructuredLogger lb fs fm)
  from LL_trace_le [OF StructuredLogger.prems(4)] obtain ls
    where ls: "LogLevel_to_string level = Inr ls" by blast
  let ?md = "mm_of_list [(''message'', message), (''level'', ls)]"
  let ?w = "push_context ?md (Some a) w"
  let ?b = "stack_top w"
  have p: "parent_ok w (Some a)" using StructuredLogger.prems by (simp add: parent_ok_def)
  have w': "world_ok ?w" by (rule world_ok_push_context) (use StructuredLogger.prems p in simp_all)
  have b: "?b \<in> dom (contexts ?w)" by (rule push_context_live)
  from StructuredLogger.prems(3) w' b obtain json
    where json: "fm (contexts ?w) ?b (if fs = [] then None else Some fs) = Some json"
    using world_ok_store [OF w'] by (meson Logger_ok.simps(3) not_None_eq)
  obtain out where out: "length out \<le> 1"
      "(if min_log_level lb \<le> level then Logger_write lb ?b level json else ret ()) ?w
        = Some (Inr (), ?w\<lparr>console := console ?w @ out\<rparr>)"
  proof (cases "min_log_level lb \<le> level")
    case True
    then show ?thesis using that StructuredLogger.IH [OF w' b _ StructuredLogger.prems(4), of json]
        StructuredLogger.prems(3) by auto
  next
    case False
    then show ?thesis using that [of "[]"] by (simp add: comp_simps)
  qed
  have c: "console ?w = console w" by (simp add: push_context_def)
  have "Logger_write (StructuredLogger lb fs fm) a level message w
      = Some (Inr (), w\<lparr>console := console w @ out\<rparr>)"
    using StructuredLogger.prems(1) p json out(2) pop_push_console [where w = w and md = ?md and parent = "Some a"]
    by (simp add: comp_simps ls with_context_run c)
  with out(1) show ?case by blast
qed

lemma LL_trace_le_iff: "LL_trace \<le> l \<longleftrightarrow> l \<noteq> LL_invalid"
  by (cases l) (simp_all add: less_eq_LogLevel_def)

lemma Logger_Write_run:
  assumes "world_ok w" and "a \<in> dom (contexts w)" and "Logger_ok lg" and "level \<noteq> LL_invalid"
  shows "\<exists>out. length out \<le> 1 \<and> (level < min_log_level lg \<longrightarrow> out = []) \<and>
     Logger_Write lg a level message w = Some (Inr (), w\<lparr>console := console w @ out\<rparr>)"
proof (cases "min_log_level lg \<le> level")
  case True
  then show ?thesis
    using Logger_write_run [of w a lg level message] assms
    by (auto simp: Logger_Write_def LL_trace_le_iff)
next
  case False
  then show ?thesis by (intro exI [of _ "[]"]) (simp add: Logger_Write_def comp_simps)
qed

abbreviation provided_logger :: "'u world \<Rightarrow> Logger" where
  "provided_logger w \<equiv> (case log_provider w of Some lg \<Rightarrow> lg | None \<Rightarrow> DiscardLogger)"

lemma mse_log_run:
  assumes "world_ok w" and "level \<noteq> LL_invalid"
  shows "\<exists>out. length out \<le> 1 \<and> (level < min_log_level (provided_logger w) \<longrightarrow> out = []) \<and>
     mse_log file function line level message w = Some (Inr (), w\<lparr>console := console w @ out\<rparr>)"
proof -
  let ?md = "local_metadata file function line (system_clock w)"
  let ?w = "push_context ?md None w"
  have w': "world_ok ?w"
    by (rule world_ok_push_context [OF assms(1)]) (simp_all add: local_metadata_def)
  have lg: "Logger_ok (provided_logger w)"
    using assms(1) by (auto simp: world_ok_def split: option.splits)
  from Logger_Write_run [OF w' push_context_live lg assms(2)] obtain out
    where out: "length out \<le> 1" "level < min_log_level (provided_logger w) \<longrightarrow> out = []"
      "Logger_Write (provided_logger w) (stack_top w) level message ?w
        = Some (Inr (), ?w\<lparr>console := console ?w @ out\<rparr>)" by blast
  have c: "console ?w = console w" by (simp add: push_context_def)
  have "mse_log file function line level message w = Some (Inr (), w\<lparr>console := console w @ out\<rparr>)"
    using out(3) assms(1)
    by (simp add: mse_log_def LogProvider_GetLogger_def comp_simps with_context_run c pop_push_console)
  with out(1,2) show ?thesis by blast
qed

text \<open>Without a registered logger the \<open>DiscardLogger\<close> is used, and logging does nothing.\<close>

lemma mse_log_silent [comp_simps]:
  assumes "world_ok w" and "log_provider w = None"
  shows "mse_log file function line level message w = Some (Inr (), w)"
  using assms
  by (simp add: mse_log_def LogProvider_GetLogger_def comp_simps with_context_run Logger_Write_def
      pop_push_context)

subsection \<open>Reading the JSON text back\<close>

text \<open>
  The specification side of the format: a reader for flat JSON objects of strings as the JSON
  grammar (RFC 8259) defines them, for the two-character escapes: inside a string it refuses the
  control characters below U+0020.
\<close>

definition control_char :: "char \<Rightarrow> bool" where
  "control_char c \<longleftrightarrow> (of_char c :: nat) < 32"

definition unescape_dict :: "(char \<times> char) list" where
  "unescape_dict =
     [(CHR ''b'', CHR 0x08), (CHR ''f'', CHR 0x0C), (CHR ''n'', CHR 0x0A), (CHR ''r'', CHR 0x0D),
      (CHR ''t'', CHR 0x09), (CHR 0x22, CHR 0x22), (CHR 0x5C, CHR 0x5C), (CHR ''/'', CHR ''/'')]"

fun read_json_string :: "string \<Rightarrow> (string \<times> string) option" where
  "read_json_string [] = None"
| "read_json_string (c # cs) =
     (if c = CHR 0x22 then Some ([], cs)
      else if c = CHR 0x5C then
        (case cs of
           [] \<Rightarrow> None
         | e # cs' \<Rightarrow>
             (case map_of unescape_dict e of
                None \<Rightarrow> None
              | Some u \<Rightarrow> map_option (\<lambda>(s, r). (u # s, r)) (read_json_string cs')))
      else if control_char c then None
      else map_option (\<lambda>(s, r). (c # s, r)) (read_json_string cs))"

definition expect :: "string \<Rightarrow> string \<Rightarrow> string option" where
  "expect pre cs = (if take (length pre) cs = pre then Some (drop (length pre) cs) else None)"

definition read_json_member :: "string \<Rightarrow> ((string \<times> string) \<times> string) option" where
  "read_json_member cs =
     Option.bind (expect [CHR 0x22] cs) (\<lambda>cs.
     Option.bind (read_json_string cs) (\<lambda>(k, cs).
     Option.bind (expect [CHR '':'', CHR 0x22] cs) (\<lambda>cs.
     Option.bind (read_json_string cs) (\<lambda>(v, cs). Some ((k, v), cs)))))"

fun read_json_members :: "nat \<Rightarrow> string \<Rightarrow> metadata option" where
  "read_json_members 0 cs = None"
| "read_json_members (Suc n) cs =
     (if cs = [CHR 0x7D] then Some []
      else Option.bind (expect '','' cs) (\<lambda>cs.
           Option.bind (read_json_member cs) (\<lambda>(kv, cs).
             map_option (\<lambda>kvs. kv # kvs) (read_json_members n cs))))"

definition read_json_object :: "string \<Rightarrow> metadata option" where
  "read_json_object cs =
     (if cs = [CHR 0x7B, CHR 0x7D] then Some []
      else Option.bind (expect [CHR 0x7B] cs) (\<lambda>cs.
           Option.bind (read_json_member cs) (\<lambda>(kv, cs).
             map_option (\<lambda>kvs. kv # kvs) (read_json_members (length cs) cs))))"

lemma expect_append [simp]: "expect pre (pre @ cs) = Some cs"
  by (simp add: expect_def)

lemma escape_dict_cases:
  assumes "map_of escape_dict c = Some r"
  obtains e where "r = [CHR 0x5C, e]" "map_of unescape_dict e = Some c"
proof -
  have "list_all (\<lambda>(c, r). \<exists>e\<in>fst ` set unescape_dict. r = [CHR 0x5C, e] \<and> map_of unescape_dict e = Some c)
      escape_dict"
    by (simp add: escape_dict_def unescape_dict_def)
  with map_of_SomeD [OF assms] that show ?thesis by (fastforce simp: list_all_iff)
qed

text \<open>The strings that have a text: of the control characters only those with a short escape.\<close>

definition json_char :: "char \<Rightarrow> bool" where
  "json_char c \<longleftrightarrow> \<not> control_char c \<or> c \<in> {CHR 0x08, CHR 0x09, CHR 0x0A, CHR 0x0C, CHR 0x0D}"

definition json_pair :: "string \<times> string \<Rightarrow> bool" where
  "json_pair kv \<longleftrightarrow> list_all json_char (fst kv) \<and> list_all json_char (snd kv)"

lemma escape_dict_plain:
  "map_of escape_dict c = None \<Longrightarrow> c \<noteq> CHR 0x22 \<and> c \<noteq> CHR 0x5C \<and> (control_char c \<longleftrightarrow> \<not> json_char c)"
  by (auto simp: escape_dict_def json_char_def split: if_splits)

lemma escape_dict_json_char:
  assumes "map_of escape_dict c = Some r"
  shows "json_char c"
proof -
  have "list_all (\<lambda>(c, r). json_char c) escape_dict"
    by (simp add: escape_dict_def json_char_def control_char_def)
  with map_of_SomeD [OF assms] show ?thesis by (auto simp: list_all_iff)
qed

lemma read_json_string_escape:
  "read_json_string (json_escape s @ CHR 0x22 # rest) = (if list_all json_char s then Some (s, rest) else None)"
proof (induction s)
  case (Cons c cs)
  show ?case
  proof (cases "map_of escape_dict c")
    case None
    with Cons escape_dict_plain [OF None] show ?thesis by simp
  next
    case (Some r)
    then obtain e where "r = [CHR 0x5C, e]" "map_of unescape_dict e = Some c"
      by (rule escape_dict_cases)
    with Some Cons escape_dict_json_char [OF Some] show ?thesis by simp
  qed
qed simp

lemma read_json_member_print:
  "read_json_member (json_member kv @ rest) = (if json_pair kv then Some (kv, rest) else None)"
proof -
  let ?rest = "[CHR '':'', CHR 0x22] @ json_escape (snd kv) @ CHR 0x22 # rest"
  have "expect [CHR 0x22] (json_member kv @ rest) = Some (json_escape (fst kv) @ CHR 0x22 # ?rest)"
    using expect_append [of "[CHR 0x22]"] by (simp add: json_member_def)
  moreover have "expect [CHR '':'', CHR 0x22] ?rest = Some (json_escape (snd kv) @ CHR 0x22 # rest)"
    by (rule expect_append)
  ultimately show ?thesis
    by (simp only: read_json_member_def read_json_string_escape json_pair_def Option.bind.bind_lunit Option.bind.bind_lzero
        prod.case prod.collapse if_distrib split: if_split) simp
qed

lemma length_json_member: "0 < length (json_member kv)"
  by (simp add: json_member_def)

lemma read_json_members_print:
  "length (json_members False kvs) < n \<Longrightarrow>
   read_json_members n (json_members False kvs @ [CHR 0x7D]) = (if list_all json_pair kvs then Some kvs else None)"
proof (induction kvs arbitrary: n)
  case Nil
  then show ?case by (cases n) simp_all
next
  case (Cons kv kvs)
  then obtain m where n: "n = Suc m" by (cases n) simp_all
  let ?rest = "json_members False kvs @ [CHR 0x7D]"
  have "read_json_members m ?rest = (if list_all json_pair kvs then Some kvs else None)"
    using Cons.prems n by (intro Cons.IH) simp
  moreover have "expect '','' ('','' @ json_member kv @ ?rest) = Some (json_member kv @ ?rest)"
    by (rule expect_append)
  moreover have "json_members False (kv # kvs) @ [CHR 0x7D] = '','' @ json_member kv @ ?rest"
    by simp
  ultimately show ?case
    unfolding n by (simp only: read_json_members.simps read_json_member_print Option.bind.bind_lunit) simp
qed

subsection \<open>Properties\<close>

definition initial_world :: "'u \<Rightarrow> 'u world" where
  "initial_world u =
     \<lparr>contexts = initial_contexts, stack_top = 2, log_provider = None, console = [],
      system_clock = 0, steady_clock = 0, app = u\<rparr>"

lemma initial_world_sel [simp]:
  "contexts (initial_world u) = initial_contexts" "log_provider (initial_world u) = None"
  "console (initial_world u) = []" "app (initial_world u) = u" "stack_top (initial_world u) = 2"
  by (simp_all add: initial_world_def)

lemma world_ok_initial [simp]: "world_ok (initial_world u)"
  by (auto simp: world_ok_def store_ok_initial)
    (simp add: initial_contexts_def GlobalContext_def ThreadLocalContext_def split: if_splits)

text \<open>
  Claim C20: the JSON text of a context's metadata and a reader that follows the JSON grammar. The
  reader gets back the same keys and values, in the same order, whatever quotes, backslashes,
  separators or line breaks they contain, so no value of a log record can forge another; and it
  refuses the text exactly when some key or value has a control character other than backspace,
  tab, line feed, form feed and carriage return, which the logger leaves as they are.
\<close>

theorem json_object_roundtrip:
  "read_json_object (json_object md) = (if list_all json_pair md then Some md else None)"
proof (cases md)
  case Nil
  then show ?thesis by (simp add: read_json_object_def json_object_def)
next
  case (Cons kv kvs)
  let ?rest = "json_members False kvs @ [CHR 0x7D]"
  have printed: "json_object (kv # kvs) = [CHR 0x7B] @ json_member kv @ ?rest"
    by (simp add: json_object_def)
  have ne: "json_object (kv # kvs) \<noteq> [CHR 0x7B, CHR 0x7D]"
    by (simp add: printed json_member_def)
  have "read_json_members (length ?rest) ?rest = (if list_all json_pair kvs then Some kvs else None)"
    by (rule read_json_members_print) simp
  moreover have "expect [CHR 0x7B] ([CHR 0x7B] @ json_member kv @ ?rest) = Some (json_member kv @ ?rest)"
    by (rule expect_append)
  ultimately show ?thesis
    unfolding Cons read_json_object_def if_not_P [OF ne]
    by (simp only: printed Option.bind.bind_lunit read_json_member_print) simp
qed

theorem json_object_roundtrip_witness:
  "read_json_object (json_object [(''message'', [CHR 0x22, CHR 0x0A, CHR 0x5C]), (''user'', ''a'')])
     = Some [(''message'', [CHR 0x22, CHR 0x0A, CHR 0x5C]), (''user'', ''a'')] \<and>
   read_json_object (json_object [(''message'', [CHR 0x1B])]) = None"
  unfolding json_object_roundtrip by (simp add: json_pair_def json_char_def control_char_def)

text \<open>
  A log statement is transparent. With any of the library's loggers registered, or
  none, it returns normally, leaves contexts, stack, clocks, logger and application state
  as they were, and appends at most one line to the standard streams; none when its level is
  below the minimum of the registered logger.
\<close>

theorem mse_log_transparent:
  assumes "world_ok w" and "level \<noteq> LL_invalid"
  shows "\<exists>out. mse_log file function line level message w = Some (Inr (), w\<lparr>console := console w @ out\<rparr>)
     \<and> length out \<le> 1 \<and> (level < min_log_level (provided_logger w) \<longrightarrow> out = [])"
  using mse_log_run [OF assms] by blast

theorem mse_log_transparent_witness:
  "\<exists>out. mse_log ''core.cpp'' ''main'' 7 LL_info ''ready''
        ((initial_world ())\<lparr>log_provider := Some (StructuredLogger (ConsoleLogger LL_info LL_err) default_fields to_json)\<rparr>)
      = Some (Inr (), (initial_world ())\<lparr>log_provider := Some (StructuredLogger (ConsoleLogger LL_info LL_err) default_fields to_json),
           console := out\<rparr>) \<and> length out \<le> 1"
proof -
  let ?lg = "StructuredLogger (ConsoleLogger LL_info LL_err) default_fields to_json"
  let ?w = "(initial_world ())\<lparr>log_provider := Some ?lg\<rparr>"
  have "world_ok ?w"
    using world_ok_initial [of "()"] to_json_ok by (auto simp: world_ok_def)
  from mse_log_transparent [OF this, of LL_info "''core.cpp''" "''main''" 7 "''ready''"]
  show ?thesis by auto
qed

end
