(* ===== verification/Mse_Stack.thy ===== *)
theory Mse_Stack
  imports Mse_Logger
begin

text \<open>
  The stack discipline of context objects. Contexts are automatic objects: those alive are
  the static ones and the ones between the bottom and the top of the stack, and a parent is
  older than its children. Code that respects the discipline may push a context, run with it
  and pop it again on every exit, without a dangling parent pointer.
\<close>

definition stack_ok :: "nat \<Rightarrow> 'u world \<Rightarrow> bool" where
  "stack_ok n w \<longleftrightarrow>
     stack_top w = n \<and> ThreadLocalContext < n \<and> dom (contexts w) = {..<n} \<and>
     (\<forall>a c. contexts w a = Some c \<longrightarrow>
        mm_sorted (ctx_metadata c) \<and> (case ctx_parent c of None \<Rightarrow> True | Some p \<Rightarrow> p < a)) \<and>
     (case log_provider w of None \<Rightarrow> True | Some lg \<Rightarrow> Logger_ok lg)"

lemma stack_ok_top: "stack_ok n w \<Longrightarrow> stack_top w = n"
  by (simp add: stack_ok_def)

lemma stack_ok_dom: "stack_ok n w \<Longrightarrow> dom (contexts w) = {..<n}"
  by (simp add: stack_ok_def)

lemma stack_ok_live: "stack_ok n w \<Longrightarrow> a < n \<Longrightarrow> a \<in> dom (contexts w)"
  by (simp add: stack_ok_def)

lemma stack_ok_parent: "stack_ok n w \<Longrightarrow> a < n \<Longrightarrow> parent_ok w (Some a)"
  by (auto simp: parent_ok_def dest: stack_ok_live)

lemma stack_ok_ThreadLocal: "stack_ok n w \<Longrightarrow> ThreadLocalContext < n"
  by (simp add: stack_ok_def)

lemma stack_ok_rooted:
  assumes "stack_ok n w" and "a < n"
  shows "rooted (contexts w) a"
  using assms(2)
proof (induction a rule: less_induct)
  case (less a)
  with assms(1) obtain c where c: "contexts w a = Some c"
    "case ctx_parent c of None \<Rightarrow> True | Some p \<Rightarrow> p < a"
    unfolding stack_ok_def by blast
  show ?case
  proof (cases "ctx_parent c")
    case None
    with c(1) show ?thesis by (rule rooted.root)
  next
    case (Some p)
    with c(2) less have "rooted (contexts w) p" by simp
    with c(1) Some show ?thesis by (rule rooted.link)
  qed
qed

lemma stack_ok_store: 
  assumes "stack_ok n w"
  shows "store_ok (contexts w)"
proof -
  have d: "dom (contexts w) = {..<n}" and t: "ThreadLocalContext < n"
    and e: "\<And>a c. contexts w a = Some c \<Longrightarrow>
      mm_sorted (ctx_metadata c) \<and> (case ctx_parent c of None \<Rightarrow> True | Some p \<Rightarrow> p < a)"
    using assms unfolding stack_ok_def by blast+
  have g: "GlobalContext < n" using t by (simp add: GlobalContext_def ThreadLocalContext_def)
  with d obtain c where c: "contexts w GlobalContext = Some c" by blast
  with e [OF c] have "ctx_parent c = None" by (simp add: GlobalContext_def split: option.splits)
  with c d t e stack_ok_rooted [OF assms] show ?thesis unfolding store_ok_def by blast
qed

lemma stack_ok_world: "stack_ok n w \<Longrightarrow> world_ok w"
  using stack_ok_store [of n w] by (auto simp: world_ok_def) (auto simp: stack_ok_def)

lemma stack_ok_initial [simp]: "stack_ok 2 (initial_world u)"
  unfolding stack_ok_def
  by (auto simp: initial_contexts_def GlobalContext_def ThreadLocalContext_def split: if_splits)

lemma stack_ok_console [simp]: "stack_ok n (w\<lparr>console := out\<rparr>) = stack_ok n w"
  by (simp add: stack_ok_def)

lemma stack_ok_app [simp]: "stack_ok n (w\<lparr>app := u\<rparr>) = stack_ok n w"
  by (simp add: stack_ok_def)

lemma stack_ok_clocks [simp]:
  "stack_ok n (w\<lparr>system_clock := t\<rparr>) = stack_ok n w" "stack_ok n (w\<lparr>steady_clock := t\<rparr>) = stack_ok n w"
  by (simp_all add: stack_ok_def)

text \<open>What code can see of a state, its contexts and the system clock apart.\<close>

definition app_clock :: "'u world \<Rightarrow> 'u \<times> int" where
  "app_clock w = (app w, steady_clock w)"

lemma app_clock_frame [simp]:
  "app_clock (w\<lparr>console := out\<rparr>) = app_clock w" "app_clock (w\<lparr>contexts := h\<rparr>) = app_clock w"
  "app_clock (w\<lparr>stack_top := n\<rparr>) = app_clock w" "app_clock (push_context md parent w) = app_clock w"
  "app_clock (pop_context a w) = app_clock w"
  by (simp_all add: app_clock_def push_context_def pop_context_def)

lemma app_of_app_clock: "app_clock w = (u, t) \<Longrightarrow> app w = u"
  by (simp add: app_clock_def)

lemma stack_ok_push:
  assumes "stack_ok n w" and "case parent of None \<Rightarrow> True | Some p \<Rightarrow> p < n" and "mm_sorted md"
  shows "stack_ok (Suc n) (push_context md parent w)"
  using assms unfolding stack_ok_def push_context_def
  by (auto split: option.splits if_splits)

lemma stack_ok_pop:
  assumes "stack_ok (Suc n) w" and "ThreadLocalContext < n"
  shows "stack_ok n (pop_context n w)"
  using assms unfolding stack_ok_def pop_context_def by auto

lemma keeps_with_context:
  assumes "keeps (stack_ok (Suc n)) (body n)"
    and "case parent of None \<Rightarrow> True | Some p \<Rightarrow> p < n" and "mm_sorted md"
  shows "keeps (stack_ok n) (with_context md parent body)"
proof (rule keepsI)
  fix w r w' assume w: "stack_ok n w" and run: "with_context md parent body w = Some (r, w')"
  have "parent_ok w parent"
    using assms(2) stack_ok_live [OF w] by (auto simp: parent_ok_def split: option.splits)
  from run with_context_run [OF stack_ok_world [OF w] this, of md body] stack_ok_top [OF w]
  obtain w1 where b: "body n (push_context md parent w) = Some (r, w1)" and w': "w' = pop_context n w1"
    by (auto split: option.splits)
  have "stack_ok (Suc n) w1"
    by (rule keepsD [OF assms(1), OF b stack_ok_push [OF w assms(2,3)]])
  then show "stack_ok n w'" unfolding w' using stack_ok_ThreadLocal [OF w] by (rule stack_ok_pop)
qed

lemma keeps_mse_log:
  assumes "level \<noteq> LL_invalid"
  shows "keeps (stack_ok n) (mse_log file place line level message)"
proof (rule keepsI)
  fix w r w' assume w: "stack_ok n w" and run: "mse_log file place line level message w = Some (r, w')"
  have "\<exists>out. mse_log file place line level message w = Some (Inr (), w\<lparr>console := console w @ out\<rparr>)"
    using mse_log_run [OF stack_ok_world [OF w] assms] by blast
  with w run show "stack_ok n w'" by auto
qed

text \<open>A computation that changes the state of the application and the clocks only.\<close>

lemma keeps_modify_app [intro]: "keeps (stack_ok n) (modifyC (\<lambda>w. w\<lparr>app := f w\<rparr>))"
  by (rule keepsI) (auto simp: modifyC_def)

text \<open>\<open>Logger::Write(level, message)\<close> on the provided logger: at most one more line of output.\<close>

lemma Logger_Write_level_run:
  assumes "stack_ok n w" and "level \<noteq> LL_invalid"
  obtains out where "bindC LogProvider_GetLogger (\<lambda>lg. Logger_Write_level lg level message) w
      = Some (Inr (), w\<lparr>console := console w @ out\<rparr>)"
    "length out \<le> 1" "level < min_log_level (provided_logger w) \<longrightarrow> out = []"
proof -
  have ok: "world_ok w" by (rule stack_ok_world [OF assms(1)])
  let ?w = "push_context [] None w"
  have w': "world_ok ?w" by (rule world_ok_push_context [OF ok]) (simp_all add: mm_sorted_def)
  have lg: "Logger_ok (provided_logger w)"
    using ok by (auto simp: world_ok_def split: option.splits)
  from Logger_Write_run [OF w' push_context_live lg assms(2)] obtain out
    where out: "length out \<le> 1" "level < min_log_level (provided_logger w) \<longrightarrow> out = []"
      "Logger_Write (provided_logger w) (stack_top w) level message ?w
        = Some (Inr (), ?w\<lparr>console := console ?w @ out\<rparr>)" by blast
  have c: "console ?w = console w" by (simp add: push_context_def)
  have "bindC LogProvider_GetLogger (\<lambda>lg. Logger_Write_level lg level message) w
      = Some (Inr (), w\<lparr>console := console w @ out\<rparr>)"
    using out(3) ok
    by (simp add: Logger_Write_level_def LogProvider_GetLogger_def comp_simps with_context_run c
        pop_push_console)
  with out(1,2) that show ?thesis by blast
qed

subsection \<open>Operations on a live context\<close>

lemma on_contexts_Some [comp_simps]:
  "m (contexts w) = Some (r, h) \<Longrightarrow> on_contexts m w = Some (r, w\<lparr>contexts := h\<rparr>)"
  by (simp add: on_contexts_def zoomC_def)

text \<open>Changes of the metadata of one context: what the operations of a hook on its context do.\<close>

definition set_metadata :: "addr \<Rightarrow> metadata \<Rightarrow> 'u world \<Rightarrow> 'u world" where
  "set_metadata a md w = w\<lparr>contexts := (contexts w)(a := map_option (\<lambda>c. c\<lparr>ctx_metadata := md\<rparr>) (contexts w a))\<rparr>"

definition metadata_of :: "addr \<Rightarrow> 'u world \<Rightarrow> metadata" where
  "metadata_of a w = (case contexts w a of None \<Rightarrow> [] | Some c \<Rightarrow> ctx_metadata c)"

lemma set_metadata_frame [simp]:
  "app (set_metadata a md w) = app w" "console (set_metadata a md w) = console w"
  "log_provider (set_metadata a md w) = log_provider w" "stack_top (set_metadata a md w) = stack_top w"
  "system_clock (set_metadata a md w) = system_clock w" "steady_clock (set_metadata a md w) = steady_clock w"
  "b \<noteq> a \<Longrightarrow> contexts (set_metadata a md w) b = contexts w b"
  "dom (contexts (set_metadata a md w)) = dom (contexts w)"
  by (auto simp: set_metadata_def split: if_splits)

lemma app_clock_set_metadata [simp]: "app_clock (set_metadata a md w) = app_clock w"
  by (simp add: app_clock_def)

lemma set_metadata_twice [simp]: "set_metadata a md (set_metadata a md' w) = set_metadata a md w"
  by (simp add: set_metadata_def option.map_comp comp_def)

lemma metadata_of_set [simp]:
  "contexts w a \<noteq> None \<Longrightarrow> metadata_of a (set_metadata a md w) = md"
  by (auto simp: metadata_of_def set_metadata_def)

lemma set_metadata_live [simp]: "contexts (set_metadata a md w) a = None \<longleftrightarrow> contexts w a = None"
  by (simp add: set_metadata_def)

lemma stack_ok_set_metadata [simp]: "stack_ok n w \<Longrightarrow> mm_sorted md \<Longrightarrow> stack_ok n (set_metadata a md w)"
  unfolding stack_ok_def set_metadata_def by (auto split: if_splits)

lemma stack_ok_metadata_of: "stack_ok n w \<Longrightarrow> mm_sorted (metadata_of a w)"
  unfolding stack_ok_def metadata_of_def by (auto split: option.split)

lemma Context_Erase_run:
  "contexts w a \<noteq> None \<Longrightarrow> on_contexts (Context_Erase a k) w
     = Some (Inr (mm_count k (metadata_of a w)), set_metadata a (mm_erase k (metadata_of a w)) w)"
  by (auto simp: Context_Erase_def load_context_def update_context_def on_contexts_def zoomC_def
      set_metadata_def metadata_of_def bindC_def thenC_def readC_def ret_def)

lemma Context_Insert_run:
  "contexts w a \<noteq> None \<Longrightarrow> on_contexts (Context_Insert a k v) w
     = Some (Inr (), set_metadata a (mm_insert (k, v) (metadata_of a w)) w)"
  by (auto simp: Context_Insert_def update_context_def on_contexts_def zoomC_def set_metadata_def metadata_of_def)

lemma bindC_readC: "f w = Some (Inr x) \<Longrightarrow> bindC (readC f) k w = k x w"
  by (simp add: bindC_def readC_def)

lemma bindC_readC_map: "f w = Some x \<Longrightarrow> bindC (readC (\<lambda>w. map_option Inr (f w))) k w = k x w"
  by (simp add: bindC_def readC_def)

text \<open>A lookup: the context's own entry first, then its parents'.\<close>

lemma Context_At_own:
  "contexts w a \<noteq> None \<Longrightarrow> mm_find k (metadata_of a w) = Some v \<Longrightarrow> Context_At (contexts w) a k = Some (Inr v)"
  by (auto simp: Context_At.simps [of _ a] metadata_of_def)

lemma Context_Contains_own:
  "contexts w a \<noteq> None \<Longrightarrow> mm_find k (metadata_of a w) = Some v \<Longrightarrow> Context_Contains (contexts w) a k = Some True"
  by (auto simp: Context_Contains.simps [of _ a] metadata_of_def)

end
