(* ===== verification/Mse_Request_Hook.thy ===== *)
theory Mse_Request_Hook
  imports Mse_Stack
begin

text \<open>
  \<open>request/request-type\<close>, \<open>request-hook\<close> and \<open>request-hook-factory\<close>: what a hook is, the
  default protocol of a hook around a request (\<open>RequestHook::Process\<close>), and the factory that
  makes hooks from parameter objects. A hook object is its name, the request type that was
  set on it and its virtual \<open>Process\<close>; the functions it wraps are computations that take the
  address of the context.
\<close>

subsection \<open>Request types\<close>

datatype RequestType = RT_invalid | RT_incoming | RT_outgoing

fun request_type_id :: "RequestType \<Rightarrow> int" where
  "request_type_id RT_invalid = -1"
| "request_type_id RT_incoming = 0"
| "request_type_id RT_outgoing = 1"

fun RequestType_to_string :: "RequestType \<Rightarrow> exn + string" where
  "RequestType_to_string RT_incoming = Inr ''INCOMING''"
| "RequestType_to_string RT_outgoing = Inr ''OUTGOING''"
| "RequestType_to_string RT_invalid =
     Inl (InvalidArgument (''invalid request type with id '' @ show_int (request_type_id RT_invalid)))"

definition RequestType_mapping :: "(string \<times> RequestType) list" where
  "RequestType_mapping = [(''INCOMING'', RT_incoming), (''OUTGOING'', RT_outgoing)]"

definition RequestType_from_string :: "string \<Rightarrow> RequestType" where
  "RequestType_from_string s =
     (case map_of RequestType_mapping s of Some t \<Rightarrow> t | None \<Rightarrow> RT_invalid)"

definition RequestType_extract :: "string \<Rightarrow> (bool \<times> RequestType) \<times> string" where
  "RequestType_extract s =
     (let (w, r) = (case extract_word s of Some (w, r) \<Rightarrow> (w, r) | None \<Rightarrow> ([], []));
          t = RequestType_from_string w
      in ((t \<noteq> RT_invalid, t), r))"

definition RequestType_insert :: "string \<Rightarrow> RequestType \<Rightarrow> exn + string" where
  "RequestType_insert os t = (case RequestType_to_string t of Inl e \<Rightarrow> Inl e | Inr s \<Rightarrow> Inr (os @ s))"

subsection \<open>The hook protocol\<close>

type_synonym 'u func = "addr \<Rightarrow> ('u world, Status) comp"

definition hook_log :: "int \<Rightarrow> string \<Rightarrow> ('u world, unit) comp" where
  "hook_log line message = mse_log ''request-hook.cpp'' ''Process'' line LL_trace message"

text \<open>A log statement whose text prints a status: printing \<open>invalid\<close> throws.\<close>

definition log_status :: "int \<Rightarrow> string \<Rightarrow> Status \<Rightarrow> ('u world, unit) comp" where
  "log_status line prefix s =
     bindC (liftE (StatusCode_to_string (code s))) (\<lambda>c.
       hook_log line (prefix @ c @ '' ('' @ details s @ '')''))"

definition RequestHook_recover ::
    "string \<Rightarrow> (addr \<Rightarrow> Status \<Rightarrow> ('u world, Status) comp) \<Rightarrow> addr \<Rightarrow> exn \<Rightarrow> ('u world, Status) comp" where
  "RequestHook_recover name post ctx e =
     thenC (if caught_as T_exception e
            then hook_log 33 (''postprocessing by '' @ name @ '' during exception: '' @ what e)
            else hook_log 44 (''postprocessing by '' @ name @ '' during unknown exception''))
     (bindC (post ctx (Status_of SC_invalid ''exception during request'')) (\<lambda>status.
        if code status = SC_invalid then throw e
        else thenC (hook_log (if caught_as T_exception e then 39 else 50)
                      (''completely processed by '' @ name @ ''after recovering from exception''))
                   (ret status)))"

definition RequestHook_complete ::
    "string \<Rightarrow> (addr \<Rightarrow> Status \<Rightarrow> ('u world, Status) comp) \<Rightarrow> addr \<Rightarrow> Status \<Rightarrow> ('u world, Status) comp" where
  "RequestHook_complete name post ctx status =
     thenC (if succeeded status then ret () else log_status 56 ''processing failed with status '' status)
     (thenC (hook_log 59 (''postprocessing by '' @ name))
     (bindC (post ctx status) (\<lambda>status.
        thenC (if succeeded status then ret ()
               else log_status 63 ''postprocessing failed with status '' status)
        (thenC (hook_log 67 (''completely processed by '' @ name))
               (ret status)))))"

definition RequestHook_Process ::
    "string \<Rightarrow> (addr \<Rightarrow> ('u world, Status) comp) \<Rightarrow> (addr \<Rightarrow> Status \<Rightarrow> ('u world, Status) comp) \<Rightarrow>
     'u func \<Rightarrow> 'u func" where
  "RequestHook_Process name pre post func ctx =
     thenC (hook_log 16 (''preprocessing by '' @ name))
     (bindC (pre ctx) (\<lambda>s.
        if \<not> succeeded s then
          thenC (log_status 20 ''preprocessing failed with status '' s) (ret s)
        else
          thenC (hook_log 24 (''processing by '' @ name))
          (bindC (tryC (func ctx)) (\<lambda>result.
             case result of
               Inl e \<Rightarrow> RequestHook_recover name post ctx e
             | Inr status \<Rightarrow> RequestHook_complete name post ctx status))))"

definition default_pre_process :: "addr \<Rightarrow> ('u world, Status) comp" where
  "default_pre_process ctx = ret Status_OK"

definition default_post_process :: "addr \<Rightarrow> Status \<Rightarrow> ('u world, Status) comp" where
  "default_post_process ctx status = ret status"

record 'u hook =
  hook_name :: string
  hook_type :: RequestType
  hook_run :: "RequestType \<Rightarrow> 'u func \<Rightarrow> 'u func"

definition hook_Process :: "'u hook \<Rightarrow> 'u func \<Rightarrow> 'u func" where
  "hook_Process h = hook_run h (hook_type h)"

definition SetRequestType :: "RequestType \<Rightarrow> 'u hook \<Rightarrow> 'u hook" where
  "SetRequestType t h = h\<lparr>hook_type := t\<rparr>"

text \<open>A class that overrides \<open>pre_process\<close> and \<open>post_process\<close> only, and one that overrides \<open>Process\<close>.\<close>

definition protocol_hook ::
    "string \<Rightarrow> (RequestType \<Rightarrow> addr \<Rightarrow> ('u world, Status) comp) \<Rightarrow>
     (RequestType \<Rightarrow> addr \<Rightarrow> Status \<Rightarrow> ('u world, Status) comp) \<Rightarrow> 'u hook" where
  "protocol_hook name pre post =
     \<lparr>hook_name = name, hook_type = RT_invalid,
      hook_run = (\<lambda>t. RequestHook_Process name (pre t) (post t))\<rparr>"

definition process_hook :: "string \<Rightarrow> ('u func \<Rightarrow> 'u func) \<Rightarrow> 'u hook" where
  "process_hook name run = \<lparr>hook_name = name, hook_type = RT_invalid, hook_run = (\<lambda>t. run)\<rparr>"

lemma hook_Process_protocol [simp]:
  "hook_Process (SetRequestType t (protocol_hook name pre post)) =
     RequestHook_Process name (pre t) (post t)"
  by (simp add: hook_Process_def SetRequestType_def protocol_hook_def)

lemma hook_Process_process [simp]:
  "hook_Process (SetRequestType t (process_hook name run)) = run"
  by (simp add: hook_Process_def SetRequestType_def process_hook_def)

subsection \<open>The factory\<close>

type_synonym ('p, 'u) factory_method = "'p any \<Rightarrow> exn + 'u hook"

type_synonym ('p, 'u) factory = "string \<rightharpoonup> ('p, 'u) factory_method"

definition RequestHookFactory_Register ::
    "string \<Rightarrow> ('p, 'u) factory_method \<Rightarrow> (('p, 'u) factory, unit) comp" where
  "RequestHookFactory_Register param_type m =
     bindC (getC (\<lambda>f. f param_type)) (\<lambda>old.
       if old \<noteq> None then throw (InvalidArgument ''typeid already exists'')
       else modifyC (\<lambda>f. f(param_type \<mapsto> m)))"

definition RequestHookFactory_Create :: "('p, 'u) factory \<Rightarrow> 'p any \<Rightarrow> exn + 'u hook" where
  "RequestHookFactory_Create f params =
     (case f (any_type params) of
        None \<Rightarrow> Inl (OutOfRange ''cannot create request hook. Unknown typeid.'')
      | Some m \<Rightarrow> m params)"

definition RequestHookFactory_Clear :: "(('p, 'u) factory, unit) comp" where
  "RequestHookFactory_Clear = modifyC (\<lambda>f. Map.empty)"

text \<open>
  \<open>AutoRequestHookParameterRegistration\<close>: its static flag per parameter type (the set of types
  done) and its \<open>Create\<close>, for a hook class with constructor \<open>mk\<close>. A throwing registration
  leaves the flag unset.
\<close>

definition auto_Create :: "string \<Rightarrow> ('p \<Rightarrow> 'u hook) \<Rightarrow> ('p, 'u) factory_method" where
  "auto_Create param_type mk params =
     (case any_cast param_type params of Inl e \<Rightarrow> Inl e | Inr p \<Rightarrow> Inr (mk p))"

definition auto_registration ::
    "string \<Rightarrow> ('p \<Rightarrow> 'u hook) \<Rightarrow> (string set \<times> ('p, 'u) factory, unit) comp" where
  "auto_registration param_type mk =
     bindC (getC fst) (\<lambda>registration_done.
       if param_type \<in> registration_done then ret ()
       else thenC (zoomC snd (\<lambda>f (d, _). (d, f))
                     (RequestHookFactory_Register param_type (auto_Create param_type mk)))
                  (modifyC (\<lambda>(d, f). (insert param_type d, f))))"

subsection \<open>The protocol without its log output\<close>

definition invalid_status_exn :: exn where
  "invalid_status_exn = InvalidArgument (''invalid status code with id '' @ show_int (-1))"

definition require_valid :: "Status \<Rightarrow> ('u world, Status) comp" where
  "require_valid s = (if code s = SC_invalid then throw invalid_status_exn else ret s)"

text \<open>
  What \<open>RequestHook::Process\<close> promises: the request runs only when \<open>pre_process\<close> succeeds,
  \<open>post_process\<close> sees its status, or the \<open>invalid\<close> placeholder when it threw, and may turn an
  exception into a status; and a status whose code is \<open>invalid\<close> never leaves it.
\<close>

definition hook_protocol ::
    "(addr \<Rightarrow> ('u world, Status) comp) \<Rightarrow> (addr \<Rightarrow> Status \<Rightarrow> ('u world, Status) comp) \<Rightarrow>
     'u func \<Rightarrow> 'u func" where
  "hook_protocol pre post func ctx =
     bindC (pre ctx) (\<lambda>s.
       if \<not> succeeded s then require_valid s
       else bindC (tryC (func ctx)) (\<lambda>result.
         case result of
           Inl e \<Rightarrow> bindC (post ctx (Status_of SC_invalid ''exception during request''))
                    (\<lambda>s. if code s = SC_invalid then throw e else ret s)
         | Inr status \<Rightarrow> thenC (require_valid status) (bindC (post ctx status) require_valid)))"

definition quiet :: "'u world \<Rightarrow> bool" where
  "quiet w \<longleftrightarrow> world_ok w \<and> log_provider w = None"

lemma quiet_initial [simp]: "quiet (initial_world u)"
  by (simp add: quiet_def)

lemma hook_log_quiet [comp_simps]: "quiet w \<Longrightarrow> hook_log line message w = Some (Inr (), w)"
  by (simp add: hook_log_def quiet_def comp_simps)

lemma StatusCode_to_string_invalid:
  "StatusCode_to_string c = Inl e \<longleftrightarrow> c = SC_invalid \<and> e = invalid_status_exn"
  by (cases c) (auto simp: invalid_status_exn_def)

lemma log_status_quiet:
  "quiet w \<Longrightarrow> thenC (log_status line prefix s) m w = thenC (require_valid s) m w"
proof (cases "StatusCode_to_string (code s)")
  case (Inl e)
  then have "code s = SC_invalid" "e = invalid_status_exn"
    by (simp_all add: StatusCode_to_string_invalid)
  then show ?thesis
    using Inl by (simp add: log_status_def require_valid_def comp_simps)
next
  case (Inr c)
  then have "code s \<noteq> SC_invalid" by auto
  moreover assume "quiet w"
  ultimately show ?thesis
    using Inr by (simp add: log_status_def require_valid_def comp_simps)
qed

lemma require_valid_ret: "thenC (require_valid s) (ret s) = require_valid s"
  by (rule ext) (simp add: require_valid_def comp_simps)

lemma require_valid_succeeded: "succeeded s \<Longrightarrow> require_valid s = ret s"
  by (simp add: require_valid_def succeeded_def)

lemma bindC_cong_run:
  assumes "\<And>x w1. m w = Some (Inr x, w1) \<Longrightarrow> k x w1 = l x w1"
  shows "bindC m k w = bindC m l w"
  using assms by (auto simp: bindC_def split: option.splits sum.splits)

lemma RequestHook_recover_quiet:
  assumes "quiet w" and "\<And>s. keeps quiet (post ctx s)"
  shows "RequestHook_recover name post ctx e w =
     bindC (post ctx (Status_of SC_invalid ''exception during request''))
       (\<lambda>s. if code s = SC_invalid then throw e else ret s) w"
proof -
  have "RequestHook_recover name post ctx e w =
      bindC (post ctx (Status_of SC_invalid ''exception during request''))
        (\<lambda>status. if code status = SC_invalid then throw e
           else thenC (hook_log (if caught_as T_exception e then 39 else 50)
                      (''completely processed by '' @ name @ ''after recovering from exception''))
                   (ret status)) w"
    using assms(1) by (cases "caught_as T_exception e") (simp_all add: RequestHook_recover_def comp_simps)
  also have "\<dots> = bindC (post ctx (Status_of SC_invalid ''exception during request''))
       (\<lambda>s. if code s = SC_invalid then throw e else ret s) w"
  proof (rule bindC_cong_run)
    fix s w1 assume "post ctx (Status_of SC_invalid ''exception during request'') w = Some (Inr s, w1)"
    then have q: "quiet w1" using keepsD [OF assms(2)] assms(1) by blast
    show "(if code s = SC_invalid then throw e
        else thenC (hook_log (if caught_as T_exception e then 39 else 50)
               (''completely processed by '' @ name @ ''after recovering from exception''))
             (ret s)) w1
      = (if code s = SC_invalid then throw e else ret s) w1"
      using q by (simp add: thenC_Inr hook_log_quiet)
  qed
  finally show ?thesis .
qed

lemma RequestHook_complete_quiet:
  assumes "quiet w" and "\<And>s. keeps quiet (post ctx s)"
  shows "RequestHook_complete name post ctx status w =
     thenC (require_valid status) (bindC (post ctx status) require_valid) w"
proof -
  have fin: "thenC (if succeeded s then ret () else log_status 63 ''postprocessing failed with status '' s)
      (thenC (hook_log 67 (''completely processed by '' @ name)) (ret s)) w1 = require_valid s w1"
    if "quiet w1" for s w1
  proof (cases "succeeded s")
    case True
    with that show ?thesis by (simp add: comp_simps require_valid_succeeded)
  next
    case False
    with that show ?thesis
      by (simp add: log_status_quiet) (simp add: require_valid_def comp_simps)
  qed
  have rest: "bindC (post ctx status) (\<lambda>status.
        thenC (if succeeded status then ret () else log_status 63 ''postprocessing failed with status '' status)
        (thenC (hook_log 67 (''completely processed by '' @ name)) (ret status))) w
      = bindC (post ctx status) require_valid w"
    by (rule bindC_cong_run) (rule fin [OF keepsD [OF assms(2) _ assms(1)]])
  show ?thesis
  proof (cases "succeeded status")
    case True
    with assms(1) rest show ?thesis
      by (simp add: RequestHook_complete_def comp_simps require_valid_succeeded)
  next
    case False
    with assms(1) rest show ?thesis
      by (simp add: RequestHook_complete_def log_status_quiet)
        (simp add: require_valid_def comp_simps)
  qed
qed

lemma RequestHook_Process_quiet:
  assumes "quiet w" and "keeps quiet (pre ctx)" and "keeps quiet (func ctx)"
    and "\<And>s. keeps quiet (post ctx s)"
  shows "RequestHook_Process name pre post func ctx w = hook_protocol pre post func ctx w"
proof -
  have inner: "bindC (tryC (func ctx)) (\<lambda>result. case result of
        Inl e \<Rightarrow> RequestHook_recover name post ctx e
      | Inr status \<Rightarrow> RequestHook_complete name post ctx status) w1
    = bindC (tryC (func ctx)) (\<lambda>result. case result of
        Inl e \<Rightarrow> bindC (post ctx (Status_of SC_invalid ''exception during request''))
                    (\<lambda>s. if code s = SC_invalid then throw e else ret s)
      | Inr status \<Rightarrow> thenC (require_valid status) (bindC (post ctx status) require_valid)) w1"
    if "quiet w1" for w1
  proof (rule bindC_cong_run)
    fix r w2 assume "tryC (func ctx) w1 = Some (Inr r, w2)"
    then have "quiet w2" using keepsD [OF keeps_tryC [OF assms(3)]] that by blast
    then show "(case r of Inl e \<Rightarrow> RequestHook_recover name post ctx e
          | Inr status \<Rightarrow> RequestHook_complete name post ctx status) w2
      = (case r of
          Inl e \<Rightarrow> bindC (post ctx (Status_of SC_invalid ''exception during request''))
                    (\<lambda>s. if code s = SC_invalid then throw e else ret s)
        | Inr status \<Rightarrow> thenC (require_valid status) (bindC (post ctx status) require_valid)) w2"
      by (cases r) (simp_all add: RequestHook_recover_quiet RequestHook_complete_quiet assms(4))
  qed
  have "RequestHook_Process name pre post func ctx w =
      bindC (pre ctx) (\<lambda>s. if \<not> succeeded s then thenC (log_status 20 ''preprocessing failed with status '' s) (ret s)
        else thenC (hook_log 24 (''processing by '' @ name))
          (bindC (tryC (func ctx)) (\<lambda>result. case result of
               Inl e \<Rightarrow> RequestHook_recover name post ctx e
             | Inr status \<Rightarrow> RequestHook_complete name post ctx status))) w"
    using assms(1) by (simp add: RequestHook_Process_def comp_simps)
  also have "\<dots> = hook_protocol pre post func ctx w"
    unfolding hook_protocol_def
  proof (rule bindC_cong_run)
    fix s w1 assume "pre ctx w = Some (Inr s, w1)"
    then have q: "quiet w1" using keepsD [OF assms(2)] assms(1) by blast
    then show "(if \<not> succeeded s then thenC (log_status 20 ''preprocessing failed with status '' s) (ret s)
        else thenC (hook_log 24 (''processing by '' @ name))
          (bindC (tryC (func ctx)) (\<lambda>result. case result of
               Inl e \<Rightarrow> RequestHook_recover name post ctx e
             | Inr status \<Rightarrow> RequestHook_complete name post ctx status))) w1
      = (if \<not> succeeded s then require_valid s
       else bindC (tryC (func ctx)) (\<lambda>result. case result of
           Inl e \<Rightarrow> bindC (post ctx (Status_of SC_invalid ''exception during request''))
                    (\<lambda>s. if code s = SC_invalid then throw e else ret s)
         | Inr status \<Rightarrow> thenC (require_valid status) (bindC (post ctx status) require_valid))) w1"
      by (simp add: log_status_quiet require_valid_ret hook_log_quiet thenC_Inr inner)
  qed
  finally show ?thesis .
qed

subsection \<open>Hooks and the stack discipline\<close>

lemma keeps_hook_log [intro]: "keeps (stack_ok n) (hook_log line message)"
  unfolding hook_log_def by (rule keeps_mse_log) simp

lemma keeps_log_status [intro]: "keeps (stack_ok n) (log_status line prefix s)"
  unfolding log_status_def by (intro keeps_bindC keeps_liftE keeps_hook_log)

lemma keeps_if: "keeps I a \<Longrightarrow> keeps I b \<Longrightarrow> keeps I (if P then a else b)"
  by simp

lemma keeps_sum_case:
  "(\<And>e. keeps I (f e)) \<Longrightarrow> (\<And>x. keeps I (g x)) \<Longrightarrow> keeps I (case r of Inl e \<Rightarrow> f e | Inr x \<Rightarrow> g x)"
  by (cases r) simp_all

lemma keeps_RequestHook_Process:
  assumes "keeps (stack_ok n) (pre ctx)" and "keeps (stack_ok n) (func ctx)"
    and "\<And>s. keeps (stack_ok n) (post ctx s)"
  shows "keeps (stack_ok n) (RequestHook_Process name pre post func ctx)"
  unfolding RequestHook_Process_def RequestHook_recover_def RequestHook_complete_def
  by (intro keeps_thenC keeps_bindC keeps_hook_log keeps_log_status keeps_ret keeps_throw
      keeps_tryC keeps_if keeps_sum_case assms)

text \<open>
  The contract of a hook towards the processor that runs it: it may push contexts, log, and run
  the wrapped function any number of times with the context it was given, but leaves the stack
  of contexts as it should be, on every exit.
\<close>

locale stack_hook =
  fixes h :: "'u hook"
  assumes run_keeps:
    "keeps (stack_ok n) (func ctx) \<Longrightarrow> ctx < n \<Longrightarrow> keeps (stack_ok n) (hook_run h t func ctx)"
begin

lemma Process_keeps:
  "keeps (stack_ok n) (func ctx) \<Longrightarrow> ctx < n \<Longrightarrow> keeps (stack_ok n) (hook_Process h func ctx)"
  unfolding hook_Process_def by (rule run_keeps)

lemma typed_stack_hook: "stack_hook (SetRequestType t h)"
  by unfold_locales (simp add: SetRequestType_def run_keeps)

end

lemma protocol_stack_hook:
  assumes "\<And>n t ctx. ctx < n \<Longrightarrow> keeps (stack_ok n) (pre t ctx)"
    and "\<And>n t ctx s. ctx < n \<Longrightarrow> keeps (stack_ok n) (post t ctx s)"
  shows "stack_hook (protocol_hook name pre post)"
  by unfold_locales (simp add: protocol_hook_def keeps_RequestHook_Process assms)

text \<open>A hook that overrides nothing.\<close>

definition base_hook :: "string \<Rightarrow> 'u hook" where
  "base_hook name = protocol_hook name (\<lambda>t. default_pre_process) (\<lambda>t. default_post_process)"

interpretation base: stack_hook "base_hook name"
  unfolding base_hook_def
  by (rule protocol_stack_hook) (auto simp: default_pre_process_def default_post_process_def)

lemma hook_log_run:
  assumes "stack_ok n w"
  obtains out where "hook_log line message w = Some (Inr (), w\<lparr>console := console w @ out\<rparr>)"
  using mse_log_run [OF stack_ok_world [OF assms], of LL_trace] unfolding hook_log_def by blast

lemma log_status_run:
  assumes "stack_ok n w" and "code s \<noteq> SC_invalid"
  obtains out where "log_status line prefix s w = Some (Inr (), w\<lparr>console := console w @ out\<rparr>)"
proof -
  obtain c where c: "StatusCode_to_string (code s) = Inr c" using assms(2) by (cases "code s") auto
  obtain out where "hook_log line (prefix @ c @ '' ('' @ details s @ '')'') w
      = Some (Inr (), w\<lparr>console := console w @ out\<rparr>)"
    by (rule hook_log_run [OF assms(1)])
  with c that show ?thesis by (simp add: log_status_def comp_simps)
qed

text \<open>
  The rule for the protocol: \<open>before\<close> holds at the start, \<open>inside\<close> from the success of
  \<open>pre_process\<close> to the start of \<open>post_process\<close>, \<open>after\<close> at the end, on every exit. Log statements
  disturb none of them.
\<close>

definition log_stable :: "nat \<Rightarrow> ('u world \<Rightarrow> bool) \<Rightarrow> bool" where
  "log_stable n I \<longleftrightarrow> (\<forall>w. I w \<longrightarrow> stack_ok n w) \<and> (\<forall>w out. I w \<longrightarrow> I (w\<lparr>console := out\<rparr>))"

lemma hoare_hook_log:
  assumes "log_stable n I"
  shows "hoare I (hook_log line message) (\<lambda>r w. r = Inr () \<and> I w)"
proof (rule hoareI)
  fix w assume w: "I w"
  have "stack_ok n w" using w assms by (simp add: log_stable_def)
  then obtain out where "hook_log line message w = Some (Inr (), w\<lparr>console := console w @ out\<rparr>)"
    by (rule hook_log_run)
  with w assms show "\<exists>r w'. hook_log line message w = Some (r, w') \<and> r = Inr () \<and> I w'"
    by (simp add: log_stable_def)
qed

lemma hoare_log_status:
  assumes "log_stable n I"
  shows "hoare I (log_status line prefix s)
    (\<lambda>r w. r = (if code s = SC_invalid then Inl invalid_status_exn else Inr ()) \<and> I w)"
proof (cases "StatusCode_to_string (code s)")
  case (Inl e)
  then have "code s = SC_invalid" "e = invalid_status_exn" by (simp_all add: StatusCode_to_string_invalid)
  with Inl show ?thesis by (simp add: hoare_def log_status_def comp_simps)
next
  case (Inr c)
  then have "code s \<noteq> SC_invalid" by auto
  with Inr hoare_hook_log [OF assms] show ?thesis
    by (simp add: log_status_def liftE_def bindC_def hoare_def)
qed

lemma hoare_RequestHook_recover:
  assumes stable: "log_stable n inside" "log_stable n after"
    and post: "\<And>s. hoare inside (post ctx s) (\<lambda>r. after)"
  shows "hoare inside (RequestHook_recover name post ctx e) (\<lambda>r. after)"
  unfolding RequestHook_recover_def
  by (rule hoare_thenC [where Q = "\<lambda>r w. inside w \<and> r = Inr ()"], rule hoare_if;
      (rule hoare_weaken [OF hoare_hook_log [OF stable(1)]])?)
    (auto intro!: hoare_bindC [OF post] hoare_if hoare_throw hoare_ret
       hoare_thenC [OF hoare_hook_log [OF stable(2)]])

lemma hoare_RequestHook_complete:
  assumes stable: "log_stable n inside" "log_stable n after"
    and status: "code status \<noteq> SC_invalid"
    and post: "\<And>s. hoare inside (post ctx s) (\<lambda>r. after)"
  shows "hoare inside (RequestHook_complete name post ctx status) (\<lambda>r. after)"
proof -
  have first: "hoare inside (if succeeded status then ret () else log_status 56 ''processing failed with status '' status)
      (\<lambda>r w. r = Inr () \<and> inside w)"
    by (rule hoare_if [OF hoare_ret hoare_weaken [OF hoare_log_status [OF stable(1)]]]) (simp_all add: status)
  have last: "hoare after (if succeeded s then ret () else log_status 63 ''postprocessing failed with status '' s)
      (\<lambda>r w. after w)" for s
    by (rule hoare_if [OF hoare_ret hoare_weaken [OF hoare_log_status [OF stable(2)]]]) simp_all
  have done_log: "hoare after (hook_log 67 (''completely processed by '' @ name)) (\<lambda>r w. after w)"
    by (rule hoare_weaken [OF hoare_hook_log [OF stable(2)]]) simp
  have mid: "hoare inside (hook_log 59 (''postprocessing by '' @ name)) (\<lambda>r w. r = Inr () \<and> inside w)"
    by (rule hoare_hook_log [OF stable(1)])
  show ?thesis
    unfolding RequestHook_complete_def
  proof (rule hoare_thenC [OF first])
    show "hoare (\<lambda>w. Inr x = Inr () \<and> inside w)
      (thenC (hook_log 59 (''postprocessing by '' @ name)) (bindC (post ctx status) (\<lambda>status.
        thenC (if succeeded status then ret () else log_status 63 ''postprocessing failed with status '' status)
        (thenC (hook_log 67 (''completely processed by '' @ name)) (ret status))))) (\<lambda>r. after)" for x
      by (rule hoare_strengthen [OF hoare_thenC [OF mid hoare_strengthen [OF
            hoare_bindC [OF post hoare_thenC [OF last hoare_thenC [OF done_log hoare_ret]]]]]]) simp_all
  qed simp
qed

lemma hoare_RequestHook_Process:
  assumes stable: "log_stable n before" "log_stable n inside" "log_stable n after"
    and pre: "hoare before (pre ctx) (\<lambda>r. if \<exists>s. r = Inr s \<and> succeeded s then inside else after)"
    and func: "hoare inside (func ctx) (\<lambda>r w. inside w \<and> (\<forall>s. r = Inr s \<longrightarrow> code s \<noteq> SC_invalid))"
    and post: "\<And>s. hoare inside (post ctx s) (\<lambda>r. after)"
  shows "hoare before (RequestHook_Process name pre post func ctx) (\<lambda>r. after)"
proof -
  have enter: "hoare before (hook_log 16 (''preprocessing by '' @ name)) (\<lambda>r w. r = Inr () \<and> before w)"
    by (rule hoare_hook_log [OF stable(1)])
  have refused: "hoare after (thenC (log_status 20 ''preprocessing failed with status '' s) (ret s)) (\<lambda>r. after)" for s
    by (rule hoare_thenC [OF hoare_log_status [OF stable(3)] hoare_ret]) simp_all
  have go: "hoare inside (hook_log 24 (''processing by '' @ name)) (\<lambda>r w. r = Inr () \<and> inside w)"
    by (rule hoare_hook_log [OF stable(2)])
  have finish: "hoare (\<lambda>w. \<exists>x. Inr result = Inr x \<and> inside w \<and> (\<forall>s. x = Inr s \<longrightarrow> code s \<noteq> SC_invalid))
     (case result of Inl e \<Rightarrow> RequestHook_recover name post ctx e
      | Inr status \<Rightarrow> RequestHook_complete name post ctx status) (\<lambda>r. after)" for result
  proof (cases result)
    case (Inl e)
    have "hoare inside (RequestHook_recover name post ctx e) (\<lambda>r. after)"
      by (rule hoare_RequestHook_recover [OF stable(2,3)]) (rule post)
    with Inl show ?thesis by (auto intro: hoare_strengthen)
  next
    case (Inr s)
    then show ?thesis
    proof (cases "code s = SC_invalid")
      case True
      with Inr show ?thesis by (simp add: hoare_def)
    next
      case False
      then have "hoare inside (RequestHook_complete name post ctx s) (\<lambda>r. after)"
        by (rule hoare_RequestHook_complete [OF stable(2,3)]) (rule post)
      with Inr show ?thesis by (auto intro: hoare_strengthen)
    qed
  qed
  have run: "hoare inside (thenC (hook_log 24 (''processing by '' @ name)) (bindC (tryC (func ctx)) (\<lambda>result.
       case result of Inl e \<Rightarrow> RequestHook_recover name post ctx e
      | Inr status \<Rightarrow> RequestHook_complete name post ctx status))) (\<lambda>r. after)"
    by (rule hoare_thenC [OF go hoare_strengthen [OF hoare_bindC [OF hoare_tryC [OF func] finish]]]) simp_all
  show ?thesis
    unfolding RequestHook_Process_def
  proof (rule hoare_thenC [OF enter hoare_strengthen [OF hoare_bindC [OF pre]]])
    show "hoare (if \<exists>s. Inr x = Inr s \<and> succeeded s then inside else after)
      (if \<not> succeeded x then thenC (log_status 20 ''preprocessing failed with status '' x) (ret x)
       else thenC (hook_log 24 (''processing by '' @ name)) (bindC (tryC (func ctx)) (\<lambda>result.
         case result of Inl e \<Rightarrow> RequestHook_recover name post ctx e
         | Inr status \<Rightarrow> RequestHook_complete name post ctx status))) (\<lambda>r. after)" for x
      using run refused by simp
  qed simp_all
qed

text \<open>A function that returns \<open>invalid\<close> makes the log statement throw, before \<open>post_process\<close>.\<close>

lemma hoare_RequestHook_Process_invalid:
  assumes stable: "log_stable n before" "log_stable n inside"
    and pre: "hoare before (pre ctx) (\<lambda>r w. (\<exists>s. r = Inr s \<and> succeeded s) \<and> inside w)"
    and func: "hoare inside (func ctx) (\<lambda>r w. inside w \<and> (\<exists>s. r = Inr s \<and> code s = SC_invalid))"
  shows "hoare before (RequestHook_Process name pre post func ctx)
    (\<lambda>r w. r = Inl invalid_status_exn \<and> inside w)"
proof -
  have finish: "hoare (\<lambda>w. \<exists>x. Inr result = Inr x \<and> inside w \<and> (\<exists>s. x = Inr s \<and> code s = SC_invalid))
      (case result of Inl e \<Rightarrow> RequestHook_recover name post ctx e
       | Inr status \<Rightarrow> RequestHook_complete name post ctx status) (\<lambda>r w. r = Inl invalid_status_exn \<and> inside w)" for result
  proof (cases "\<exists>s. result = Inr s \<and> code s = SC_invalid")
    case True
    then obtain s where s: "result = Inr s" "code s = SC_invalid" by blast
    then have ns: "\<not> succeeded s" by (simp add: succeeded_def)
    have "hoare inside (RequestHook_complete name post ctx s) (\<lambda>r w. r = Inl invalid_status_exn \<and> inside w)"
      unfolding RequestHook_complete_def if_not_P [OF ns]
      by (rule hoare_thenC [OF hoare_log_status [OF stable(2)]]) (simp_all add: s hoare_def)
    then show ?thesis by (simp add: s hoare_def)
  qed (auto simp: hoare_def)
  have run: "hoare inside (thenC (hook_log 24 (''processing by '' @ name)) (bindC (tryC (func ctx)) (\<lambda>result.
       case result of Inl e \<Rightarrow> RequestHook_recover name post ctx e
      | Inr status \<Rightarrow> RequestHook_complete name post ctx status))) (\<lambda>r w. r = Inl invalid_status_exn \<and> inside w)"
    by (rule hoare_thenC [OF hoare_hook_log [OF stable(2)] hoare_strengthen [OF hoare_bindC [OF hoare_tryC [OF func] finish]]])
      simp_all
  show ?thesis
    unfolding RequestHook_Process_def
  proof (rule hoare_thenC [OF hoare_hook_log [OF stable(1)] hoare_strengthen [OF hoare_bindC [OF pre]]])
    show "hoare (\<lambda>w. (\<exists>s. Inr x = Inr s \<and> succeeded s) \<and> inside w)
      (if \<not> succeeded x then thenC (log_status 20 ''preprocessing failed with status '' x) (ret x)
       else thenC (hook_log 24 (''processing by '' @ name)) (bindC (tryC (func ctx)) (\<lambda>result.
         case result of Inl e \<Rightarrow> RequestHook_recover name post ctx e
         | Inr status \<Rightarrow> RequestHook_complete name post ctx status)))
      (\<lambda>r w. r = Inl invalid_status_exn \<and> inside w)" for x
      using run by (simp add: hoare_def)
  qed simp_all
qed

subsection \<open>Properties\<close>

lemma log_status_returns:
  "log_status line prefix s w = Some (Inr u, w') \<Longrightarrow> code s \<noteq> SC_invalid"
  by (auto simp: log_status_def elim!: bindC_SomeE simp: liftE_def)

lemma RequestHook_complete_valid:
  "RequestHook_complete name post ctx status w = Some (Inr s, w') \<Longrightarrow> code s \<noteq> SC_invalid"
  unfolding RequestHook_complete_def
  by (auto elim!: thenC_SomeE bindC_SomeE simp: ret_apply succeeded_def split: if_splits
      dest: log_status_returns)

lemma RequestHook_recover_valid:
  "RequestHook_recover name post ctx e w = Some (Inr s, w') \<Longrightarrow> code s \<noteq> SC_invalid"
  unfolding RequestHook_recover_def
  by (auto elim!: thenC_SomeE bindC_SomeE simp: ret_apply throw_apply split: if_splits)

lemma RequestHook_Process_valid:
  assumes "RequestHook_Process name pre post func ctx w = Some (Inr s, w')"
  shows "code s \<noteq> SC_invalid"
proof -
  note run = assms [unfolded RequestHook_Process_def]
  from run obtain w1 where "bindC (pre ctx) (\<lambda>s.
        if \<not> succeeded s then
          thenC (log_status 20 ''preprocessing failed with status '' s) (ret s)
        else
          thenC (hook_log 24 (''processing by '' @ name))
          (bindC (tryC (func ctx)) (\<lambda>result.
             case result of
               Inl e \<Rightarrow> RequestHook_recover name post ctx e
             | Inr status \<Rightarrow> RequestHook_complete name post ctx status))) w1 = Some (Inr s, w')"
    by (blast elim: thenC_SomeE)
  then show ?thesis
  proof (cases rule: bindC_SomeE)
    case (return s0 w2)
    show ?thesis
    proof (cases "succeeded s0")
      case False
      with return(2) have "thenC (log_status 20 ''preprocessing failed with status '' s0) (ret s0) w2
          = Some (Inr s, w')" by simp
      then show ?thesis by (cases rule: thenC_SomeE) (auto simp: ret_apply dest: log_status_returns)
    next
      case True
      with return(2) obtain w3 where "bindC (tryC (func ctx)) (\<lambda>result.
             case result of
               Inl e \<Rightarrow> RequestHook_recover name post ctx e
             | Inr status \<Rightarrow> RequestHook_complete name post ctx status) w3 = Some (Inr s, w')"
        by (auto elim: thenC_SomeE)
      then show ?thesis
        by (cases rule: bindC_SomeE)
          (auto split: sum.splits dest: RequestHook_recover_valid RequestHook_complete_valid)
    qed
  qed simp
qed

text \<open>
  A hook that uses the default protocol never returns the status \<open>invalid\<close>. Whatever
  its \<open>pre_process\<close>, its \<open>post_process\<close> and the wrapped function do, in every state and with
  every logger, a status that comes back is one of the seventeen valid codes: \<open>invalid\<close> is
  either rethrown as the pending exception or turned into \<open>std::invalid_argument\<close>.
\<close>

theorem hook_never_returns_invalid:
  "\<not> (\<exists>s w'. RequestHook_Process name pre post func ctx w = Some (Inr s, w') \<and> code s = SC_invalid)"
  using RequestHook_Process_valid by blast

text \<open>
  Claim C15: without a registered logger, \<open>RequestHook::Process\<close> is exactly the protocol
  \<open>hook_protocol\<close>, in results, exceptions and state, for any hook and function that leave the
  state well formed and register no logger.
\<close>

theorem hook_refines_protocol:
  assumes "quiet w" and "keeps quiet (pre ctx)" and "keeps quiet (func ctx)"
    and "\<And>s. keeps quiet (post ctx s)"
  shows "RequestHook_Process name pre post func ctx w = hook_protocol pre post func ctx w"
  using assms by (rule RequestHook_Process_quiet)

theorem hook_refines_protocol_witness:
  "RequestHook_Process ''base'' default_pre_process default_post_process
      (\<lambda>ctx. throw (NonStdException 42)) ThreadLocalContext (initial_world ())
   = Some (Inl (NonStdException 42), initial_world ())"
proof -
  have "RequestHook_Process ''base'' default_pre_process default_post_process
      (\<lambda>ctx. throw (NonStdException 42)) ThreadLocalContext (initial_world ())
    = hook_protocol default_pre_process default_post_process
        (\<lambda>ctx. throw (NonStdException 42)) ThreadLocalContext (initial_world ())"
    by (rule hook_refines_protocol)
      (auto simp: default_pre_process_def default_post_process_def)
  also have "\<dots> = Some (Inl (NonStdException 42), initial_world ())"
    by (simp add: hook_protocol_def default_pre_process_def default_post_process_def comp_simps)
  finally show ?thesis .
qed

text \<open>
  After \<open>RequestHookFactory::Clear\<close> an automatically registered parameter type is
  lost for good: constructing further parameter objects of that type registers nothing, since
  the static flag remembers the first registration, and creating the hook throws
  \<open>out_of_range\<close>.
\<close>

theorem auto_registration_lost_after_Clear:
  assumes "f T = None" and "T \<notin> registration_done"
  shows "\<exists>d1 f1 f2. auto_registration T mk (registration_done, f) = Some (Inr (), (d1, f1))
     \<and> RequestHookFactory_Create f1 (AnyOf T p) = Inr (mk p)
     \<and> RequestHookFactory_Clear f1 = Some (Inr (), f2)
     \<and> auto_registration T mk (d1, f2) = Some (Inr (), (d1, f2))
     \<and> RequestHookFactory_Create f2 (AnyOf T p)
         = Inl (OutOfRange ''cannot create request hook. Unknown typeid.'')"
  using assms
  by (simp add: auto_registration_def RequestHookFactory_Register_def RequestHookFactory_Create_def
      RequestHookFactory_Clear_def auto_Create_def comp_simps zoomC_def)

theorem auto_registration_lost_after_Clear_witness:
  "\<exists>d1 f2. auto_registration ''P'' (\<lambda>_. process_hook ''h'' (\<lambda>f. f)) (d1, f2) = Some (Inr (), (d1, f2))
     \<and> RequestHookFactory_Create f2 (AnyOf ''P'' ())
         = (Inl (OutOfRange ''cannot create request hook. Unknown typeid.'') :: exn + unit hook)"
  using auto_registration_lost_after_Clear
    [of Map.empty "''P''" "{}" "\<lambda>_. process_hook ''h'' (\<lambda>f. f)" "()"] by auto

end
