(* ===== verification/Mse_Request_Processor.thy ===== *)
theory Mse_Request_Processor
  imports Mse_Request_Hook
begin

text \<open>
  \<open>request/request-processor\<close>: a processor owns a deque of hooks, the request name and type
  and a context, and runs a function wrapped by its hooks with a context of its own. The
  global hooks of handlers and issuers are lists of construction parameters; the factory and
  these lists are the static state the constructors read, given as arguments.
\<close>

record 'u processor =
  pr_hooks :: "'u hook list"
  pr_name :: string
  pr_type :: RequestType
  pr_context :: addr

text \<open>
  The member \<open>_context\<close> is an object of its own, on the stack with the processor, that is
  move constructed from the argument and dies with the processor.
\<close>

definition RequestProcessor_construct ::
    "string \<Rightarrow> RequestType \<Rightarrow> addr \<Rightarrow> ('u world, 'u processor) comp" where
  "RequestProcessor_construct name t ctx =
     bindC (getC stack_top) (\<lambda>a.
       thenC (on_contexts (Context_move_construct a ctx))
       (thenC (modifyC (\<lambda>w. w\<lparr>stack_top := a + 1\<rparr>))
              (ret \<lparr>pr_hooks = [], pr_name = name, pr_type = t, pr_context = a\<rparr>)))"

definition RequestProcessor_destroy :: "'u processor \<Rightarrow> ('u world, unit) comp" where
  "RequestProcessor_destroy p = modifyC (pop_context (pr_context p))"

definition With_hook :: "'u hook \<Rightarrow> 'u processor \<Rightarrow> 'u processor" where
  "With_hook h p = p\<lparr>pr_hooks := pr_hooks p @ [SetRequestType (pr_type p) h]\<rparr>"

definition With_params :: "('p, 'u) factory \<Rightarrow> 'p any \<Rightarrow> 'u processor \<Rightarrow> exn + 'u processor" where
  "With_params f params p =
     (case RequestHookFactory_Create f params of Inl e \<Rightarrow> Inl e | Inr h \<Rightarrow> Inr (With_hook h p))"

definition BeginWith_hook :: "'u hook \<Rightarrow> 'u processor \<Rightarrow> 'u processor" where
  "BeginWith_hook h p = p\<lparr>pr_hooks := SetRequestType (pr_type p) h # pr_hooks p\<rparr>"

definition BeginWith_params :: "('p, 'u) factory \<Rightarrow> 'p any \<Rightarrow> 'u processor \<Rightarrow> exn + 'u processor" where
  "BeginWith_params f params p =
     (case RequestHookFactory_Create f params of Inl e \<Rightarrow> Inl e | Inr h \<Rightarrow> Inr (BeginWith_hook h p))"

text \<open>The loop from \<open>rbegin\<close> to \<open>rend\<close> wraps the function so far into the next hook.\<close>

definition RequestProcessor_Process :: "'u processor \<Rightarrow> 'u func \<Rightarrow> ('u world, Status) comp" where
  "RequestProcessor_Process p func =
     (let wrapper = fold (\<lambda>hook wrapper ctx. hook_Process hook wrapper ctx) (rev (pr_hooks p)) func
      in with_context (mm_of_list [(''request'', pr_name p)]) (Some (pr_context p)) wrapper)"

definition RequestHandler_Process :: "'u processor \<Rightarrow> 'u func \<Rightarrow> ('u world, Status) comp" where
  "RequestHandler_Process p func =
     thenC (on_contexts (Context_copy_assign ThreadLocalContext (pr_context p)))
           (RequestProcessor_Process p func)"

text \<open>The list of global hook parameters and the constructors that apply it.\<close>

definition GloballyWith :: "'p any \<Rightarrow> ('p any list, unit) comp" where
  "GloballyWith params = modifyC (\<lambda>gs. gs @ [params])"

definition ClearGlobalHooks :: "('p any list, unit) comp" where
  "ClearGlobalHooks = modifyC (\<lambda>gs. [])"

fun GlobalRequestHookConstructionHolder ::
    "('p, 'u) factory \<Rightarrow> 'p any list \<Rightarrow> 'u processor \<Rightarrow> exn + 'u processor" where
  "GlobalRequestHookConstructionHolder f [] p = Inr p"
| "GlobalRequestHookConstructionHolder f (params # gs) p =
     (case With_params f params p of
        Inl e \<Rightarrow> Inl e
      | Inr p' \<Rightarrow> GlobalRequestHookConstructionHolder f gs p')"

text \<open>When applying the global hooks throws, the base class, constructed before, is destroyed.\<close>

definition construct_with_globals ::
    "('p, 'u) factory \<Rightarrow> 'p any list \<Rightarrow> string \<Rightarrow> RequestType \<Rightarrow> addr \<Rightarrow> ('u world, 'u processor) comp" where
  "construct_with_globals f gs name t ctx =
     bindC (RequestProcessor_construct name t ctx) (\<lambda>p.
       case GlobalRequestHookConstructionHolder f gs p of
         Inl e \<Rightarrow> thenC (RequestProcessor_destroy p) (throw e)
       | Inr p' \<Rightarrow> ret p')"

definition RequestHandler_construct ::
    "('p, 'u) factory \<Rightarrow> 'p any list \<Rightarrow> string \<Rightarrow> addr \<Rightarrow> ('u world, 'u processor) comp" where
  "RequestHandler_construct f gs name ctx = construct_with_globals f gs name RT_incoming ctx"

definition RequestIssuer_construct ::
    "('p, 'u) factory \<Rightarrow> 'p any list \<Rightarrow> string \<Rightarrow> addr \<Rightarrow> ('u world, 'u processor) comp" where
  "RequestIssuer_construct f gs name ctx = construct_with_globals f gs name RT_outgoing ctx"

text \<open>A handler or issuer in use: constructed, extended by hooks, used and destroyed.\<close>

definition with_processor ::
    "('u world, 'u processor) comp \<Rightarrow> ('u processor \<Rightarrow> ('u world, 'a) comp) \<Rightarrow> ('u world, 'a) comp" where
  "with_processor construct body =
     bindC construct (\<lambda>p. cleanupC (body p) (pop_context (pr_context p)))"

subsection \<open>The wrapped function\<close>

lemma Process_nested:
  "fold (\<lambda>hook wrapper ctx. hook_Process hook wrapper ctx) (rev (h # hs)) func =
     hook_Process h (fold (\<lambda>hook wrapper ctx. hook_Process hook wrapper ctx) (rev hs) func)"
  by (simp add: fun_eq_iff)

subsection \<open>The order of the hooks\<close>

text \<open>
  Hooks that record their calls: \<open>pre_process\<close> and \<open>post_process\<close> do whatever their scripts say
  to a shared state, fail, throw or replace the status, after noting that they were called.
\<close>

datatype event = EvPre string | EvCall | EvPost string

record 's script =
  sc_name :: string
  sc_pre :: "'s \<Rightarrow> (exn + Status) \<times> 's"
  sc_post :: "Status \<Rightarrow> 's \<Rightarrow> (exn + Status) \<times> 's"

definition recorded :: "event \<Rightarrow> ('s \<Rightarrow> (exn + 'a) \<times> 's) \<Rightarrow> (('s \<times> event list) world, 'a) comp" where
  "recorded e f = (\<lambda>w. case f (fst (app w)) of
     (r, s) \<Rightarrow> Some (r, w\<lparr>app := (s, snd (app w) @ [e])\<rparr>))"

definition script_hook :: "'s script \<Rightarrow> ('s \<times> event list) hook" where
  "script_hook sc = protocol_hook (sc_name sc)
     (\<lambda>t ctx. recorded (EvPre (sc_name sc)) (sc_pre sc))
     (\<lambda>t ctx status. recorded (EvPost (sc_name sc)) (sc_post sc status))"

text \<open>
  What a chain of hooks does to a request, in two phases. On the way in, each hook in turn is asked
  by \<open>pre_process\<close>: those that answer a success pass the request on, the first that does not
  refuses it. On the way out each hook that passed is given the result so far.
\<close>

definition invalid_result :: "exn + Status \<Rightarrow> bool" where
  "invalid_result r = (case r of Inl e \<Rightarrow> False | Inr x \<Rightarrow> code x = SC_invalid)"

definition passes :: "exn + Status \<Rightarrow> bool" where
  "passes r = (case r of Inl e \<Rightarrow> False | Inr x \<Rightarrow> succeeded x)"

definition checked :: "exn + Status \<Rightarrow> exn + Status" where
  "checked r = (if invalid_result r then Inl invalid_status_exn else r)"

fun descend :: "'s script list \<Rightarrow> 's \<Rightarrow> 's script list \<times> (string \<times> (exn + Status)) option \<times> 's" where
  "descend [] s = ([], None, s)"
| "descend (sc # scs) s = (case sc_pre sc s of (r, s1) \<Rightarrow>
     if passes r then (case descend scs s1 of (passed, refusal, s2) \<Rightarrow> (sc # passed, refusal, s2))
     else ([], Some (sc_name sc, checked r), s1))"

definition ascend_step :: "'s script \<Rightarrow> (exn + Status) \<times> 's \<Rightarrow> (exn + Status) \<times> 's" where
  "ascend_step sc = (\<lambda>(r, s).
     if invalid_result r then (Inl invalid_status_exn, s)
     else case sc_post sc (case r of Inl e \<Rightarrow> Status_of SC_invalid ''exception during request'' | Inr x \<Rightarrow> x) s of
       (r', s') \<Rightarrow> (if invalid_result r' then (case r of Inl e \<Rightarrow> Inl e | Inr x \<Rightarrow> Inl invalid_status_exn) else r', s'))"

definition ascend :: "'s script list \<Rightarrow> (exn + Status) \<times> 's \<Rightarrow> (exn + Status) \<times> 's" where
  "ascend passed = fold ascend_step (rev passed)"

text \<open>The same, hook by hook, with the calls that are made.\<close>

fun nested_calls :: "'s script list \<Rightarrow> ('s \<Rightarrow> (exn + Status) \<times> 's) \<Rightarrow> 's \<Rightarrow> ((exn + Status) \<times> 's) \<times> event list" where
  "nested_calls [] body s = (body s, [EvCall])"
| "nested_calls (sc # scs) body s = (case sc_pre sc s of (r, s1) \<Rightarrow>
     if \<not> passes r then ((checked r, s1), [EvPre (sc_name sc)])
     else case nested_calls scs body s1 of (rs, evs) \<Rightarrow>
       (ascend_step sc rs, [EvPre (sc_name sc)] @ evs @ (if invalid_result (fst rs) then [] else [EvPost (sc_name sc)])))"

lemma ascend_step_valid [simp]: "\<not> invalid_result (fst (ascend_step sc rs))"
  by (cases rs) (auto simp: ascend_step_def invalid_result_def split: prod.splits sum.splits)

lemma checked_valid [simp]: "\<not> invalid_result (checked r)"
  by (simp add: checked_def) (simp add: invalid_result_def)

lemma ascend_simps [simp]:
  "ascend [] rs = rs" "ascend (sc # scs) rs = ascend_step sc (ascend scs rs)"
  by (simp_all add: ascend_def)

lemma nested_calls_valid: "scs \<noteq> [] \<Longrightarrow> \<not> invalid_result (fst (fst (nested_calls scs body s)))"
  by (cases scs) (auto split: prod.splits)

lemma nested_calls_phases:
  "nested_calls scs body s = (case descend scs s of (passed, refusal, s1) \<Rightarrow>
     (case refusal of
        Some (n, r) \<Rightarrow> (ascend passed (r, s1), map (EvPre \<circ> sc_name) passed @ [EvPre n] @ rev (map (EvPost \<circ> sc_name) passed))
      | None \<Rightarrow> (ascend passed (body s1), map (EvPre \<circ> sc_name) passed @ [EvCall]
          @ rev (map (EvPost \<circ> sc_name) (if invalid_result (fst (body s1)) then butlast passed else passed)))))"
proof (induction scs arbitrary: s)
  case (Cons sc scs)
  obtain r s1 where pre: "sc_pre sc s = (r, s1)" by fastforce
  obtain passed refusal s2 where d: "descend scs s1 = (passed, refusal, s2)" by (rule prod_cases3)
  have all: "refusal = None \<Longrightarrow> passed = [] \<longleftrightarrow> scs = []"
    using d by (cases scs) (auto split: prod.splits if_splits)
  have some: "refusal \<noteq> None \<Longrightarrow> scs \<noteq> []" using d by auto
  show ?case
    using Cons.IH [of s1] pre d all some nested_calls_valid [of scs body s1]
    by (cases "passes r"; cases refusal) (auto split: prod.splits)
qed simp

lemma quiet_app [simp]: "quiet (w\<lparr>app := u\<rparr>) = quiet w"
  by (simp add: quiet_def)

lemma script_hook_Process:
  "hook_Process (SetRequestType t (script_hook sc)) = RequestHook_Process (sc_name sc)
     (\<lambda>ctx. recorded (EvPre (sc_name sc)) (sc_pre sc))
     (\<lambda>ctx status. recorded (EvPost (sc_name sc)) (sc_post sc status))"
  by (simp add: script_hook_def)

lemma keeps_recorded: "keeps quiet (recorded e f)"
  by (rule keepsI) (auto simp: recorded_def split: prod.splits)

lemma hook_protocol_calls:
  fixes w :: "('s \<times> event list) world"
  assumes pre: "sc_pre sc (fst (app w)) = (r0, s0)"
    and inner: "func ctx (w\<lparr>app := (s0, snd (app w) @ [EvPre (sc_name sc)])\<rparr>)
      = Some (fst rs, w\<lparr>app := (snd rs, snd (app w) @ [EvPre (sc_name sc)] @ evs)\<rparr>)"
  shows "hook_protocol (\<lambda>ctx. recorded (EvPre (sc_name sc)) (sc_pre sc))
      (\<lambda>ctx status. recorded (EvPost (sc_name sc)) (sc_post sc status)) func ctx w
    = (if \<not> passes r0 then Some (checked r0, w\<lparr>app := (s0, snd (app w) @ [EvPre (sc_name sc)])\<rparr>)
       else Some (fst (ascend_step sc rs), w\<lparr>app := (snd (ascend_step sc rs), snd (app w) @ [EvPre (sc_name sc)] @ evs @
         (if invalid_result (fst rs) then [] else [EvPost (sc_name sc)]))\<rparr>))"
proof -
  let ?w0 = "w\<lparr>app := (s0, snd (app w) @ [EvPre (sc_name sc)])\<rparr>"
  have run: "recorded (EvPre (sc_name sc)) (sc_pre sc) w = Some (r0, ?w0)"
    using pre by (simp add: recorded_def)
  show ?thesis
  proof (cases "passes r0")
    case False
    with run show ?thesis
      by (cases r0) (auto simp: passes_def checked_def invalid_result_def hook_protocol_def comp_simps require_valid_def)
  next
    case True
    then obtain x0 where x0: "r0 = Inr x0" "succeeded x0" by (auto simp: passes_def split: sum.splits)
    obtain r1 s1 where rs: "rs = (r1, s1)" by fastforce
    let ?st = "case r1 of Inl e \<Rightarrow> Status_of SC_invalid ''exception during request'' | Inr x \<Rightarrow> x"
    obtain r2 s2 where post: "sc_post sc ?st s1 = (r2, s2)" by fastforce
    let ?w1 = "w\<lparr>app := (s1, snd (app w) @ [EvPre (sc_name sc)] @ evs)\<rparr>"
    have t: "tryC (func ctx) ?w0 = Some (Inr r1, ?w1)"
      using inner rs by (simp add: tryC_def)
    have post1: "recorded (EvPost (sc_name sc)) (sc_post sc ?st) ?w1
        = Some (r2, w\<lparr>app := (s2, snd (app w) @ [EvPre (sc_name sc)] @ evs @ [EvPost (sc_name sc)])\<rparr>)"
      using post by (simp add: recorded_def)
    have p: "passes (Inr x0)" using True x0(1) by simp
    have "hook_protocol (\<lambda>ctx. recorded (EvPre (sc_name sc)) (sc_pre sc))
        (\<lambda>ctx status. recorded (EvPost (sc_name sc)) (sc_post sc status)) func ctx w
      = (case r1 of
          Inl e \<Rightarrow> bindC (recorded (EvPost (sc_name sc)) (sc_post sc ?st))
                    (\<lambda>s. if code s = SC_invalid then throw e else ret s) ?w1
        | Inr status \<Rightarrow> thenC (require_valid status) (bindC (recorded (EvPost (sc_name sc)) (sc_post sc ?st)) require_valid) ?w1)"
      using x0 t run by (cases r1) (simp_all add: hook_protocol_def bindC_Inr)
    also have "\<dots> = Some (fst (ascend_step sc rs), w\<lparr>app := (snd (ascend_step sc rs), snd (app w) @ [EvPre (sc_name sc)] @ evs @
         (if invalid_result (fst rs) then [] else [EvPost (sc_name sc)]))\<rparr>)"
    proof (cases r1)
      case (Inl e)
      with post post1 show ?thesis
        by (cases r2) (simp_all add: rs ascend_step_def invalid_result_def bindC_Inl bindC_Inr throw_apply ret_apply)
    next
      case (Inr x)
      then show ?thesis
      proof (cases "code x = SC_invalid")
        case False
        with Inr post post1 show ?thesis
          by (cases r2) (simp_all add: rs ascend_step_def invalid_result_def require_valid_def
              thenC_Inr [where m = "ret _", OF ret_apply] bindC_Inl bindC_Inr throw_apply ret_apply)
      qed (simp add: Inr rs ascend_step_def invalid_result_def require_valid_def thenC_Inl [where m = "throw _", OF throw_apply])
    qed
    finally show ?thesis by (simp add: p x0(1))
  qed
qed

lemma wrapper_calls:
  "quiet w \<Longrightarrow> fold (\<lambda>hook wrapper ctx. hook_Process hook wrapper ctx)
          (rev (map (SetRequestType t \<circ> script_hook) scs)) (\<lambda>ctx. recorded EvCall body) ctx w
    = (case nested_calls scs body (fst (app w)) of (rs, evs) \<Rightarrow>
        Some (fst rs, w\<lparr>app := (snd rs, snd (app w) @ evs)\<rparr>))"
proof (induction scs arbitrary: w)
  case Nil
  then show ?case by (simp add: recorded_def split: prod.splits)
next
  case (Cons sc scs)
  let ?func = "fold (\<lambda>hook wrapper ctx. hook_Process hook wrapper ctx)
      (rev (map (SetRequestType t \<circ> script_hook) scs)) (\<lambda>ctx. recorded EvCall body)"
  have k: "keeps quiet (?func ctx)"
    by (rule keepsI) (use Cons.IH in \<open>fastforce split: prod.splits\<close>)
  have E: "hook_Process ((SetRequestType t \<circ> script_hook) sc) ?func ctx w
      = hook_protocol (\<lambda>ctx. recorded (EvPre (sc_name sc)) (sc_pre sc))
          (\<lambda>ctx status. recorded (EvPost (sc_name sc)) (sc_post sc status)) ?func ctx w"
    unfolding script_hook_Process comp_apply [of "SetRequestType t" script_hook sc]
    by (rule RequestHook_Process_quiet) (simp_all only: Cons.prems k keeps_recorded)
  obtain r0 s0 where pre: "sc_pre sc (fst (app w)) = (r0, s0)" by fastforce
  obtain rs evs where inner: "nested_calls scs body s0 = (rs, evs)" by fastforce
  have "?func ctx (w\<lparr>app := (s0, snd (app w) @ [EvPre (sc_name sc)])\<rparr>)
      = Some (fst rs, w\<lparr>app := (snd rs, snd (app w) @ [EvPre (sc_name sc)] @ evs)\<rparr>)"
    using Cons.IH [of "w\<lparr>app := (s0, snd (app w) @ [EvPre (sc_name sc)])\<rparr>"] Cons.prems inner by (simp add: comp_def)
  from hook_protocol_calls [where func = ?func, OF pre this] show ?case
    unfolding list.map(2) Process_nested E by (simp add: pre inner)
qed

lemma With_hooks [simp]:
  "fold With_hook hs p = p\<lparr>pr_hooks := pr_hooks p @ map (SetRequestType (pr_type p)) hs\<rparr>"
  by (induction hs arbitrary: p) (simp_all add: With_hook_def)

lemma quiet_push:
  "quiet w \<Longrightarrow> parent_ok w parent \<Longrightarrow> mm_sorted md \<Longrightarrow> quiet (push_context md parent w)"
  by (simp add: quiet_def world_ok_push_context) (simp add: push_context_def)

lemma pop_push_app:
  "world_ok w \<Longrightarrow> pop_context (stack_top w) (push_context md parent w\<lparr>app := u\<rparr>) = w\<lparr>app := u\<rparr>"
  using world_ok_fresh [of w]
  by (auto simp: pop_context_def push_context_def fun_upd_idem)

lemma app_push [simp]: "app (push_context md parent w) = app w"
  by (simp add: push_context_def)

lemma Process_calls:
  fixes w :: "('s \<times> event list) world"
  assumes w: "quiet w" "pr_context p \<in> dom (contexts w)"
    and hooks: "pr_hooks p = map (SetRequestType t \<circ> script_hook) scs"
    and calls: "nested_calls scs body (fst (app w)) = (rs, evs)"
  shows "RequestProcessor_Process p (\<lambda>ctx. recorded EvCall body) w
      = Some (fst rs, w\<lparr>app := (snd rs, snd (app w) @ evs)\<rparr>)"
proof -
  let ?md = "mm_of_list [(''request'', pr_name p)]"
  let ?w = "push_context ?md (Some (pr_context p)) w"
  let ?wrap = "fold (\<lambda>hook wrapper ctx. hook_Process hook wrapper ctx)
     (rev (map (SetRequestType t \<circ> script_hook) scs)) (\<lambda>ctx. recorded EvCall body)"
  have par: "parent_ok w (Some (pr_context p))" using w(2) by (simp add: parent_ok_def)
  then have q: "quiet ?w" using w(1) by (simp add: quiet_push)
  have run: "?wrap (stack_top w) ?w = Some (fst rs, ?w\<lparr>app := (snd rs, snd (app ?w) @ evs)\<rparr>)"
    using wrapper_calls [OF q] calls by simp
  have "RequestProcessor_Process p (\<lambda>ctx. recorded EvCall body) w
      = Some (fst rs, pop_context (stack_top w) (?w\<lparr>app := (snd rs, snd (app ?w) @ evs)\<rparr>))"
    unfolding RequestProcessor_Process_def Let_def hooks
    using with_context_run [of w "Some (pr_context p)" ?md ?wrap] w(1) par run by (simp add: quiet_def)
  also have "\<dots> = Some (fst rs, w\<lparr>app := (snd rs, snd (app w) @ evs)\<rparr>)"
    using w(1) by (simp add: quiet_def pop_push_app)
  finally show ?thesis .
qed

subsection \<open>Construction and the stack\<close>

lemma Context_move_construct_run:
  assumes ok: "store_ok h" and oc: "h ctx = Some oc" and fresh: "a \<notin> dom h"
    and ps: "getAllParents h ctx = Some ps" and par: "a \<notin> ps"
  shows "Context_move_construct a ctx h = Some (Inr (), h
     (a \<mapsto> oc, ctx \<mapsto> oc\<lparr>ctx_metadata := []\<rparr>))"
proof -
  have ne: "a \<noteq> ctx" using oc fresh by auto
  have g: "a \<noteq> GlobalContext" using ok fresh by (auto simp: store_ok_def)
  let ?c0 = "\<lparr>ctx_metadata = [], ctx_parent = None\<rparr>"
  let ?h1 = "h(a \<mapsto> ?c0\<lparr>ctx_metadata := ctx_metadata oc\<rparr>)"
  let ?h2 = "?h1(ctx \<mapsto> oc\<lparr>ctx_metadata := []\<rparr>)"
  have pa: "ctx_parent oc \<noteq> Some a"
  proof
    assume "ctx_parent oc = Some a"
    with oc ps par show False
      by (auto simp: getAllParents.simps [of h ctx] split: bind_splits)
  qed
  have live: "rooted h ctx" using ok oc by (auto intro: store_ok_rooted)
  have "getAllParents ?h2 ctx = Some ps"
    unfolding ps [symmetric]
    by (rule getAllParents_cong [OF live]) (use oc fresh in \<open>auto split: if_splits\<close>)
  then have "initParentContext a ctx ?h2 = Some (Inr (), ?h2(a \<mapsto> oc))"
    using g pa ne par
    by (auto simp: initParentContext_def comp_simps ctx_simps intro!: arg_cong [where f = "fun_upd ?h2 a"])
  then show ?thesis
    using ne oc
    by (simp add: Context_move_construct_def Context_construct_by_def Context_move_assign_def comp_simps
        ctx_simps fun_upd_twist)
qed

lemma ancestors_less:
  assumes "stack_ok n w"
  shows "a < n \<Longrightarrow> getAllParents (contexts w) a = Some ps \<Longrightarrow> \<forall>p\<in>ps. p < a"
proof (induction a arbitrary: ps rule: less_induct)
  case (less a)
  obtain c where c: "contexts w a = Some c" "case ctx_parent c of None \<Rightarrow> True | Some p \<Rightarrow> p < a"
    using assms less.prems(1) unfolding stack_ok_def by blast
  show ?case
  proof (cases "ctx_parent c")
    case None
    with less.prems(2) c show ?thesis by (auto simp: getAllParents.simps [of _ a])
  next
    case (Some p)
    with less.prems c obtain qs where "getAllParents (contexts w) p = Some qs" "ps = insert p qs"
      by (auto simp: getAllParents.simps [of _ a] split: bind_splits)
    with less.IH [of p qs] Some c(2) less.prems(1) show ?thesis by auto
  qed
qed

lemma RequestProcessor_construct_run:
  assumes w: "stack_ok n w" and ctx: "ctx < n" and oc: "contexts w ctx = Some oc"
  shows "RequestProcessor_construct name t ctx w =
     Some (Inr \<lparr>pr_hooks = [], pr_name = name, pr_type = t, pr_context = n\<rparr>,
       w\<lparr>contexts := (contexts w)(n \<mapsto> oc, ctx \<mapsto> oc\<lparr>ctx_metadata := []\<rparr>), stack_top := Suc n\<rparr>)"
proof -
  obtain ps where ps: "getAllParents (contexts w) ctx = Some ps"
    using getAllParents_defined [OF stack_ok_rooted [OF w ctx]] by blast
  have "n \<notin> ps" using ancestors_less [OF w ctx ps] ctx by auto
  with Context_move_construct_run [OF stack_ok_store [OF w] oc _ ps, of n] stack_ok_dom [OF w]
  show ?thesis
    using stack_ok_top [OF w]
    by (simp add: RequestProcessor_construct_def comp_simps on_contexts_def zoomC_def)
qed

lemma RequestProcessor_construct_stack:
  assumes w: "stack_ok n w" and ctx: "ctx < n"
  shows "\<exists>w'. RequestProcessor_construct name t ctx w =
       Some (Inr \<lparr>pr_hooks = [], pr_name = name, pr_type = t, pr_context = n\<rparr>, w') \<and> stack_ok (Suc n) w'"
proof -
  from stack_ok_live [OF w ctx] obtain oc where oc: "contexts w ctx = Some oc" by blast
  have "stack_ok (Suc n) (w\<lparr>contexts := (contexts w)(n \<mapsto> oc, ctx \<mapsto> oc\<lparr>ctx_metadata := []\<rparr>),
      stack_top := Suc n\<rparr>)"
    using w oc ctx unfolding stack_ok_def
    by (auto split: option.splits if_splits) (metis less_trans option.inject)+
  with RequestProcessor_construct_run [OF w ctx oc] show ?thesis by blast
qed

subsection \<open>Properties\<close>

text \<open>
  Claim C1: what a processor makes of a request. For a processor set up by \<open>BeginWith(first)\<close> and
  \<open>With\<close> of the other hooks in turn, each with an arbitrary \<open>pre_process\<close> and \<open>post_process\<close> on a
  shared state, and an arbitrary function, without a logger: result, state and calls are those of
  two phases. On the way in \<open>pre_process\<close> is called from the first hook on, each in the state the
  one before left, up to the first that answers no success; the function is called, once, exactly
  when none refuses. On the way out every hook that let the request pass gets its \<open>post_process\<close>,
  once, the last first, with the result so far (the placeholder \<open>invalid\<close> after an exception): an
  exception goes on unless \<open>post_process\<close> replaces it, and \<open>invalid\<close> becomes \<open>invalid_argument\<close>.
  Only when the function itself returns \<open>invalid\<close> the last hook gets no \<open>post_process\<close>. Nothing else
  of the world changes: the context is gone.
\<close>

theorem processor_brackets_hooks:
  fixes w :: "('s \<times> event list) world"
  assumes "quiet w" and "pr_context p \<in> dom (contexts w)" and "pr_hooks p = []"
  shows "RequestProcessor_Process
       (BeginWith_hook (script_hook first) (fold (\<lambda>sc. With_hook (script_hook sc)) scs p))
       (\<lambda>ctx. recorded EvCall body) w
     = (case descend (first # scs) (fst (app w)) of (passed, refusal, s1) \<Rightarrow>
         let called = (case refusal of Some (n, r) \<Rightarrow> EvPre n | None \<Rightarrow> EvCall);
             (r1, s2) = (case refusal of Some (n, r) \<Rightarrow> (r, s1) | None \<Rightarrow> body s1);
             left = (if refusal = None \<and> invalid_result r1 then butlast passed else passed);
             (r, s) = ascend passed (r1, s2)
         in Some (r, w\<lparr>app := (s, snd (app w) @ map (EvPre \<circ> sc_name) passed @ [called]
              @ rev (map (EvPost \<circ> sc_name) left))\<rparr>))"
proof -
  have scs: "fold (\<lambda>sc. With_hook (script_hook sc)) scs p = fold With_hook (map script_hook scs) p"
    by (simp add: fold_map comp_def del: With_hooks)
  have hooks: "pr_hooks (BeginWith_hook (script_hook first) (fold (\<lambda>sc. With_hook (script_hook sc)) scs p))
      = map (SetRequestType (pr_type p) \<circ> script_hook) (first # scs)"
    using assms(3) by (simp add: BeginWith_hook_def scs)
  have c: "pr_context (BeginWith_hook (script_hook first) (fold (\<lambda>sc. With_hook (script_hook sc)) scs p))
      \<in> dom (contexts w)"
    using assms(2) by (simp add: BeginWith_hook_def scs)
  obtain passed refusal s1 where d: "descend (first # scs) (fst (app w)) = (passed, refusal, s1)"
    by (rule prod_cases3)
  obtain rs evs where calls: "nested_calls (first # scs) body (fst (app w)) = (rs, evs)" by fastforce
  show ?thesis
    unfolding Process_calls [OF assms(1) c hooks calls] d
    using calls [unfolded nested_calls_phases d] by (cases refusal) (auto simp del: descend.simps split: prod.splits)
qed

definition plain_script :: "string \<Rightarrow> StatusCode \<Rightarrow> nat script" where
  "plain_script n c = \<lparr>sc_name = n, sc_pre = (\<lambda>s. (Inr (Status_of c ''''), s + 1)), sc_post = (\<lambda>x s. (Inr x, s + 10))\<rparr>"

theorem processor_brackets_hooks_witness:
  "RequestProcessor_Process
       (BeginWith_hook (script_hook (plain_script ''A'' SC_ok))
         (fold (\<lambda>sc. With_hook (script_hook sc)) [plain_script ''B'' SC_aborted, plain_script ''C'' SC_ok]
           \<lparr>pr_hooks = [], pr_name = ''r'', pr_type = RT_incoming, pr_context = ThreadLocalContext\<rparr>))
       (\<lambda>ctx. recorded EvCall (\<lambda>s. (Inl (NonStdException 1), s))) (initial_world (0, []))
     = Some (Inr (Status_of SC_aborted ''''), (initial_world (0, []))\<lparr>app := (12, [EvPre ''A'', EvPre ''B'', EvPost ''A''])\<rparr>) \<and>
   RequestProcessor_Process
       (BeginWith_hook (script_hook (plain_script ''A'' SC_ok))
         (fold (\<lambda>sc. With_hook (script_hook sc)) [plain_script ''B'' SC_ok]
           \<lparr>pr_hooks = [], pr_name = ''r'', pr_type = RT_incoming, pr_context = ThreadLocalContext\<rparr>))
       (\<lambda>ctx. recorded EvCall (\<lambda>s. (Inl (NonStdException 1), s))) (initial_world (0, []))
     = Some (Inl (NonStdException 1),
         (initial_world (0, []))\<lparr>app := (22, [EvPre ''A'', EvPre ''B'', EvCall, EvPost ''B'', EvPost ''A''])\<rparr>)"
proof -
  note run = processor_brackets_hooks [where w = "initial_world (0 :: nat, [])" and
      p = "\<lparr>pr_hooks = [], pr_name = ''r'', pr_type = RT_incoming, pr_context = ThreadLocalContext\<rparr>"
      and body = "\<lambda>s. (Inl (NonStdException 1), s)" and first = "plain_script ''A'' SC_ok"]
  show ?thesis
    using run [of "[plain_script ''B'' SC_aborted, plain_script ''C'' SC_ok]"] run [of "[plain_script ''B'' SC_ok]"]
      initial_ThreadLocal
    by (simp add: plain_script_def passes_def checked_def invalid_result_def ascend_step_def succeeded_def Status_of_def)
qed

definition handler_world :: "unit world" where
  "handler_world = (initial_world ())\<lparr>contexts := initial_contexts
     (2 \<mapsto> \<lparr>ctx_metadata = [(''scope'', ''read'')], ctx_parent = Some ThreadLocalContext\<rparr>), stack_top := 3\<rparr>"

lemma handler_world_ok [simp]: "stack_ok 3 handler_world"
  unfolding stack_ok_def handler_world_def
  by (auto simp: initial_contexts_def GlobalContext_def ThreadLocalContext_def mm_sorted_def split: if_splits)

lemma handler_world_contexts:
  "contexts handler_world 2 = Some \<lparr>ctx_metadata = [(''scope'', ''read'')], ctx_parent = Some ThreadLocalContext\<rparr>"
  "contexts handler_world ThreadLocalContext = Some \<lparr>ctx_metadata = [], ctx_parent = Some GlobalContext\<rparr>"
  "contexts handler_world GlobalContext = Some \<lparr>ctx_metadata = [], ctx_parent = None\<rparr>"
  by (simp_all add: handler_world_def initial_contexts_def GlobalContext_def ThreadLocalContext_def)

text \<open>The hooks that a factory makes of the global parameters, in order, up to the first that fails.\<close>

primrec created_hooks :: "('p, 'u) factory \<Rightarrow> 'p any list \<Rightarrow> exn + 'u hook list" where
  "created_hooks f [] = Inr []"
| "created_hooks f (params # gs) =
     (case RequestHookFactory_Create f params of
        Inl e \<Rightarrow> Inl e
      | Inr h \<Rightarrow> (case created_hooks f gs of Inl e \<Rightarrow> Inl e | Inr hs \<Rightarrow> Inr (h # hs)))"

lemma GlobalHolder_created:
  "GlobalRequestHookConstructionHolder f gs p =
     (case created_hooks f gs of
        Inl e \<Rightarrow> Inl e
      | Inr hs \<Rightarrow> Inr (p\<lparr>pr_hooks := pr_hooks p @ map (SetRequestType (pr_type p)) hs\<rparr>))"
  by (induction gs arbitrary: p) (auto simp: With_params_def With_hook_def split: sum.splits)

lemma moved_stack_ok:
  assumes "stack_ok n w" and "ctx < n" and "contexts w ctx = Some c"
  shows "stack_ok (Suc n) (w\<lparr>contexts := (contexts w)(n \<mapsto> c, ctx \<mapsto> c\<lparr>ctx_metadata := []\<rparr>), stack_top := Suc n\<rparr>)"
  using assms unfolding stack_ok_def
  by (auto split: option.splits if_splits) (metis less_trans option.inject)+

text \<open>
  Claim C17: what a request through an issuer does, from the construction of the issuer with
  \<open>ctx\<close> to its destruction, for any factory, list of global parameters and function. If
  the factory fails for one of the parameters, in their order, nothing is called, the caller gets
  that exception and the member context is destroyed. Otherwise the hooks made of the parameters,
  marked as outgoing, are wrapped around the function, the first outermost, and run exactly once, on
  a new context that answers the issuer's name for \<open>request\<close> and falls back on the metadata and the
  parent that \<open>ctx\<close> had. The result is theirs, and whatever they leave behind, by a status or by an
  exception, exactly the two contexts of the issuer are gone. The caller's \<open>ctx\<close> is left without
  its metadata, as it was moved from.
\<close>

theorem issuer_runs_request:
  assumes "stack_ok n w" and "ctx < n" and "contexts w ctx = Some c"
  shows "with_processor (RequestIssuer_construct f gs name ctx) (\<lambda>p. RequestProcessor_Process p func) w =
     (let moved = (contexts w)(ctx \<mapsto> c\<lparr>ctx_metadata := []\<rparr>) in
      case created_hooks f gs of
        Inl e \<Rightarrow> Some (Inl e, w\<lparr>contexts := moved\<rparr>)
      | Inr hs \<Rightarrow>
          (case foldr (\<lambda>hook wrapper. hook_Process (SetRequestType RT_outgoing hook) wrapper) hs func (Suc n)
              (w\<lparr>contexts := moved(n \<mapsto> c,
                   Suc n \<mapsto> \<lparr>ctx_metadata = [(''request'', name)], ctx_parent = Some n\<rparr>),
                 stack_top := Suc (Suc n)\<rparr>) of
             None \<Rightarrow> None
           | Some (r, w') \<Rightarrow> Some (r, w'\<lparr>contexts := (contexts w')(n := None, Suc n := None), stack_top := n\<rparr>)))"
proof -
  let ?p = "\<lparr>pr_hooks = [], pr_name = name, pr_type = RT_outgoing, pr_context = n\<rparr>"
  let ?w1 = "w\<lparr>contexts := (contexts w)(n \<mapsto> c, ctx \<mapsto> c\<lparr>ctx_metadata := []\<rparr>), stack_top := Suc n\<rparr>"
  note run = RequestProcessor_construct_run [OF assms, of name RT_outgoing]
  have n: "contexts w n = None" "ctx \<noteq> n" using stack_ok_dom [OF assms(1)] assms(2) by auto
  have ok1: "stack_ok (Suc n) ?w1" by (rule moved_stack_ok [OF assms])
  show ?thesis
  proof (cases "created_hooks f gs")
    case (Inl e)
    then show ?thesis
      using run n stack_ok_top [OF assms(1)]
      by (auto simp: with_processor_def RequestIssuer_construct_def construct_with_globals_def
          GlobalHolder_created comp_simps RequestProcessor_destroy_def pop_context_def fun_upd_twist fun_upd_idem)
  next
    case (Inr hs)
    let ?q = "?p\<lparr>pr_hooks := map (SetRequestType RT_outgoing) hs\<rparr>"
    have wrap: "fold (\<lambda>hook wrapper ctx. hook_Process hook wrapper ctx) (rev (pr_hooks ?q)) func
        = foldr (\<lambda>hook wrapper. hook_Process (SetRequestType RT_outgoing hook) wrapper) hs func"
      by (simp add: foldr_conv_fold [symmetric] foldr_map comp_def)
    have push: "push_context (mm_of_list [(''request'', name)]) (Some n) ?w1
        = w\<lparr>contexts := (contexts w)(ctx \<mapsto> c\<lparr>ctx_metadata := []\<rparr>, n \<mapsto> c,
            Suc n \<mapsto> \<lparr>ctx_metadata = [(''request'', name)], ctx_parent = Some n\<rparr>), stack_top := Suc (Suc n)\<rparr>"
      using n by (simp add: push_context_def mm_of_list_def fun_upd_twist)
    have "RequestProcessor_Process ?q func ?w1 =
        (case foldr (\<lambda>hook wrapper. hook_Process (SetRequestType RT_outgoing hook) wrapper) hs func (Suc n)
           (push_context (mm_of_list [(''request'', name)]) (Some n) ?w1) of
           None \<Rightarrow> None | Some (r, w') \<Rightarrow> Some (r, pop_context (Suc n) w'))"
      unfolding RequestProcessor_Process_def Let_def wrap
      by (simp add: with_context_run [OF stack_ok_world [OF ok1] stack_ok_parent [OF ok1 lessI], unfolded stack_ok_top [OF ok1]])
    then show ?thesis
      using run Inr n
      by (auto simp: with_processor_def RequestIssuer_construct_def construct_with_globals_def
          GlobalHolder_created comp_simps cleanupC_def pop_context_def push fun_upd_twist split: option.splits)
  qed
qed

definition recovering_factory :: "(unit, unit) factory" where
  "recovering_factory = [''P'' \<mapsto> \<lambda>params. Inr (process_hook ''recover''
     (\<lambda>func ctx. catchC (func ctx) (\<lambda>e. ret (Status_of SC_aborted ''''))))]"

theorem issuer_runs_request_witness:
  "let after = handler_world\<lparr>contexts := (contexts handler_world)
         (2 \<mapsto> \<lparr>ctx_metadata = [], ctx_parent = Some ThreadLocalContext\<rparr>)\<rparr>;
       request = (\<lambda>gs. with_processor (RequestIssuer_construct recovering_factory gs ''r'' 2)
         (\<lambda>p. RequestProcessor_Process p (\<lambda>ctx. throw (NonStdException 1))) handler_world)
   in request [AnyOf ''P'' ()] = Some (Inr (Status_of SC_aborted ''''), after) \<and>
      request [] = Some (Inl (NonStdException 1), after) \<and>
      request [AnyOf ''P'' (), AnyOf ''Q'' ()]
        = Some (Inl (OutOfRange ''cannot create request hook. Unknown typeid.''), after)"
proof -
  note run = issuer_runs_request [where func = "\<lambda>ctx. throw (NonStdException 1)" and f = recovering_factory
      and name = "''r''" and n = 3 and ctx = 2, OF handler_world_ok _ handler_world_contexts(1)]
  have "contexts handler_world 3 = None" "contexts handler_world 4 = None" "stack_top handler_world = 3"
    by (simp_all add: handler_world_def initial_contexts_def GlobalContext_def ThreadLocalContext_def)
  then show ?thesis
    using run [of "[AnyOf ''P'' ()]"] run [of "[]"] run [of "[AnyOf ''P'' (), AnyOf ''Q'' ()]"]
    by (simp add: Let_def recovering_factory_def RequestHookFactory_Create_def comp_simps fun_upd_twist fun_upd_idem)
qed

subsection \<open>The thread local context of a handler\<close>

lemma copy_assign_ThreadLocal_run:
  assumes w: "stack_ok n w" and t: "contexts w ThreadLocalContext = Some t"
    and oc: "contexts w a = Some oc" and ne: "a \<noteq> ThreadLocalContext"
    and ps: "getAllParents (contexts w) a = Some ps"
  shows "Context_copy_assign ThreadLocalContext a (contexts w) =
    Some (reparented ((contexts w)(ThreadLocalContext \<mapsto> t\<lparr>ctx_metadata := ctx_metadata oc\<rparr>)) ThreadLocalContext
       (t\<lparr>ctx_metadata := ctx_metadata oc\<rparr>) oc ps)"
  by (rule Context_copy_assign_run [OF stack_ok_store [OF w] t oc ps]) (use ne in simp)

lemma handler_enters:
  assumes w: "stack_ok n w" and p: "contexts w (pr_context p) = Some oc"
    and par: "ctx_parent oc = Some ThreadLocalContext" and t: "contexts w ThreadLocalContext = Some t"
  defines "w1 \<equiv> w\<lparr>contexts := (contexts w)(ThreadLocalContext \<mapsto> t\<lparr>ctx_metadata := ctx_metadata oc\<rparr>)\<rparr>"
  shows "RequestHandler_Process p func w = RequestProcessor_Process p func w1" and "stack_ok n w1"
proof -
  have dom: "pr_context p < n" using w p stack_ok_dom by blast
  obtain ps where ps: "getAllParents (contexts w) (pr_context p) = Some ps"
    using getAllParents_defined [OF stack_ok_rooted [OF w dom]] by blast
  have "ThreadLocalContext < pr_context p"
    using w p par unfolding stack_ok_def by (fastforce split: option.splits)
  then have ne: "pr_context p \<noteq> ThreadLocalContext" by simp
  have "on_contexts (Context_copy_assign ThreadLocalContext (pr_context p)) w = Some (Inr (), w1)"
    unfolding w1_def using copy_assign_ThreadLocal_run [OF w t p ne ps] par
    by (intro on_contexts_Some) (simp add: reparented_def)
  then show "RequestHandler_Process p func w = RequestProcessor_Process p func w1"
    by (simp add: RequestHandler_Process_def thenC_Inr)
  show "stack_ok n w1"
    using w p t unfolding stack_ok_def w1_def by (auto split: if_splits option.splits)
qed

text \<open>
  Claim C14: what the code of an incoming request sees. For a handler whose context has the
  thread local context as its parent (every \<open>Context\<close> made without an explicit parent), the
  hooks and the function run in a state where the context they are given answers the request
  name for \<open>request\<close>, and where the thread local context answers exactly the metadata of the
  handler's context, falling back on what the global context held. Afterwards the request's
  context is popped; the thread local context is left as it is.
\<close>

theorem handler_installs_context:
  assumes "stack_ok n w" and "contexts w (pr_context p) = Some \<lparr>ctx_metadata = md, ctx_parent = Some ThreadLocalContext\<rparr>"
    and "contexts w ThreadLocalContext = Some \<lparr>ctx_metadata = old, ctx_parent = Some GlobalContext\<rparr>"
  shows "\<exists>w1. RequestHandler_Process p func w =
       (case fold (\<lambda>hook wrapper ctx. hook_Process hook wrapper ctx) (rev (pr_hooks p)) func n w1 of
          None \<Rightarrow> None | Some (r, w') \<Rightarrow> Some (r, pop_context n w'))
     \<and> stack_ok (Suc n) w1 \<and> app w1 = app w
     \<and> Context_At (contexts w1) n ''request'' = Some (Inr (pr_name p))
     \<and> Context_AtOr (contexts w1) ThreadLocalContext k d =
         (case mm_find k md of Some v \<Rightarrow> Some v | None \<Rightarrow> Context_AtOr (contexts w) GlobalContext k d)"
proof -
  let ?w = "w\<lparr>contexts := (contexts w)(ThreadLocalContext \<mapsto> \<lparr>ctx_metadata = md, ctx_parent = Some GlobalContext\<rparr>)\<rparr>"
  let ?md = "mm_of_list [(''request'', pr_name p)]"
  let ?w1 = "push_context ?md (Some (pr_context p)) ?w"
  have n: "pr_context p < n" using assms(1,2) stack_ok_dom by blast
  have E: "RequestHandler_Process p func w = RequestProcessor_Process p func ?w" and ok: "stack_ok n ?w"
    using handler_enters [OF assms(1,2) _ assms(3)] by simp_all
  have ok1: "stack_ok (Suc n) ?w1" by (rule stack_ok_push [OF ok]) (use n in simp_all)
  have top: "stack_top ?w = n" by (rule stack_ok_top [OF ok])
  have "RequestHandler_Process p func w =
       (case fold (\<lambda>hook wrapper ctx. hook_Process hook wrapper ctx) (rev (pr_hooks p)) func n ?w1 of
          None \<Rightarrow> None | Some (r, w') \<Rightarrow> Some (r, pop_context n w'))"
    unfolding E RequestProcessor_Process_def Let_def
      with_context_run [OF stack_ok_world [OF ok] stack_ok_parent [OF ok n]] top ..
  moreover have "Context_At (contexts ?w1) n ''request'' = Some (Inr (pr_name p))"
    using top by (simp add: Context_At.simps push_context_def mm_of_list_def)
  moreover have "Context_AtOr (contexts ?w1) ThreadLocalContext k d =
      (case mm_find k md of Some v \<Rightarrow> Some v | None \<Rightarrow> Context_AtOr (contexts w) GlobalContext k d)"
  proof -
    have g: "\<exists>c. contexts w GlobalContext = Some c \<and> ctx_parent c = None"
      using stack_ok_store [OF assms(1)] by (simp add: store_ok_def)
    have lt: "GlobalContext < n" "ThreadLocalContext < n"
      using stack_ok_ThreadLocal [OF ok] by (simp_all add: GlobalContext_def ThreadLocalContext_def)
    show ?thesis
      using g lt top
      by (auto simp: Context_AtOr.simps [of _ ThreadLocalContext] Context_AtOr.simps [of _ GlobalContext]
          push_context_def split: option.splits)
  qed
  moreover have "app ?w1 = app w" by simp
  ultimately show ?thesis using ok1 by blast
qed

definition handler_processor :: "unit processor" where
  "handler_processor = \<lparr>pr_hooks = [], pr_name = ''getUser'', pr_type = RT_incoming, pr_context = 2\<rparr>"

theorem handler_installs_context_witness:
  "\<exists>w1 :: unit world. stack_ok 4 w1 \<and> Context_At (contexts w1) 3 ''request'' = Some (Inr ''getUser'')
     \<and> Context_AtOr (contexts w1) ThreadLocalContext ''scope'' '''' = Some ''read''"
  using handler_installs_context [of 3 handler_world handler_processor "[(''scope'', ''read'')]" "[]"
      "\<lambda>ctx. ret Status_OK" "''scope''" "''''"] handler_world_contexts
  by (simp add: handler_processor_def) blast

text \<open>
  Claim C16: a handler for a context that descends from the thread local context through another
  context cannot process anything. The assignment to the thread local context refuses the cycle:
  \<open>Process\<close> throws \<open>logic_error\<close> before any hook or the function runs, after it has replaced the
  metadata of the thread local context. This is the case of every handler that is used inside
  the processing of another request with a context that is a child of that request's context.
\<close>

theorem nested_handler_refused:
  assumes "stack_ok n w" and "contexts w (pr_context p) = Some oc" and "contexts w ThreadLocalContext = Some t"
    and "getAllParents (contexts w) (pr_context p) = Some ancestors"
    and "ThreadLocalContext \<in> ancestors" and "ctx_parent oc \<noteq> Some ThreadLocalContext"
  shows "RequestHandler_Process p func w =
    Some (Inl (LogicError ''I cannot be one of my ancestors''),
      w\<lparr>contexts := (contexts w)(ThreadLocalContext \<mapsto> t\<lparr>ctx_metadata := ctx_metadata oc\<rparr>)\<rparr>)"
proof -
  have "pr_context p \<noteq> ThreadLocalContext"
  proof
    assume "pr_context p = ThreadLocalContext"
    moreover have "\<forall>q\<in>ancestors. q < pr_context p"
    proof -
      have "pr_context p < n" using assms(1,2) stack_ok_dom by blast
      then show ?thesis using ancestors_less [OF assms(1) _ assms(4)] by blast
    qed
    ultimately show False using assms(5) by auto
  qed
  with copy_assign_ThreadLocal_run [OF assms(1,3,2) _ assms(4)] assms(5,6)
  have "on_contexts (Context_copy_assign ThreadLocalContext (pr_context p)) w
    = Some (Inl (LogicError ''I cannot be one of my ancestors''),
      w\<lparr>contexts := (contexts w)(ThreadLocalContext \<mapsto> t\<lparr>ctx_metadata := ctx_metadata oc\<rparr>)\<rparr>)"
    by (intro on_contexts_Some) (simp add: reparented_def)
  then show ?thesis by (simp add: RequestHandler_Process_def thenC_Inl)
qed

definition nested_handler_world :: "unit world" where
  "nested_handler_world = handler_world\<lparr>contexts := (contexts handler_world)
     (3 \<mapsto> \<lparr>ctx_metadata = [], ctx_parent = Some 2\<rparr>), stack_top := 4\<rparr>"

theorem nested_handler_refused_witness:
  "\<exists>w'. RequestHandler_Process (handler_processor\<lparr>pr_context := 3\<rparr>) (\<lambda>ctx. ret Status_OK) nested_handler_world
     = Some (Inl (LogicError ''I cannot be one of my ancestors''), w')"
proof -
  have ok: "stack_ok 4 nested_handler_world"
    using handler_world_ok unfolding stack_ok_def nested_handler_world_def
    by (auto split: if_splits)
  let ?h = "contexts nested_handler_world"
  have h: "?h 3 = Some \<lparr>ctx_metadata = [], ctx_parent = Some 2\<rparr>"
    "?h 2 = Some \<lparr>ctx_metadata = [(''scope'', ''read'')], ctx_parent = Some ThreadLocalContext\<rparr>"
    "?h ThreadLocalContext = Some \<lparr>ctx_metadata = [], ctx_parent = Some GlobalContext\<rparr>"
    "?h GlobalContext = Some \<lparr>ctx_metadata = [], ctx_parent = None\<rparr>"
    using handler_world_contexts
    by (simp_all add: nested_handler_world_def) (simp_all add: ThreadLocalContext_def GlobalContext_def)
  have "getAllParents ?h GlobalContext = Some {}" by (subst getAllParents.simps) (simp add: h)
  then have "getAllParents ?h ThreadLocalContext = Some {GlobalContext}"
    by (subst getAllParents.simps) (simp add: h)
  then have "getAllParents ?h 2 = Some {ThreadLocalContext, GlobalContext}"
    by (subst getAllParents.simps) (simp add: h)
  then have "getAllParents ?h 3 = Some {2, ThreadLocalContext, GlobalContext}"
    by (subst getAllParents.simps) (simp add: h)
  moreover have "contexts nested_handler_world (pr_context (handler_processor\<lparr>pr_context := 3\<rparr>))
      = Some \<lparr>ctx_metadata = [], ctx_parent = Some 2\<rparr>"
    by (simp add: nested_handler_world_def)
  moreover have "contexts nested_handler_world ThreadLocalContext
      = Some \<lparr>ctx_metadata = [], ctx_parent = Some GlobalContext\<rparr>"
    using handler_world_contexts by (simp add: nested_handler_world_def ThreadLocalContext_def)
  ultimately show ?thesis
    using nested_handler_refused [OF ok, of "handler_processor\<lparr>pr_context := 3\<rparr>"]
    by (simp add: ThreadLocalContext_def)
qed

end
