(* ===== verification/Mse_Hook_Rules.thy ===== *)
theory Mse_Hook_Rules
  imports Mse_Request_Hook
begin

text \<open>
  Rules for hooks that follow the result of a request through \<open>RequestHook::Process\<close>: \<open>before\<close>
  holds at the start, \<open>inside\<close> before and \<open>finished\<close> behind the wrapped function, \<open>after\<close> at the end. They hold with
  every logger, as the log statements keep these conditions (\<open>log_stable\<close>).
\<close>

lemma log_stable_stack_ok [simp]: "log_stable n (stack_ok n)"
  by (simp add: log_stable_def)

lemma hoare_default_pre: "hoare I (default_pre_process ctx) (\<lambda>r w. (\<exists>s. r = Inr s \<and> succeeded s) \<and> I w)"
  by (simp add: default_pre_process_def hoare_ret)

lemma hoare_default_post:
  "code status \<noteq> SC_invalid \<Longrightarrow> hoare I (default_post_process ctx status)
     (\<lambda>r w. r = Inr status \<and> (\<forall>s. r = Inr s \<longrightarrow> code s \<noteq> SC_invalid) \<and> I w)"
  by (simp add: default_post_process_def hoare_ret)

lemma hoare_failed:
  assumes "log_stable n I" and "code s \<noteq> SC_invalid"
  shows "hoare I (if succeeded s then ret () else log_status line prefix s) (\<lambda>r w. r = Inr () \<and> I w)"
  by (rule hoare_if [OF hoare_ret hoare_weaken [OF hoare_log_status [OF assms(1)]]]) (simp_all add: assms(2))

text \<open>The part of the protocol after a \<open>pre_process\<close> that let the request pass.\<close>

definition run_request ::
    "string \<Rightarrow> (addr \<Rightarrow> Status \<Rightarrow> ('u world, Status) comp) \<Rightarrow> 'u func \<Rightarrow> 'u func" where
  "run_request name post func ctx =
     thenC (hook_log 24 (''processing by '' @ name))
       (bindC (tryC (func ctx)) (\<lambda>result.
         case result of
           Inl e \<Rightarrow> RequestHook_recover name post ctx e
         | Inr status \<Rightarrow> RequestHook_complete name post ctx status))"

lemma hoare_enter_request:
  assumes stable: "log_stable n before"
    and pre: "hoare before (pre ctx) (\<lambda>r w. (\<exists>s. r = Inr s \<and> succeeded s) \<and> inside w)"
    and run: "hoare inside (run_request name post func ctx) R"
  shows "hoare before (RequestHook_Process name pre post func ctx) R"
  unfolding RequestHook_Process_def
proof (rule hoare_thenC [OF hoare_hook_log [OF stable] hoare_strengthen [OF hoare_bindC [OF pre]]])
  show "hoare (\<lambda>w. (\<exists>s. Inr x = Inr s \<and> succeeded s) \<and> inside w)
      (if \<not> succeeded x then thenC (log_status 20 ''preprocessing failed with status '' x) (ret x)
       else thenC (hook_log 24 (''processing by '' @ name)) (bindC (tryC (func ctx)) (\<lambda>result.
         case result of Inl e \<Rightarrow> RequestHook_recover name post ctx e
         | Inr status \<Rightarrow> RequestHook_complete name post ctx status))) R" for x
    using run by (cases "succeeded x") (simp_all add: run_request_def hoare_def)
qed simp_all

text \<open>
  The general rule: \<open>finished\<close> relates the result of the function to the state behind it, \<open>after\<close> the
  result of the hook to the state at the end. An exception is answered with the placeholder
  status by \<open>post_process\<close>, which may raise another one or replace it by a status.
\<close>

lemma hoare_pass:
  assumes stable: "log_stable n before" "log_stable n inside" "\<And>r. log_stable n (finished r)"
      "\<And>s. log_stable n (after (Inr s))"
    and pre: "hoare before (pre ctx) (\<lambda>r w. (\<exists>s. r = Inr s \<and> succeeded s) \<and> inside w)"
    and func: "hoare inside (func ctx) finished"
    and valid: "\<And>s w. finished (Inr s) w \<Longrightarrow> code s \<noteq> SC_invalid"
    and post: "\<And>s. code s \<noteq> SC_invalid \<Longrightarrow> hoare (finished (Inr s)) (post ctx s)
      (\<lambda>r w. (\<forall>s. r = Inr s \<longrightarrow> code s \<noteq> SC_invalid) \<and> after r w)"
    and post_exn: "\<And>e. hoare (finished (Inl e)) (post ctx (Status_of SC_invalid ''exception during request''))
      (\<lambda>r w. after (case r of Inl e' \<Rightarrow> Inl e' | Inr s \<Rightarrow> if code s = SC_invalid then Inl e else Inr s) w)"
  shows "hoare before (RequestHook_Process name pre post func ctx) after"
proof (rule hoare_enter_request [where inside = inside], rule stable(1), rule pre)
  note log = hoare_hook_log [OF stable(2)]
  have last: "hoare (\<lambda>w. code s \<noteq> SC_invalid \<and> after (Inr s) w)
      (thenC (if succeeded s then ret () else log_status 63 ''postprocessing failed with status '' s)
        (thenC (hook_log 67 (''completely processed by '' @ name)) (ret s))) after" for s
  proof (cases "code s \<noteq> SC_invalid")
    case True
    note log' = hoare_hook_log [OF stable(4), of s]
    show ?thesis
      by (rule hoare_strengthen [OF hoare_thenC [OF hoare_failed [OF stable(4) True]
            hoare_strengthen [OF hoare_thenC [OF log' hoare_ret]]]]) auto
  qed (simp add: hoare_def)
  have complete: "hoare (\<lambda>w. finished (Inr s) w) (RequestHook_complete name post ctx s) after" for s
  proof (cases "code s = SC_invalid")
    case False
    note log1 = hoare_hook_log [OF stable(3), of "Inr s"]
    show ?thesis
      unfolding RequestHook_complete_def
      by (rule hoare_thenC [OF hoare_failed [OF stable(3) False] hoare_strengthen [OF hoare_thenC [OF log1
            hoare_strengthen [OF hoare_bindC [OF post [OF False] hoare_strengthen [OF last]]]]]]) auto
  qed (use valid in \<open>auto simp: hoare_def\<close>)
  have recover: "hoare (finished (Inl e)) (RequestHook_recover name post ctx e) after" for e
  proof -
    note log2 = hoare_hook_log [OF stable(3), of "Inl e"]
    have finish: "hoare (\<lambda>w. after (if code s = SC_invalid then Inl e else Inr s) w)
        (if code s = SC_invalid then throw e
         else thenC (hook_log l m) (ret s)) after" for s l m
    proof (cases "code s = SC_invalid")
      case False
      show ?thesis using False
        by (simp, intro hoare_thenC [OF hoare_hook_log [OF stable(4), of s] hoare_ret]) simp_all
    qed (simp add: hoare_throw)
    show ?thesis
      unfolding RequestHook_recover_def
      by (rule hoare_thenC [OF hoare_if [OF log2 log2] hoare_strengthen [OF hoare_bindC [OF post_exn
            hoare_strengthen [OF finish]]]]) auto
  qed
  have run: "hoare (\<lambda>w. \<exists>x. Inr result = Inr x \<and> finished x w)
     (case result of Inl e \<Rightarrow> RequestHook_recover name post ctx e
      | Inr status \<Rightarrow> RequestHook_complete name post ctx status) after" for result
    using complete recover by (cases result) (simp_all add: hoare_def)
  show "hoare inside (run_request name post func ctx) after"
    unfolding run_request_def
    by (rule hoare_thenC [OF log hoare_strengthen [OF hoare_bindC [OF hoare_tryC [OF func] run]]]) simp_all
qed

text \<open>The case of a function with one known status.\<close>

lemma hoare_pass_status:
  assumes stable: "log_stable n before" "log_stable n inside" "log_stable n finished" "log_stable n after"
    and valid: "code status \<noteq> SC_invalid"
    and pre: "hoare before (pre ctx) (\<lambda>r w. (\<exists>s. r = Inr s \<and> succeeded s) \<and> inside w)"
    and func: "hoare inside (func ctx) (\<lambda>r w. r = Inr status \<and> finished w)"
    and post: "hoare finished (post ctx status) (\<lambda>r w. Q r \<and> (\<forall>s. r = Inr s \<longrightarrow> code s \<noteq> SC_invalid) \<and> after w)"
  shows "hoare before (RequestHook_Process name pre post func ctx) (\<lambda>r w. Q r \<and> after w)"
proof (rule hoare_pass [where n = n and inside = inside and finished = "\<lambda>r w. r = Inr status \<and> finished w"])
  fix s
  show "hoare (\<lambda>w. Inr s = Inr status \<and> finished w) (post ctx s)
      (\<lambda>r w. (\<forall>s. r = Inr s \<longrightarrow> code s \<noteq> SC_invalid) \<and> Q r \<and> after w)"
    using post by (cases "s = status") (auto simp: hoare_def)
  show "code s \<noteq> SC_invalid" if "Inr s = Inr status \<and> finished w" for w using that valid by simp
qed (use stable in \<open>simp_all add: pre func log_stable_def hoare_def [of "\<lambda>w. False"]\<close>)

text \<open>A hook that overrides \<open>pre_process\<close> only passes every result.\<close>

lemma hoare_pass_result:
  assumes "log_stable n before" and "log_stable n inside" and "\<And>r. log_stable n (finished r)"
    and "hoare before (pre ctx) (\<lambda>r w. (\<exists>s. r = Inr s \<and> succeeded s) \<and> inside w)"
    and "hoare inside (func ctx) finished"
    and "\<And>s w. finished (Inr s) w \<Longrightarrow> code s \<noteq> SC_invalid"
  shows "hoare before (RequestHook_Process name pre default_post_process func ctx) finished"
  by (rule hoare_pass [where n = n and inside = inside and finished = finished])
    (use assms in \<open>simp_all add: default_post_process_def hoare_ret\<close>)

lemma hoare_pass_answer:
  assumes "log_stable n before" and "log_stable n inside" and "log_stable n finished"
    and "code status \<noteq> SC_invalid"
    and "hoare before (pre ctx) (\<lambda>r w. (\<exists>s. r = Inr s \<and> succeeded s) \<and> inside w)"
    and "hoare inside (func ctx) (\<lambda>r w. r = Inr status \<and> finished w)"
  shows "hoare before (RequestHook_Process name pre default_post_process func ctx) (\<lambda>r w. r = Inr status \<and> finished w)"
  by (rule hoare_pass_result [where n = n and inside = inside]) (use assms in \<open>auto simp: log_stable_def\<close>)

text \<open>An exception that \<open>post_process\<close> leaves alone passes through; one that it raises replaces it.\<close>

lemma hoare_pass_exception:
  assumes stable: "log_stable n before" "log_stable n inside"
    and pre: "hoare before (pre ctx) (\<lambda>r w. (\<exists>s. r = Inr s \<and> succeeded s) \<and> inside w)"
    and func: "hoare inside (func ctx) (\<lambda>r w. r = Inl e \<and> inside w)"
    and post: "hoare inside (post ctx (Status_of SC_invalid ''exception during request''))
      (\<lambda>r w. (case r of Inl e' \<Rightarrow> Q (Inl e') | Inr s \<Rightarrow> code s = SC_invalid \<and> Q (Inl e)) \<and> after w)"
  shows "hoare before (RequestHook_Process name pre post func ctx) (\<lambda>r w. Q r \<and> after w)"
proof (rule hoare_weaken)
  let ?after = "\<lambda>r w. isl r \<and> Q r \<and> after w"
  show "hoare before (RequestHook_Process name pre post func ctx) ?after"
  proof (rule hoare_pass [where n = n and inside = inside and finished = "\<lambda>r w. r = Inl e \<and> inside w"])
    fix e'
    show "hoare (\<lambda>w. Inl e' = Inl e \<and> inside w) (post ctx (Status_of SC_invalid ''exception during request''))
        (\<lambda>r w. ?after (case r of Inl e'' \<Rightarrow> Inl e'' | Inr s \<Rightarrow> if code s = SC_invalid then Inl e' else Inr s) w)"
    proof (cases "e' = e")
      case True
      show ?thesis by (rule hoare_weaken, rule hoare_strengthen, rule post) (auto simp: True split: sum.splits)
    qed (simp add: hoare_def)
  qed (use stable in \<open>simp_all add: pre func log_stable_def hoare_def [of "\<lambda>w. False"]\<close>)
qed simp

text \<open>A \<open>pre_process\<close> that refuses the request decides its status; the function does not run.\<close>

lemma hoare_refuse:
  assumes stable: "log_stable n before" "log_stable n after"
    and s: "\<not> succeeded s" "code s \<noteq> SC_invalid"
    and pre: "hoare before (pre ctx) (\<lambda>r w. r = Inr s \<and> after w)"
  shows "hoare before (RequestHook_Process name pre post func ctx) (\<lambda>r w. r = Inr s \<and> after w)"
  unfolding RequestHook_Process_def
proof (rule hoare_thenC [OF hoare_hook_log [OF stable(1)] hoare_strengthen [OF hoare_bindC [OF pre]]])
  have refused: "hoare after (thenC (log_status 20 ''preprocessing failed with status '' s) (ret s))
      (\<lambda>r w. r = Inr s \<and> after w)"
    by (rule hoare_thenC [OF hoare_log_status [OF stable(2)] hoare_ret]) (simp_all add: s)
  show "hoare (\<lambda>w. Inr x = Inr s \<and> after w)
      (if \<not> succeeded x then thenC (log_status 20 ''preprocessing failed with status '' x) (ret x)
       else thenC (hook_log 24 (''processing by '' @ name)) (bindC (tryC (func ctx)) (\<lambda>result.
         case result of Inl e \<Rightarrow> RequestHook_recover name post ctx e
         | Inr status \<Rightarrow> RequestHook_complete name post ctx status))) (\<lambda>r w. r = Inr s \<and> after w)" for x
    using refused s(1) by (cases "x = s") (simp_all add: hoare_def)
qed simp_all

end
