(* ===== verification/Mse_Retry.thy ===== *)
theory Mse_Retry
  imports Complex_Main Mse_Request_Processor Mse_Hook_Rules "HOL-Library.Word"
begin

text \<open>
  \<open>reliability/retry-request-hook\<close>: backoff strategies and the hook that runs a request again
  when it fails with certain codes. Durations are in milliseconds and exact (the code has
  doubles); retry counters are 32 bit words. The members that one \<open>Process\<close> sets for its
  \<open>post_process\<close> (start time, counter, function) are arguments here: they are not read by
  anything else, and the next \<open>Process\<close> sets them again.
\<close>

subsection \<open>Strategies\<close>

type_synonym 'u strategy = "32 word \<Rightarrow> rat \<Rightarrow> ('u world, rat option) comp"

definition getDurationUntilNextRetry :: "32 word \<Rightarrow> 32 word \<Rightarrow> rat \<Rightarrow> rat \<Rightarrow> rat option" where
  "getDurationUntilNextRetry retry_count max_retry_count total_request_duration max_total_request_duration =
     (if max_retry_count < retry_count then None
      else if max_total_request_duration < total_request_duration then Some 0
      else Some (max_total_request_duration - total_request_duration))"

definition LinearRetryBackoff :: "32 word \<Rightarrow> rat \<Rightarrow> 'u strategy" where
  "LinearRetryBackoff max_retry_count retry_interval retry_count total_request_duration =
     ret (getDurationUntilNextRetry retry_count max_retry_count total_request_duration
            (retry_interval * of_nat (unat retry_count)))"

fun exponential_total :: "rat \<Rightarrow> rat \<Rightarrow> nat \<Rightarrow> rat" where
  "exponential_total first_retry_interval base 0 = 0"
| "exponential_total first_retry_interval base (Suc i) =
     exponential_total first_retry_interval base i + first_retry_interval * base ^ i"

definition ExponentialRetryBackoff :: "32 word \<Rightarrow> rat \<Rightarrow> rat \<Rightarrow> 'u strategy" where
  "ExponentialRetryBackoff max_retry_count first_retry_interval base retry_count total_request_duration =
     ret (getDurationUntilNextRetry retry_count max_retry_count total_request_duration
            (exponential_total first_retry_interval base (unat retry_count)))"

text \<open>A sample of the normal distribution, from the static generator, is \<open>draw mean sigma\<close>.\<close>

definition BackoffGaussianJitterDecorator ::
    "(rat \<Rightarrow> rat \<Rightarrow> ('u world, rat) comp) \<Rightarrow> 'u strategy \<Rightarrow> rat \<Rightarrow> 'u strategy" where
  "BackoffGaussianJitterDecorator draw strategy sigma retry_count total_request_duration =
     bindC (strategy retry_count total_request_duration) (\<lambda>duration.
       case duration of
         None \<Rightarrow> ret None
       | Some d \<Rightarrow> bindC (draw d sigma) (\<lambda>x. ret (Some x)))"

subsection \<open>The hook\<close>

text \<open>A duration between two readings of the clock, and a sleep: both clocks advance.\<close>

definition ms_between :: "int \<Rightarrow> int \<Rightarrow> rat" where
  "ms_between start now = of_int (now - start) / 1000000"

definition sleep_ns :: "rat \<Rightarrow> int" where
  "sleep_ns d = max 0 (ceiling (d * 1000000))"

definition sleep_for :: "rat \<Rightarrow> ('u world, unit) comp" where
  "sleep_for d = modifyC (\<lambda>w. w\<lparr>system_clock := system_clock w + sleep_ns d,
                                steady_clock := steady_clock w + sleep_ns d\<rparr>)"

text \<open>\<open>std::to_string\<close> of a double: six digits after the point.\<close>

definition show_fixed :: "rat \<Rightarrow> string" where
  "show_fixed d =
     (let n = nat (round (\<bar>d\<bar> * 1000000));
          frac = show_nat (n mod 1000000)
      in (if d < 0 then ''-'' else '''') @ show_nat (n div 1000000) @ ''.''
         @ replicate (6 - length frac) (CHR ''0'') @ frac)"

record 'u RetryParameters =
  backoff_strategy :: "'u strategy"
  retry_error_codes :: "StatusCode set"

definition default_retry_error_codes :: "StatusCode set" where
  "default_retry_error_codes = {SC_unavailable, SC_resource_exhausted, SC_internal, SC_unknown}"

definition retry_log :: "int \<Rightarrow> Status \<Rightarrow> (string \<Rightarrow> string) \<Rightarrow> ('u world, unit) comp" where
  "retry_log line status message =
     bindC (liftE (StatusCode_to_string (code status))) (\<lambda>c.
       mse_log ''retry-request-hook.cpp'' ''post_process'' line LL_trace (message c))"

lemma RequestHook_Process_mono [partial_function_mono]:
  fixes post :: "('x \<Rightarrow> 'y option) \<Rightarrow> addr \<Rightarrow> Status \<Rightarrow> ('u world, Status) comp"
  assumes "\<And>ctx s w. mono_option (\<lambda>f. post f ctx s w)"
  shows "mono_option (\<lambda>f. RequestHook_Process name pre (post f) func ctx w)"
proof -
  have recover: "mono_option (\<lambda>f. RequestHook_recover name (post f) ctx e w)" for e w
    unfolding RequestHook_recover_def
    by (intro bindC_mono thenC_mono assms option.const_mono)
  have complete: "mono_option (\<lambda>f. RequestHook_complete name (post f) ctx s w)" for s w
    unfolding RequestHook_complete_def
    by (intro bindC_mono thenC_mono assms option.const_mono)
  have result: "mono_option (\<lambda>f. (case r of Inl e \<Rightarrow> RequestHook_recover name (post f) ctx e
      | Inr status \<Rightarrow> RequestHook_complete name (post f) ctx status) w)" for r w
    by (cases r) (simp_all add: recover complete)
  have succ: "mono_option (\<lambda>f. (if \<not> succeeded s then thenC (log_status 20 ''preprocessing failed with status '' s) (ret s)
      else thenC (hook_log 24 (''processing by '' @ name)) (bindC (tryC (func ctx)) (\<lambda>result.
         case result of Inl e \<Rightarrow> RequestHook_recover name (post f) ctx e
           | Inr status \<Rightarrow> RequestHook_complete name (post f) ctx status))) w)" for s w
    by (cases "succeeded s")
      (simp_all, intro bindC_mono thenC_mono result option.const_mono, intro option.const_mono)
  show ?thesis
    unfolding RequestHook_Process_def
    by (intro bindC_mono thenC_mono option.const_mono succ)
qed

partial_function (option) Retry_post_process ::
    "'u RetryParameters \<Rightarrow> 'u func \<Rightarrow> int \<Rightarrow> 32 word \<Rightarrow> addr \<Rightarrow> Status \<Rightarrow> 'u world \<Rightarrow>
     ((exn + Status) \<times> 'u world) option" where
  "Retry_post_process ps func start counter ctx status w =
     (if code status \<notin> retry_error_codes ps then ret status
      else bindC (getC system_clock) (\<lambda>now.
        bindC (backoff_strategy ps (counter + 1) (ms_between start now)) (\<lambda>duration.
          if duration = None then
            thenC (retry_log 121 status (\<lambda>c. ''Retrying request failed with '' @ c @ '' after ''
                     @ show_nat (unat (counter + 1)) @ '' retries. No further retry requested.''))
                  (ret status)
          else
            thenC (retry_log 126 status (\<lambda>c. ''Request returned '' @ c @ ''. Retry #''
                     @ show_nat (unat (counter + 1)) @ '' in '' @ show_fixed (the duration) @ '' ms.''))
            (thenC (sleep_for (the duration))
              (\<lambda>w. RequestHook_Process ''retry'' default_pre_process
                     (\<lambda>ctx status w. Retry_post_process ps func start (counter + 1) ctx status w)
                     func ctx w))))) w"

lemma Retry_post_process_step:
  "Retry_post_process ps func start counter ctx status =
     (if code status \<notin> retry_error_codes ps then ret status
      else bindC (getC system_clock) (\<lambda>now.
        bindC (backoff_strategy ps (counter + 1) (ms_between start now)) (\<lambda>duration.
          if duration = None then
            thenC (retry_log 121 status (\<lambda>c. ''Retrying request failed with '' @ c @ '' after ''
                     @ show_nat (unat (counter + 1)) @ '' retries. No further retry requested.''))
                  (ret status)
          else
            thenC (retry_log 126 status (\<lambda>c. ''Request returned '' @ c @ ''. Retry #''
                     @ show_nat (unat (counter + 1)) @ '' in '' @ show_fixed (the duration) @ '' ms.''))
            (thenC (sleep_for (the duration))
              (RequestHook_Process ''retry'' default_pre_process
                 (Retry_post_process ps func start (counter + 1)) func ctx)))))"
  by (rule ext) (rule Retry_post_process.simps)

definition RetryRequestHook_Process :: "'u RetryParameters \<Rightarrow> 'u func \<Rightarrow> 'u func" where
  "RetryRequestHook_Process ps func ctx =
     bindC (getC system_clock) (\<lambda>start.
       RequestHook_Process ''retry'' default_pre_process (Retry_post_process ps func start 0) func ctx)"

definition RetryRequestHook :: "'u RetryParameters \<Rightarrow> 'u hook" where
  "RetryRequestHook ps = process_hook ''retry'' (RetryRequestHook_Process ps)"

subsection \<open>Requests that are not retried\<close>

lemma Retry_post_other:
  "code status \<notin> retry_error_codes ps \<Longrightarrow> Retry_post_process ps func start counter ctx status = ret status"
  by (simp add: Retry_post_process_step fun_eq_iff)

lemma hoare_retry_once:
  assumes stable: "log_stable n P" "\<And>r. log_stable n (Q r)" and func: "hoare P (func ctx) Q"
    and once: "\<And>s w. Q (Inr s) w \<Longrightarrow> code s \<noteq> SC_invalid \<and> code s \<notin> retry_error_codes ps"
    and invalid: "SC_invalid \<notin> retry_error_codes ps"
  shows "hoare P (RetryRequestHook_Process ps func ctx) Q"
proof -
  have "hoare P (RequestHook_Process ''retry'' default_pre_process (Retry_post_process ps func start 0) func ctx) Q" for start
  proof (rule hoare_pass [where n = n and inside = P and finished = Q])
    show "hoare (Q (Inr s)) (Retry_post_process ps func start 0 ctx s) (\<lambda>r w. (\<forall>s. r = Inr s \<longrightarrow> code s \<noteq> SC_invalid) \<and> Q r w)"
      if "code s \<noteq> SC_invalid" for s
      using once by (cases "code s \<in> retry_error_codes ps") (auto simp: Retry_post_other that hoare_def ret_apply)
    show "hoare (Q (Inl e)) (Retry_post_process ps func start 0 ctx (Status_of SC_invalid ''exception during request''))
        (\<lambda>r w. Q (case r of Inl e' \<Rightarrow> Inl e' | Inr s \<Rightarrow> if code s = SC_invalid then Inl e else Inr s) w)" for e
      using invalid by (simp add: Retry_post_other hoare_def ret_apply)
  qed (use stable func once in \<open>simp_all add: hoare_default_pre\<close>)
  then show ?thesis
    by (auto simp: RetryRequestHook_Process_def hoare_def bindC_def getC_def)
qed

text \<open>A request that fails once, is retried after \<open>x\<close> milliseconds, and is not retried again.\<close>

lemma hoare_retry_log:
  assumes "log_stable n I" and "code s \<noteq> SC_invalid"
  shows "hoare I (retry_log line s message) (\<lambda>r w. r = Inr () \<and> I w)"
proof (rule hoareI)
  fix w assume w: "I w"
  then have "stack_ok n w" using assms(1) by (simp add: log_stable_def)
  from StatusCode_to_string_valid [OF assms(2)] obtain c where c: "StatusCode_to_string (code s) = Inr c" ..
  obtain out where "mse_log ''retry-request-hook.cpp'' ''post_process'' line LL_trace (message c) w
      = Some (Inr (), w\<lparr>console := console w @ out\<rparr>)"
    using mse_log_run [OF stack_ok_world [OF \<open>stack_ok n w\<close>], of LL_trace] by fastforce
  then show "\<exists>r w'. retry_log line s message w = Some (r, w') \<and> r = Inr () \<and> I w'"
    using w assms(1) by (simp add: retry_log_def c bindC_Inr liftE_apply log_stable_def)
qed

lemma hoare_retry_twice:
  assumes stable: "log_stable n P" "log_stable n F" "log_stable n P2" "log_stable n G"
    and strategy: "\<And>duration. backoff_strategy ps 1 duration = ret (Some x)"
    and s1: "code s1 \<noteq> SC_invalid" "code s1 \<in> retry_error_codes ps" and s2: "code s2 \<noteq> SC_invalid" "code s2 \<notin> retry_error_codes ps"
    and first: "hoare P (func ctx) (\<lambda>r w. r = Inr s1 \<and> F w)"
    and sleep: "hoare F (sleep_for x) (\<lambda>r w. r = Inr () \<and> P2 w)"
    and second: "hoare P2 (func ctx) (\<lambda>r w. r = Inr s2 \<and> G w)"
  shows "hoare P (RetryRequestHook_Process ps func ctx) (\<lambda>r w. r = Inr s2 \<and> G w)"
proof -
  have again: "hoare P2 (RequestHook_Process ''retry'' default_pre_process (Retry_post_process ps func start 1) func ctx)
      (\<lambda>r w. r = Inr s2 \<and> G w)" for start
    by (rule hoare_pass_status [where inside = P2 and finished = G and status = s2 and n = n])
      (use stable s2 second in \<open>simp_all add: hoare_default_pre Retry_post_other hoare_ret\<close>)
  have post: "hoare F (Retry_post_process ps func start 0 ctx s1) (\<lambda>r w. r = Inr s2 \<and> G w)" for start
  proof -
    have "hoare F (thenC (retry_log 126 s1 m) (thenC (sleep_for x)
        (RequestHook_Process ''retry'' default_pre_process (Retry_post_process ps func start 1) func ctx)))
        (\<lambda>r w. r = Inr s2 \<and> G w)" for m
      by (rule hoare_then_value [OF hoare_retry_log [OF stable(2) s1(1)]], rule hoare_then_value [OF sleep], rule again)
    then have "hoare F (bindC (getC system_clock) (\<lambda>now. bindC (ret (Some x)) (\<lambda>duration.
          if duration = None then K now
          else thenC (retry_log 126 s1 (M duration)) (thenC (sleep_for (the duration))
            (RequestHook_Process ''retry'' default_pre_process (Retry_post_process ps func start 1) func ctx)))))
        (\<lambda>r w. r = Inr s2 \<and> G w)" for M K
      by (simp add: hoare_def bindC_def getC_def ret_def)
    then show ?thesis
      using s1(2) by (subst Retry_post_process_step) (simp only: strategy not_not if_False if_True simp_thms add_0)
  qed
  have "hoare P (RequestHook_Process ''retry'' default_pre_process (Retry_post_process ps func start 0) func ctx)
      (\<lambda>r w. r = Inr s2 \<and> G w)" for start
    by (rule hoare_pass_status [where inside = P and finished = F and status = s1 and n = n])
      (use stable s1 s2 first in \<open>simp_all add: hoare_default_pre hoare_weaken [OF post]\<close>)
  then show ?thesis
    by (auto simp: RetryRequestHook_Process_def hoare_def bindC_def getC_def)
qed

subsection \<open>The cost of a hook\<close>

lemma costs_mse_log:
  assumes "level \<noteq> LL_invalid"
  shows "costs (stack_ok n) (\<lambda>w. calls (app w)) k (mse_log file place line level message)"
proof (rule costsI)
  fix w :: "'a world" assume w: "stack_ok n w"
  obtain out where "mse_log file place line level message w = Some (Inr (), w\<lparr>console := console w @ out\<rparr>)"
    using mse_log_run [OF stack_ok_world [OF w] assms] by blast
  with w show "\<exists>r w'. mse_log file place line level message w = Some (r, w') \<and> stack_ok n w' \<and>
      calls (app w') \<le> calls (app w) + k" by simp
qed

lemma costs_hook_log: "costs (stack_ok n) (\<lambda>w. calls (app w)) k (hook_log line message)"
  unfolding hook_log_def by (rule costs_mse_log) simp

lemma costs_log_status: "costs (stack_ok n) (\<lambda>w. calls (app w)) k (log_status line prefix s)"
  unfolding log_status_def by (intro costs_bindC_0 costs_liftE costs_hook_log)

lemma costs_RequestHook_recover:
  assumes "\<And>s. costs (stack_ok n) (\<lambda>w. calls (app w)) k (post ctx s)"
  shows "costs (stack_ok n) (\<lambda>w. calls (app w)) k (RequestHook_recover name post ctx e)"
proof -
  have "costs (stack_ok n) (\<lambda>w. calls (app w)) (k + 0) (bindC (post ctx (Status_of SC_invalid ''exception during request''))
      (\<lambda>status. if code status = SC_invalid then throw e
        else thenC (hook_log (if caught_as T_exception e then 39 else 50)
                      (''completely processed by '' @ name @ ''after recovering from exception''))
                   (ret status)))"
    by (intro costs_bindC assms costs_if costs_throw costs_thenC_0 costs_hook_log costs_ret)
  then show ?thesis
    unfolding RequestHook_recover_def by (intro costs_thenC_0 costs_if costs_hook_log) simp
qed

lemma costs_RequestHook_complete:
  assumes "\<And>s. costs (stack_ok n) (\<lambda>w. calls (app w)) k (post ctx s)"
  shows "costs (stack_ok n) (\<lambda>w. calls (app w)) k (RequestHook_complete name post ctx status)"
proof -
  have "costs (stack_ok n) (\<lambda>w. calls (app w)) (k + 0) (bindC (post ctx status) (\<lambda>status.
        thenC (if succeeded status then ret () else log_status 63 ''postprocessing failed with status '' status)
        (thenC (hook_log 67 (''completely processed by '' @ name)) (ret status))))"
    by (intro costs_bindC assms costs_if costs_thenC_0 costs_hook_log costs_log_status costs_ret)
  then show ?thesis
    unfolding RequestHook_complete_def
    by (intro costs_thenC_0 costs_if costs_hook_log costs_log_status costs_ret) simp
qed

lemma costs_RequestHook_Process:
  assumes pre: "costs (stack_ok n) (\<lambda>w. calls (app w)) 0 (pre ctx)"
    and func: "costs (stack_ok n) (\<lambda>w. calls (app w)) j (func ctx)"
    and post: "\<And>s. costs (stack_ok n) (\<lambda>w. calls (app w)) k (post ctx s)"
  shows "costs (stack_ok n) (\<lambda>w. calls (app w)) (j + k) (RequestHook_Process name pre post func ctx)"
  unfolding RequestHook_Process_def
  by (intro costs_thenC_0 costs_bindC_0 [OF pre] costs_bindC costs_if costs_hook_log costs_log_status
      costs_ret costs_tryC func costs_sum_case costs_RequestHook_recover costs_RequestHook_complete post)

subsection \<open>The contract of a strategy\<close>

text \<open>
  A strategy answers every question without calling the request and without touching the
  contexts, with \<open>nullopt\<close> from some count on; \<open>calls\<close> reads the number of calls of the request
  off the state of the application.
\<close>

lemma unat_Suc_less_max:
  assumes "(c :: 32 word) < - 1"
  shows "unat (c + 1) = Suc (unat c)"
  using assms by (simp add: word_less_nat_alt unat_word_ariths unsigned_minus_1_eq_mask mask_eq_exp_minus_1)

locale backoff =
  fixes strategy :: "'u strategy" and bound :: "32 word" and calls :: "'u \<Rightarrow> nat"
  assumes answers: "costs (stack_ok n) (\<lambda>w. calls (app w)) 0 (strategy c d)"
    and gives_up: "bound < c \<Longrightarrow> strategy c d = ret None"
begin

lemma costs_retry_log: "costs (stack_ok n) (\<lambda>w. calls (app w)) k (retry_log line status message)"
  unfolding retry_log_def by (intro costs_bindC_0 costs_liftE costs_mse_log) simp

lemma costs_sleep_for: "costs (stack_ok n) (\<lambda>w. calls (app w)) k (sleep_for d)"
  by (rule costsI) (simp add: sleep_for_def modifyC_def)

lemma Retry_post_process_costs:
  assumes "bound < - 1" and "costs (stack_ok n) (\<lambda>w. calls (app w)) 1 (func ctx)"
    and "backoff_strategy ps = strategy"
  shows "unat counter \<le> unat bound \<Longrightarrow> costs (stack_ok n) (\<lambda>w. calls (app w)) (unat bound - unat counter)
      (Retry_post_process ps func start counter ctx status)"
proof (induction "unat bound - unat counter" arbitrary: counter status rule: less_induct)
  case less
  have "counter < - 1" using less.prems assms(1) by (simp add: word_le_nat_alt [symmetric])
  then have next_count: "unat (counter + 1) = Suc (unat counter)" by (rule unat_Suc_less_max)
  have again: "costs (stack_ok n) (\<lambda>w. calls (app w)) (unat bound - unat counter)
      (RequestHook_Process ''retry'' default_pre_process
         (\<lambda>ctx status w. Retry_post_process ps func start (counter + 1) ctx status w) func ctx)"
    if c: "counter + 1 \<le> bound"
  proof -
    have le: "unat (counter + 1) \<le> unat bound" using c by (simp add: word_le_nat_alt)
    have "costs (stack_ok n) (\<lambda>w. calls (app w)) (1 + (unat bound - unat (counter + 1)))
      (RequestHook_Process ''retry'' default_pre_process (Retry_post_process ps func start (counter + 1)) func ctx)"
      using next_count le
      by (intro costs_RequestHook_Process assms(2) less.hyps) (simp_all add: default_pre_process_def costs_ret)
    moreover have "1 + (unat bound - unat (counter + 1)) = unat bound - unat counter"
      using next_count le by simp
    ultimately show ?thesis by simp
  qed
  show ?case
  proof (cases "bound < counter + 1")
    case True
    have "Retry_post_process ps func start counter ctx status =
      (if code status \<notin> retry_error_codes ps then ret status
       else bindC (getC system_clock) (\<lambda>now.
         thenC (retry_log 121 status (\<lambda>c. ''Retrying request failed with '' @ c @ '' after ''
                     @ show_nat (unat (counter + 1)) @ '' retries. No further retry requested.''))
                  (ret status)))"
      unfolding Retry_post_process_step [of ps func start counter ctx status] assms(3) gives_up [OF True]
      by (simp add: bindC_ret_left)
    then show ?thesis by (simp add: costs_ret costs_bindC_0 costs_getC costs_thenC_0 costs_retry_log)
  next
    case False
    then have c: "counter + 1 \<le> bound" by simp
    show ?thesis
      unfolding Retry_post_process_step [of ps func start counter ctx status] assms(3)
      by (intro costs_if costs_ret costs_bindC_0 costs_getC answers costs_thenC_0 costs_retry_log
          costs_sleep_for again [OF c])
  qed
qed

lemma RetryRequestHook_Process_costs:
  assumes "bound < - 1" and "costs (stack_ok n) (\<lambda>w. calls (app w)) 1 (func ctx)"
    and "backoff_strategy ps = strategy"
  shows "costs (stack_ok n) (\<lambda>w. calls (app w)) (1 + unat bound) (RetryRequestHook_Process ps func ctx)"
proof -
  have "costs (stack_ok n) (\<lambda>w. calls (app w)) (unat bound - unat (0 :: 32 word))
      (Retry_post_process ps func start 0 ctx s)" for start s
    by (rule Retry_post_process_costs) (use assms in simp_all)
  then show ?thesis
    unfolding RetryRequestHook_Process_def
    by (intro costs_bindC_0 costs_getC costs_RequestHook_Process assms(2))
      (simp_all add: default_pre_process_def costs_ret)
qed

text \<open>Jitter on top of a strategy, with a generator that answers, keeps the contract.\<close>

lemma jitter_backoff:
  assumes "\<And>n mean sigma. costs (stack_ok n) (\<lambda>w. calls (app w)) 0 (draw mean sigma)"
  shows "backoff (BackoffGaussianJitterDecorator draw strategy sigma) bound calls"
proof
  show "costs (stack_ok n) (\<lambda>w. calls (app w)) 0 (BackoffGaussianJitterDecorator draw strategy sigma c d)" for n c d
    unfolding BackoffGaussianJitterDecorator_def
    by (intro costs_bindC_0 answers costs_option_case assms costs_ret)
  show "bound < c \<Longrightarrow> BackoffGaussianJitterDecorator draw strategy sigma c d = ret None" for c d
    by (simp add: BackoffGaussianJitterDecorator_def gives_up bindC_ret_left)
qed

end

interpretation linear: backoff "LinearRetryBackoff max_retry_count interval" max_retry_count calls
  by unfold_locales
    (simp_all add: LinearRetryBackoff_def getDurationUntilNextRetry_def costs_ret)

interpretation exponential: backoff "ExponentialRetryBackoff max_retry_count first base" max_retry_count calls
  by unfold_locales
    (simp_all add: ExponentialRetryBackoff_def getDurationUntilNextRetry_def costs_ret)

lemma keeps_sleep_for: "keeps (stack_ok n) (sleep_for d)"
  unfolding sleep_for_def by (rule keepsI) (auto simp: modifyC_def)

lemma keeps_retry_log: "keeps (stack_ok n) (retry_log line status message)"
  unfolding retry_log_def by (intro keeps_bindC keeps_liftE keeps_mse_log) simp

lemma Retry_post_process_stack:
  "Retry_post_process ps func start counter ctx status w = Some res \<Longrightarrow>
   keeps (stack_ok n) (func ctx) \<longrightarrow> (\<forall>c d. keeps (stack_ok n) (backoff_strategy ps c d)) \<longrightarrow>
   stack_ok n w \<longrightarrow> stack_ok n (snd res)"
proof (erule Retry_post_process.raw_induct [rotated], intro impI)
  fix again ps func start counter ctx status w res
  assume IH: "\<And>ps func start counter ctx status w res.
      again ps func start counter ctx status w = Some res \<Longrightarrow>
      keeps (stack_ok n) (func ctx) \<longrightarrow> (\<forall>c d. keeps (stack_ok n) (backoff_strategy ps c d)) \<longrightarrow>
      stack_ok n w \<longrightarrow> stack_ok n (snd res)"
    and func: "keeps (stack_ok n) (func ctx)"
    and strategy: "\<forall>c d. keeps (stack_ok n) (backoff_strategy ps c d)" and w: "stack_ok n w"
    and run: "(if code status \<notin> retry_error_codes ps then ret status
      else bindC (getC system_clock) (\<lambda>now.
        bindC (backoff_strategy ps (counter + 1) (ms_between start now)) (\<lambda>duration.
          if duration = None then
            thenC (retry_log 121 status (\<lambda>c. ''Retrying request failed with '' @ c @ '' after ''
                     @ show_nat (unat (counter + 1)) @ '' retries. No further retry requested.''))
                  (ret status)
          else
            thenC (retry_log 126 status (\<lambda>c. ''Request returned '' @ c @ ''. Retry #''
                     @ show_nat (unat (counter + 1)) @ '' in '' @ show_fixed (the duration) @ '' ms.''))
            (thenC (sleep_for (the duration))
              (RequestHook_Process ''retry'' default_pre_process (again ps func start (counter + 1)) func ctx))))) w
      = Some res" (is "?body w = _")
  have "keeps (stack_ok n) (again ps func start (counter + 1) ctx s)" for s
    by (rule keepsI) (use IH func strategy in fastforce)
  then have process: "keeps (stack_ok n)
      (RequestHook_Process ''retry'' default_pre_process (again ps func start (counter + 1)) func ctx)"
    using func by (intro keeps_RequestHook_Process) (simp_all add: default_pre_process_def keeps_ret)
  then have body: "keeps (stack_ok n) ?body"
    by (intro keeps_if keeps_ret keeps_bindC keeps_getC strategy [rule_format] keeps_thenC keeps_retry_log
        keeps_sleep_for)
  show "stack_ok n (snd res)"
    using keepsD [OF body, of w "fst res" "snd res"] run w by simp
qed

lemma Retry_stack_hook:
  assumes "\<And>n c d. keeps (stack_ok n) (backoff_strategy ps c d)"
  shows "stack_hook (RetryRequestHook ps)"
proof
  fix n ctx t and func :: "'a func" assume func: "keeps (stack_ok n) (func ctx)"
  have "keeps (stack_ok n) (Retry_post_process ps func start 0 ctx s)" for start s
    by (rule keepsI) (use Retry_post_process_stack func assms in fastforce)
  then show "keeps (stack_ok n) (hook_run (RetryRequestHook ps) t func ctx)"
    using func
    by (auto simp: RetryRequestHook_def process_hook_def RetryRequestHook_Process_def default_pre_process_def
        intro!: keeps_bindC keeps_getC keeps_RequestHook_Process keeps_ret)
qed

interpretation retry: stack_hook
  "RetryRequestHook \<lparr>backoff_strategy = ExponentialRetryBackoff max_retry_count first base, retry_error_codes = codes\<rparr>"
  by (rule Retry_stack_hook) (simp add: ExponentialRetryBackoff_def keeps_ret)

subsection \<open>The steps of a retry\<close>

lemma retry_log_run:
  assumes "stack_ok n w" and "code s \<noteq> SC_invalid"
  obtains out where "retry_log line s message w = Some (Inr (), w\<lparr>console := console w @ out\<rparr>)"
proof -
  obtain c where c: "StatusCode_to_string (code s) = Inr c" using assms(2) by (cases "code s") auto
  obtain out where "mse_log ''retry-request-hook.cpp'' ''post_process'' line LL_trace (message c) w
      = Some (Inr (), w\<lparr>console := console w @ out\<rparr>)"
    using mse_log_run [OF stack_ok_world [OF assms(1)], of LL_trace] by blast
  with c that show ?thesis by (simp add: retry_log_def comp_simps)
qed

lemma post_without_result:
  assumes w: "stack_ok n w" and func: "func ctx = ret s" and s: "code s \<noteq> SC_invalid"
    and post: "\<And>w1. stack_ok n w1 \<Longrightarrow> post ctx s w1 = None"
  shows "RequestHook_Process name default_pre_process post func ctx w = None"
proof -
  obtain o1 where l1: "hook_log 16 (''preprocessing by '' @ name) w = Some (Inr (), w\<lparr>console := o1\<rparr>)"
    by (rule hook_log_run [OF w]) blast
  have w1: "stack_ok n (w\<lparr>console := o1\<rparr>)" using w by simp
  obtain o2 where l2: "hook_log 24 (''processing by '' @ name) (w\<lparr>console := o1\<rparr>)
      = Some (Inr (), w\<lparr>console := o2\<rparr>)"
    by (rule hook_log_run [OF w1]) auto
  have w2: "stack_ok n (w\<lparr>console := o2\<rparr>)" using w by simp
  obtain o3 where l3: "(if succeeded s then ret () else log_status 56 ''processing failed with status '' s)
      (w\<lparr>console := o2\<rparr>) = Some (Inr (), w\<lparr>console := o3\<rparr>)"
  proof (cases "succeeded s")
    case True
    then show ?thesis using that [of o2] by (simp add: ret_apply)
  next
    case False
    then show ?thesis using that log_status_run [OF w2 s, of 56 "''processing failed with status ''"] by auto
  qed
  have w3: "stack_ok n (w\<lparr>console := o3\<rparr>)" using w by simp
  obtain o4 where l4: "hook_log 59 (''postprocessing by '' @ name) (w\<lparr>console := o3\<rparr>)
      = Some (Inr (), w\<lparr>console := o4\<rparr>)"
    by (rule hook_log_run [OF w3]) auto
  have "RequestHook_complete name post ctx s (w\<lparr>console := o2\<rparr>) = None"
    using post w l3 l4 by (simp add: RequestHook_complete_def thenC_Inr bindC_None del: if_split)
  moreover have "tryC (func ctx) (w\<lparr>console := o2\<rparr>) = Some (Inr (Inr s), w\<lparr>console := o2\<rparr>)"
    by (simp add: func tryC_def ret_def)
  ultimately show ?thesis
    using l1 l2
    by (simp add: RequestHook_Process_def thenC_Inr default_pre_process_def bindC_ret_left bindC_Inr)
qed

lemma ms_between_sleep:
  "ms_between start now + d \<le> ms_between start (now + sleep_ns d)"
proof -
  have "d * 1000000 \<le> of_int (sleep_ns d)"
    unfolding sleep_ns_def by (rule order_trans [OF le_of_int_ceiling]) simp
  then show ?thesis by (simp add: ms_between_def field_simps)
qed

lemma sleep_ns_nonneg: "0 \<le> sleep_ns d"
  by (simp add: sleep_ns_def)

text \<open>One more attempt of a schedule that asks for \<open>schedule\<close> milliseconds after the start.\<close>

lemma retry_after_schedule:
  assumes w: "stack_ok n w" and c: "code status \<in> retry_error_codes ps" "code status \<noteq> SC_invalid"
    and max: "counter + 1 \<le> max_count"
    and strategy: "\<And>d. backoff_strategy ps (counter + 1) d
      = ret (getDurationUntilNextRetry (counter + 1) max_count d schedule)"
  shows "\<exists>w1. Retry_post_process ps func start counter ctx status w =
      RequestHook_Process ''retry'' default_pre_process (Retry_post_process ps func start (counter + 1)) func ctx w1 \<and>
      schedule \<le> ms_between start (system_clock w1) \<and> stack_ok n w1 \<and> app w1 = app w \<and>
      contexts w1 = contexts w"
proof -
  let ?e = "ms_between start (system_clock w)"
  let ?d = "if schedule < ?e then 0 else schedule - ?e"
  have ans: "backoff_strategy ps (counter + 1) ?e = ret (Some ?d)"
    using max by (auto simp: strategy getDurationUntilNextRetry_def)
  obtain out where log: "retry_log 126 status (\<lambda>c. ''Request returned '' @ c @ ''. Retry #''
      @ show_nat (unat (counter + 1)) @ '' in '' @ show_fixed ?d @ '' ms.'') w
      = Some (Inr (), w\<lparr>console := console w @ out\<rparr>)"
    by (rule retry_log_run [OF w c(2)])
  let ?w1 = "w\<lparr>console := console w @ out, system_clock := system_clock w + sleep_ns ?d,
      steady_clock := steady_clock w + sleep_ns ?d\<rparr>"
  have "Retry_post_process ps func start counter ctx status w =
      RequestHook_Process ''retry'' default_pre_process (Retry_post_process ps func start (counter + 1)) func ctx ?w1"
    unfolding Retry_post_process_step [of ps func start counter ctx status]
    using c(1) ans log by (simp add: bindC_Inr getC_apply bindC_ret_left thenC_Inr sleep_for_def modifyC_apply)
  moreover have "schedule \<le> ms_between start (system_clock ?w1)"
    using ms_between_sleep [of start "system_clock w" ?d] by (auto split: if_splits)
  ultimately show ?thesis using w by (intro exI [of _ ?w1]) simp
qed

lemma exponential_total_closed:
  "base \<noteq> 1 \<Longrightarrow> exponential_total first base k = first * (base ^ k - 1) / (base - 1)"
  by (induction k) (simp_all add: field_simps)

lemma getDurationUntilNextRetry_Some:
  "c \<le> m \<Longrightarrow> \<exists>d. getDurationUntilNextRetry c m t s = Some d"
  by (auto simp: getDurationUntilNextRetry_def)

lemma endless_retries:
  "Retry_post_process ps func start counter ctx status w = Some res \<Longrightarrow>
   ps = \<lparr>backoff_strategy = LinearRetryBackoff (- 1) interval, retry_error_codes = codes\<rparr> \<longrightarrow>
   func = (\<lambda>ctx. ret status) \<longrightarrow> code status \<in> codes \<longrightarrow> code status \<noteq> SC_invalid \<longrightarrow> \<not> stack_ok n w"
proof (erule Retry_post_process.raw_induct [rotated], intro impI notI)
  fix again func ctx w res start counter status and ps :: "'a RetryParameters"
  assume IH: "\<And>ps func start counter ctx status w res.
      again ps func start counter ctx status w = Some res \<Longrightarrow>
      ps = \<lparr>backoff_strategy = LinearRetryBackoff (- 1) interval, retry_error_codes = codes\<rparr> \<longrightarrow>
      func = (\<lambda>ctx. ret status) \<longrightarrow> code status \<in> codes \<longrightarrow> code status \<noteq> SC_invalid \<longrightarrow> \<not> stack_ok n w"
    and ps: "ps = \<lparr>backoff_strategy = LinearRetryBackoff (- 1) interval, retry_error_codes = codes\<rparr>"
    and func: "func = (\<lambda>ctx. ret status)" and c: "code status \<in> codes" "code status \<noteq> SC_invalid"
    and w: "stack_ok n w"
    and run: "(if code status \<notin> retry_error_codes ps then ret status
      else bindC (getC system_clock) (\<lambda>now.
        bindC (backoff_strategy ps (counter + 1) (ms_between start now)) (\<lambda>duration.
          if duration = None then
            thenC (retry_log 121 status (\<lambda>c. ''Retrying request failed with '' @ c @ '' after ''
                     @ show_nat (unat (counter + 1)) @ '' retries. No further retry requested.''))
                  (ret status)
          else
            thenC (retry_log 126 status (\<lambda>c. ''Request returned '' @ c @ ''. Retry #''
                     @ show_nat (unat (counter + 1)) @ '' in '' @ show_fixed (the duration) @ '' ms.''))
            (thenC (sleep_for (the duration))
              (RequestHook_Process ''retry'' default_pre_process (again ps func start (counter + 1)) func ctx))))) w
      = Some res"
  obtain d where "getDurationUntilNextRetry (counter + 1) (- 1) (ms_between start (system_clock w))
      (interval * of_nat (unat (counter + 1))) = Some d"
    using getDurationUntilNextRetry_Some [of "counter + 1" "- 1"] by auto
  then have ans: "backoff_strategy ps (counter + 1) (ms_between start (system_clock w)) = ret (Some d)"
    by (simp add: ps LinearRetryBackoff_def)
  obtain out where log: "retry_log 126 status (\<lambda>c. ''Request returned '' @ c @ ''. Retry #''
      @ show_nat (unat (counter + 1)) @ '' in '' @ show_fixed d @ '' ms.'') w
      = Some (Inr (), w\<lparr>console := console w @ out\<rparr>)"
    by (rule retry_log_run [OF w c(2)])
  let ?w1 = "w\<lparr>console := console w @ out, system_clock := system_clock w + sleep_ns d,
      steady_clock := steady_clock w + sleep_ns d\<rparr>"
  have "RequestHook_Process ''retry'' default_pre_process (again ps func start (counter + 1)) func ctx ?w1 = Some res"
    using run c(1) ans log ps
    by (simp add: bindC_Inr getC_apply bindC_ret_left thenC_Inr sleep_for_def modifyC_apply)
  moreover have "again ps func start (counter + 1) ctx status w1 = None" if "stack_ok n w1" for w1
    using IH [of ps func start "counter + 1" ctx status w1] ps func c that
    by (cases "again ps func start (counter + 1) ctx status w1") auto
  then have "RequestHook_Process ''retry'' default_pre_process (again ps func start (counter + 1)) func ctx ?w1 = None"
    using w by (intro post_without_result [OF _ _ c(2)]) (simp_all add: func)
  ultimately show False by simp
qed

subsection \<open>Properties\<close>

text \<open>
  Claim C21: retries are bounded. With a maximal count below 2^32 - 1 and a request that always
  comes back, every run of the hook comes back, whatever the results, the codes to retry, and
  the durations of the schedule are, and calls the request at most \<open>max_retry_count + 1\<close> times:
  for the linear strategy, and for the exponential one with jitter.
\<close>

theorem retry_bounded:
  assumes "max_retry_count < - 1"
    and "costs (stack_ok n) (\<lambda>w. calls (app w)) 1 (func ctx)"
    and "\<And>n mean sigma. costs (stack_ok n) (\<lambda>w. calls (app w)) 0 (draw mean sigma)"
  shows "costs (stack_ok n) (\<lambda>w. calls (app w)) (1 + unat max_retry_count)
      (RetryRequestHook_Process \<lparr>backoff_strategy = LinearRetryBackoff max_retry_count interval,
         retry_error_codes = codes\<rparr> func ctx)
    \<and> costs (stack_ok n) (\<lambda>w. calls (app w)) (1 + unat max_retry_count)
      (RetryRequestHook_Process \<lparr>backoff_strategy = BackoffGaussianJitterDecorator draw
         (ExponentialRetryBackoff max_retry_count first base) sigma,
         retry_error_codes = codes\<rparr> func ctx)"
proof
  show "costs (stack_ok n) (\<lambda>w. calls (app w)) (1 + unat max_retry_count)
      (RetryRequestHook_Process \<lparr>backoff_strategy = LinearRetryBackoff max_retry_count interval,
         retry_error_codes = codes\<rparr> func ctx)"
    using assms(1,2) by (rule linear.RetryRequestHook_Process_costs) simp
  have jitter: "backoff (BackoffGaussianJitterDecorator draw
      (ExponentialRetryBackoff max_retry_count first base) sigma) max_retry_count calls"
    by (rule exponential.jitter_backoff) (rule assms(3))
  show "costs (stack_ok n) (\<lambda>w. calls (app w)) (1 + unat max_retry_count)
      (RetryRequestHook_Process \<lparr>backoff_strategy = BackoffGaussianJitterDecorator draw
         (ExponentialRetryBackoff max_retry_count first base) sigma,
         retry_error_codes = codes\<rparr> func ctx)"
    by (rule backoff.RetryRequestHook_Process_costs [OF jitter assms(1)]) (use assms(2) in simp_all)
qed

text \<open>A request that counts its calls and always fails.\<close>

definition failing_request :: "nat func" where
  "failing_request ctx = thenC (modifyC (\<lambda>w. w\<lparr>app := Suc (app w)\<rparr>)) (ret (Status_of SC_unavailable ''down''))"

lemma failing_request_costs: "costs (stack_ok n) (\<lambda>w. id (app w)) 1 (failing_request ctx)"
  by (rule costsI) (simp add: failing_request_def comp_simps)

theorem retry_bounded_witness:
  "\<exists>r w'. RetryRequestHook_Process \<lparr>backoff_strategy = LinearRetryBackoff 3 10,
       retry_error_codes = default_retry_error_codes\<rparr> failing_request ThreadLocalContext (initial_world 0)
     = Some (r, w') \<and> app w' \<le> 4"
proof -
  have "costs (stack_ok 2) (\<lambda>w. id (app w)) (1 + unat (3 :: 32 word))
      (RetryRequestHook_Process \<lparr>backoff_strategy = LinearRetryBackoff 3 10,
       retry_error_codes = default_retry_error_codes\<rparr> failing_request ThreadLocalContext)"
    by (rule conjunct1 [OF retry_bounded [where draw = "\<lambda>mean sigma. ret mean" and first = 1 and base = 1
          and sigma = 1]])
      (simp add: word_less_nat_alt unsigned_minus_1_eq_mask mask_eq_exp_minus_1, rule failing_request_costs,
        rule costs_ret)
  from this stack_ok_initial [of 0] show ?thesis by (rule costsE) auto
qed

text \<open>
  Claim C22: a retry never comes before its schedule. When the request failed with a code to
  retry and the count allows it, the hook runs the request again at a time when at least
  \<open>k * interval\<close> (linear), or the sum of the first \<open>k\<close> intervals in closed form (exponential),
  has passed since the start, for the \<open>k\<close>-th retry; contexts and application state are what
  the failed attempt left.
\<close>

theorem retry_keeps_schedule:
  assumes "stack_ok n w" and "code status \<in> codes" and "code status \<noteq> SC_invalid"
    and "counter + 1 \<le> max_retry_count" and "base \<noteq> 1"
    and "(strategy, schedule) \<in>
      {(LinearRetryBackoff max_retry_count interval, interval * of_nat (unat (counter + 1))),
       (ExponentialRetryBackoff max_retry_count interval base,
          interval * (base ^ unat (counter + 1) - 1) / (base - 1))}"
  shows "\<exists>w1. Retry_post_process \<lparr>backoff_strategy = strategy, retry_error_codes = codes\<rparr> func start counter ctx status w =
      RequestHook_Process ''retry'' default_pre_process
        (Retry_post_process \<lparr>backoff_strategy = strategy, retry_error_codes = codes\<rparr> func start (counter + 1)) func ctx w1 \<and>
      schedule \<le> ms_between start (system_clock w1) \<and> app w1 = app w \<and> contexts w1 = contexts w"
proof -
  have "backoff_strategy \<lparr>backoff_strategy = strategy, retry_error_codes = codes\<rparr> (counter + 1) d
      = ret (getDurationUntilNextRetry (counter + 1) max_retry_count d schedule)" for d
    using assms(5,6)
    by (auto simp: LinearRetryBackoff_def ExponentialRetryBackoff_def exponential_total_closed)
  from retry_after_schedule [OF assms(1) _ assms(3,4) this] assms(2) show ?thesis by fastforce
qed

theorem retry_keeps_schedule_witness:
  "\<exists>w1. Retry_post_process \<lparr>backoff_strategy = ExponentialRetryBackoff 3 10 2, retry_error_codes = {SC_unavailable}\<rparr>
        failing_request 0 1 ThreadLocalContext (Status_of SC_unavailable ''down'') (initial_world 0) =
      RequestHook_Process ''retry'' default_pre_process
        (Retry_post_process \<lparr>backoff_strategy = ExponentialRetryBackoff 3 10 2, retry_error_codes = {SC_unavailable}\<rparr>
           failing_request 0 2) failing_request ThreadLocalContext w1 \<and>
      30 \<le> ms_between 0 (system_clock w1)"
  using retry_keeps_schedule [of 2 "initial_world 0" "Status_of SC_unavailable ''down''" "{SC_unavailable}" 1 3 2
      "ExponentialRetryBackoff 3 10 2" "10 * (2 ^ 2 - 1) / (2 - 1)" 10 failing_request 0 ThreadLocalContext]
  by (auto simp: Status_of_def)

text \<open>
  With the largest maximal count, 2^32 - 1, the hook never gives up: the comparison
  of the 32 bit counter with the maximum cannot become true, as the counter wraps around. A
  request that keeps failing with a code to retry makes \<open>Process\<close> run forever.
\<close>

theorem retry_max_count_never_ends:
  assumes "stack_ok n w" and "code s \<in> codes" and "code s \<noteq> SC_invalid"
  shows "RetryRequestHook_Process \<lparr>backoff_strategy = LinearRetryBackoff (- 1) interval, retry_error_codes = codes\<rparr>
      (\<lambda>ctx. ret s) ctx w = None"
proof -
  let ?ps = "\<lparr>backoff_strategy = LinearRetryBackoff (- 1) interval, retry_error_codes = codes\<rparr>"
  have "Retry_post_process ?ps (\<lambda>ctx. ret s) start 0 ctx s w1 = None" if "stack_ok n w1" for start ctx w1
    using endless_retries [of _ _ start 0 ctx s w1] that assms(2,3)
    by (cases "Retry_post_process ?ps (\<lambda>ctx. ret s) start 0 ctx s w1") fastforce+
  then have "RequestHook_Process ''retry'' default_pre_process (Retry_post_process ?ps (\<lambda>ctx. ret s) start 0)
      (\<lambda>ctx. ret s) ctx w = None" for start
    by (intro post_without_result [OF assms(1) _ assms(3)]) simp_all
  then show ?thesis by (simp add: RetryRequestHook_Process_def comp_simps)
qed

theorem retry_max_count_never_ends_witness:
  "RetryRequestHook_Process \<lparr>backoff_strategy = LinearRetryBackoff (- 1) 10, retry_error_codes = default_retry_error_codes\<rparr>
      (\<lambda>ctx. ret (Status_of SC_unavailable ''down'')) ThreadLocalContext (initial_world ()) = None"
  by (rule retry_max_count_never_ends [OF stack_ok_initial]) (simp_all add: Status_of_def default_retry_error_codes_def)

end
