(* ===== verification/Mse_Circuit_Breaker.thy ===== *)
theory Mse_Circuit_Breaker
  imports Mse_Request_Processor Mse_Hook_Rules "HOL-Library.Word"
begin

text \<open>
  \<open>reliability/circuit-breaker-request-hook\<close>: the strategy interface, the strategy that counts
  pending requests by request name (with 32 bit counters shared by all threads), and the hook.
  The counters are the first component of the application state. The last part is the
  interleaving of threads: each access to the counters is one step, as the mutex makes it.
\<close>

datatype CircuitBreakerStatus = CB_CLOSED | CB_OPEN

record 'u CircuitBreakerStrategy =
  cb_GetStatus :: "addr \<Rightarrow> ('u world, CircuitBreakerStatus) comp"
  cb_pre_process :: "addr \<Rightarrow> ('u world, unit) comp"
  cb_post_process :: "addr \<Rightarrow> Status \<Rightarrow> ('u world, unit) comp"

subsection \<open>Counting pending requests\<close>

type_synonym request_data = "string \<rightharpoonup> 32 word"

definition pending_request_count :: "request_data \<Rightarrow> string \<Rightarrow> 32 word" where
  "pending_request_count d name = (case d name of Some n \<Rightarrow> n | None \<Rightarrow> 0)"

definition pending_inc :: "string \<Rightarrow> request_data \<Rightarrow> request_data" where
  "pending_inc name d = d(name \<mapsto> pending_request_count d name + 1)"

definition pending_dec :: "string \<Rightarrow> request_data \<Rightarrow> request_data" where
  "pending_dec name d = d(name \<mapsto> pending_request_count d name - 1)"

definition pending_status :: "32 word \<Rightarrow> string \<Rightarrow> request_data \<Rightarrow> CircuitBreakerStatus" where
  "pending_status max_pending name d =
     (case d name of
        Some n \<Rightarrow> if max_pending < n then CB_OPEN else CB_CLOSED
      | None \<Rightarrow> CB_CLOSED)"

definition request_name :: "addr \<Rightarrow> ('u world, string) comp" where
  "request_name ctx = readC (\<lambda>w. map_option Inr (Context_AtOr (contexts w) ctx ''request'' ''UNKNOWN''))"

definition MaxPending_GetStatus ::
    "32 word \<Rightarrow> addr \<Rightarrow> ((request_data \<times> 's) world, CircuitBreakerStatus) comp" where
  "MaxPending_GetStatus max_pending ctx =
     bindC (request_name ctx) (\<lambda>name. getC (\<lambda>w. pending_status max_pending name (fst (app w))))"

definition MaxPending_pre_process :: "32 word \<Rightarrow> addr \<Rightarrow> ((request_data \<times> 's) world, unit) comp" where
  "MaxPending_pre_process max_pending ctx =
     bindC (request_name ctx) (\<lambda>name.
       thenC (modifyC (\<lambda>w. w\<lparr>app := (pending_inc name (fst (app w)), snd (app w))\<rparr>))
       (bindC (getC (\<lambda>w. pending_request_count (fst (app w)) name)) (\<lambda>n.
         if n = max_pending + 1 then
           mse_log ''circuit-breaker-request-hook.cpp'' ''pre_process'' 46 LL_warn
             (''Circuit breaker tripped off for request '' @ [CHR 0x27] @ name @ [CHR 0x27]
              @ '' because number of pending requests exceeds '' @ show_nat (unat max_pending))
         else ret ())))"

definition MaxPending_post_process ::
    "32 word \<Rightarrow> addr \<Rightarrow> Status \<Rightarrow> ((request_data \<times> 's) world, unit) comp" where
  "MaxPending_post_process max_pending ctx status =
     bindC (request_name ctx) (\<lambda>name.
       thenC (modifyC (\<lambda>w. w\<lparr>app := (pending_dec name (fst (app w)), snd (app w))\<rparr>))
       (bindC (getC (\<lambda>w. pending_request_count (fst (app w)) name)) (\<lambda>n.
         if n = max_pending then
           mse_log ''circuit-breaker-request-hook.cpp'' ''post_process'' 59 LL_info
             (''Circuit breaker returned to normal state (CLOSED) for request '' @ [CHR 0x27] @ name)
         else ret ())))"

definition MaxPending :: "32 word \<Rightarrow> (request_data \<times> 's) CircuitBreakerStrategy" where
  "MaxPending max_pending =
     \<lparr>cb_GetStatus = MaxPending_GetStatus max_pending,
      cb_pre_process = MaxPending_pre_process max_pending,
      cb_post_process = MaxPending_post_process max_pending\<rparr>"

subsection \<open>The hook\<close>

definition CircuitBreaker_pre_process ::
    "'u CircuitBreakerStrategy \<Rightarrow> Status \<Rightarrow> addr \<Rightarrow> ('u world, Status) comp" where
  "CircuitBreaker_pre_process strategy errorStatus ctx =
     thenC (cb_pre_process strategy ctx)
     (bindC (cb_GetStatus strategy ctx) (\<lambda>s.
        case s of
          CB_CLOSED \<Rightarrow> ret Status_OK
        | CB_OPEN \<Rightarrow> thenC (cb_post_process strategy ctx errorStatus) (ret errorStatus)))"

definition CircuitBreaker_post_process ::
    "'u CircuitBreakerStrategy \<Rightarrow> addr \<Rightarrow> Status \<Rightarrow> ('u world, Status) comp" where
  "CircuitBreaker_post_process strategy ctx status =
     thenC (cb_post_process strategy ctx status) (ret status)"

definition default_errorStatus :: Status where
  "default_errorStatus = Status_of SC_unavailable ''circuit breaker tripped off''"

definition CircuitBreakerRequestHook :: "'u CircuitBreakerStrategy \<Rightarrow> Status \<Rightarrow> 'u hook" where
  "CircuitBreakerRequestHook strategy errorStatus =
     protocol_hook ''circuit breaker'' (\<lambda>t. CircuitBreaker_pre_process strategy errorStatus)
       (\<lambda>t. CircuitBreaker_post_process strategy)"

text \<open>The contract that makes the hook well behaved towards the processor.\<close>

locale breaker_strategy =
  fixes strategy :: "'u CircuitBreakerStrategy"
  assumes status_keeps: "ctx < n \<Longrightarrow> keeps (stack_ok n) (cb_GetStatus strategy ctx)"
    and pre_keeps: "ctx < n \<Longrightarrow> keeps (stack_ok n) (cb_pre_process strategy ctx)"
    and post_keeps: "ctx < n \<Longrightarrow> keeps (stack_ok n) (cb_post_process strategy ctx s)"
begin

lemma hook_stack: "stack_hook (CircuitBreakerRequestHook strategy errorStatus)"
proof -
  have "keeps (stack_ok n) (case s of CB_CLOSED \<Rightarrow> ret Status_OK
      | CB_OPEN \<Rightarrow> thenC (cb_post_process strategy ctx errorStatus) (ret errorStatus))"
    if "ctx < n" for s ctx n
    using post_keeps [OF that] by (cases s) auto
  then show ?thesis
    unfolding CircuitBreakerRequestHook_def CircuitBreaker_pre_process_def CircuitBreaker_post_process_def
    by (intro protocol_stack_hook keeps_thenC keeps_bindC status_keeps pre_keeps post_keeps keeps_ret)
qed

end

interpretation max_pending: breaker_strategy "MaxPending max_pending_request_count"
proof
  have set: "keeps (stack_ok n) (modifyC (\<lambda>w. w\<lparr>app := f w\<rparr>))" for n f by (rule keeps_modify_app)
  show "keeps (stack_ok n) (cb_GetStatus (MaxPending max_pending_request_count) ctx)" for n ctx
    by (simp add: MaxPending_def MaxPending_GetStatus_def request_name_def keeps_bindC keeps_readC keeps_getC)
  show "keeps (stack_ok n) (cb_pre_process (MaxPending max_pending_request_count) ctx)" for n ctx
    by (auto simp: MaxPending_def MaxPending_pre_process_def request_name_def
        intro!: keeps_bindC keeps_thenC keeps_readC keeps_getC keeps_mse_log keeps_modify_app keeps_ret)
  show "keeps (stack_ok n) (cb_post_process (MaxPending max_pending_request_count) ctx s)" for n ctx s
    by (auto simp: MaxPending_def MaxPending_post_process_def request_name_def
        intro!: keeps_bindC keeps_thenC keeps_readC keeps_getC keeps_mse_log keeps_modify_app keeps_ret)
qed

interpretation breaker: stack_hook "CircuitBreakerRequestHook (MaxPending max_pending_request_count) errorStatus"
  by (rule max_pending.hook_stack)

subsection \<open>One request\<close>

text \<open>In the context \<open>ctx\<close> the request is \<open>name\<close>, of which \<open>k\<close> are counted as pending.\<close>

definition pending_is :: "nat \<Rightarrow> addr \<Rightarrow> string \<Rightarrow> 32 word \<Rightarrow> (request_data \<times> 's) world \<Rightarrow> bool" where
  "pending_is n ctx name k w \<longleftrightarrow>
     stack_ok n w \<and> Context_AtOr (contexts w) ctx ''request'' ''UNKNOWN'' = Some name \<and>
     pending_request_count (fst (app w)) name = k"

lemma pending_is_stack: "pending_is n ctx name k w \<Longrightarrow> stack_ok n w"
  by (simp add: pending_is_def)

lemma pending_is_stable: "log_stable n (pending_is n ctx name k)"
  by (simp add: log_stable_def pending_is_def)

lemma pending_count_inc [simp]: "pending_request_count (pending_inc name d) name = pending_request_count d name + 1"
  by (simp add: pending_inc_def pending_request_count_def)

lemma pending_count_dec [simp]: "pending_request_count (pending_dec name d) name = pending_request_count d name - 1"
  by (simp add: pending_dec_def pending_request_count_def)


lemma pending_status_count:
  "pending_status m name d = (if m < pending_request_count d name then CB_OPEN else CB_CLOSED)"
  by (simp add: pending_status_def pending_request_count_def split: option.splits)

lemma optional_log_run:
  assumes "stack_ok n w" and "level \<noteq> LL_invalid"
  obtains out where "(if c then mse_log file place line level message else ret ()) w
      = Some (Inr (), w\<lparr>console := console w @ out\<rparr>)"
proof (cases c)
  case True
  then show ?thesis using that mse_log_run [OF stack_ok_world [OF assms(1)] assms(2)] by fastforce
next
  case False
  then show ?thesis using that [of "[]"] by (simp add: ret_apply)
qed

text \<open>What else the state holds: the other counters, and all that is beside the counters.\<close>

definition apart_from :: "string \<Rightarrow> request_data \<times> 's \<Rightarrow> request_data \<times> 's" where
  "apart_from name u = ((fst u)(name := None), snd u)"

lemma apart_from_simps [simp]:
  "apart_from name (pending_inc name d, s) = apart_from name (d, s)" "apart_from name (pending_dec name d, s) = apart_from name (d, s)"
  "snd (apart_from name u) = snd u" "apart_from name (fst u, snd u) = apart_from name u"
  "apart_from name (fst (apart_from name u), x) = apart_from name (fst u, x)"
  by (simp_all add: apart_from_def pending_inc_def pending_dec_def)

lemma apart_from_counts:
  assumes "apart_from name u' = apart_from name (fst u, y)" and "pending_request_count (fst u') name = pending_request_count (fst u) name"
  shows "pending_request_count (fst u') = pending_request_count (fst u)"
proof
  fix n
  from assms(1) have "(fst u')(name := None) = (fst u)(name := None)" by (simp add: apart_from_def)
  then have "n \<noteq> name \<Longrightarrow> fst u' n = fst u n" by (metis fun_upd_other)
  with assms(2) show "pending_request_count (fst u') n = pending_request_count (fst u) n"
    by (cases "n = name") (simp_all add: pending_request_count_def)
qed

lemma MaxPending_pre_run:
  assumes "pending_is n ctx name k w"
  obtains w1 where "MaxPending_pre_process m ctx w = Some (Inr (), w1)"
    and "pending_is n ctx name (k + 1) w1" and "apart_from name (app w1) = apart_from name (app w)" "steady_clock w1 = steady_clock w"
proof -
  let ?w = "w\<lparr>app := (pending_inc name (fst (app w)), snd (app w))\<rparr>"
  have "stack_ok n ?w" using assms by (simp add: pending_is_def)
  then obtain out where "(if k + 1 = m + 1 then
           mse_log ''circuit-breaker-request-hook.cpp'' ''pre_process'' 46 LL_warn
             (''Circuit breaker tripped off for request '' @ [CHR 0x27] @ name @ [CHR 0x27]
              @ '' because number of pending requests exceeds '' @ show_nat (unat m))
         else ret ()) ?w = Some (Inr (), ?w\<lparr>console := console ?w @ out\<rparr>)"
    by (rule optional_log_run [where level = LL_warn]) simp_all
  with assms that [of "?w\<lparr>console := console w @ out\<rparr>"] show ?thesis
    by (simp add: MaxPending_pre_process_def request_name_def comp_simps pending_is_def)
qed

lemma MaxPending_post_run:
  assumes "pending_is n ctx name k w"
  obtains w1 where "MaxPending_post_process m ctx s w = Some (Inr (), w1)"
    and "pending_is n ctx name (k - 1) w1" and "apart_from name (app w1) = apart_from name (app w)" "steady_clock w1 = steady_clock w"
proof -
  let ?w = "w\<lparr>app := (pending_dec name (fst (app w)), snd (app w))\<rparr>"
  have "stack_ok n ?w" using assms by (simp add: pending_is_def)
  then obtain out where "(if k - 1 = m then
           mse_log ''circuit-breaker-request-hook.cpp'' ''post_process'' 59 LL_info
             (''Circuit breaker returned to normal state (CLOSED) for request '' @ [CHR 0x27] @ name)
         else ret ()) ?w = Some (Inr (), ?w\<lparr>console := console ?w @ out\<rparr>)"
    by (rule optional_log_run [where level = LL_info]) simp_all
  with assms that [of "?w\<lparr>console := console w @ out\<rparr>"] show ?thesis
    by (simp add: MaxPending_post_process_def request_name_def comp_simps pending_is_def)
qed

lemma MaxPending_status_run:
  "pending_is n ctx name k w \<Longrightarrow>
   MaxPending_GetStatus m ctx w = Some (Inr (if m < k then CB_OPEN else CB_CLOSED), w)"
  by (simp add: MaxPending_GetStatus_def request_name_def comp_simps pending_is_def pending_status_count)

text \<open>What \<open>pre_process\<close> of the hook decides and leaves.\<close>

lemma pending_inc_dec: "pending_request_count d name = k \<Longrightarrow>
   pending_request_count (pending_dec name (pending_inc name d)) name = k"
  by simp

lemma breaker_pre_frame:
  assumes "pending_is n ctx name k w"
  shows "\<exists>w'. CircuitBreaker_pre_process (MaxPending m) errorStatus ctx w
      = Some (Inr (if m < k + 1 then errorStatus else Status_OK), w') \<and>
      pending_is n ctx name (if m < k + 1 then k else k + 1) w' \<and> apart_from name (app w') = apart_from name (app w) \<and>
      steady_clock w' = steady_clock w"
proof -
  obtain w1 where pre: "MaxPending_pre_process m ctx w = Some (Inr (), w1)"
    and w1: "pending_is n ctx name (k + 1) w1" "apart_from name (app w1) = apart_from name (app w)" "steady_clock w1 = steady_clock w"
    by (rule MaxPending_pre_run [OF assms])
  show ?thesis
  proof (cases "m < k + 1")
    case False
    then show ?thesis
      using pre w1 MaxPending_status_run [OF w1(1), of m]
      by (simp add: CircuitBreaker_pre_process_def MaxPending_def comp_simps)
  next
    case True
    obtain w2 where post: "MaxPending_post_process m ctx errorStatus w1 = Some (Inr (), w2)"
      and w2: "pending_is n ctx name (k + 1 - 1) w2" "apart_from name (app w2) = apart_from name (app w1)" "steady_clock w2 = steady_clock w1"
      by (rule MaxPending_post_run [OF w1(1)])
    have "CircuitBreaker_pre_process (MaxPending m) errorStatus ctx w = Some (Inr errorStatus, w2)"
      using pre True MaxPending_status_run [OF w1(1), of m] post
      by (simp add: CircuitBreaker_pre_process_def MaxPending_def comp_simps)
    then show ?thesis using w1 w2 True by simp
  qed
qed

lemma breaker_pre_run:
  assumes "pending_is n ctx name k w"
  shows "\<exists>w'. CircuitBreaker_pre_process (MaxPending m) errorStatus ctx w
      = Some (Inr (if m < k + 1 then errorStatus else Status_OK), w') \<and>
      pending_is n ctx name (if m < k + 1 then k else k + 1) w' \<and> snd (app w') = snd (app w)"
  using breaker_pre_frame [OF assms] by (metis apart_from_simps(3))

lemma hoare_breaker_post:
  "hoare (pending_is n ctx name (k + 1)) (CircuitBreaker_post_process (MaxPending m) ctx s)
     (\<lambda>r. pending_is n ctx name k)"
proof (rule hoareI)
  fix w :: "(request_data \<times> 's) world" assume w: "pending_is n ctx name (k + 1) w"
  obtain w1 where "MaxPending_post_process m ctx s w = Some (Inr (), w1)"
    and "pending_is n ctx name (k + 1 - 1) w1" and "apart_from name (app w1) = apart_from name (app w)" "steady_clock w1 = steady_clock w"
    by (rule MaxPending_post_run [OF w])
  then show "\<exists>r w'. CircuitBreaker_post_process (MaxPending m) ctx s w = Some (r, w') \<and> pending_is n ctx name k w'"
    by (simp add: CircuitBreaker_post_process_def MaxPending_def comp_simps)
qed

lemma hoare_breaker_pre:
  "hoare (pending_is n ctx name k) (CircuitBreaker_pre_process (MaxPending m) errorStatus ctx)
     (\<lambda>r w. r = Inr (if m < k + 1 then errorStatus else Status_OK) \<and>
        pending_is n ctx name (if m < k + 1 then k else k + 1) w)"
  by (rule hoareI) (use breaker_pre_run in blast)

lemma breaker_Process:
  "hook_Process (CircuitBreakerRequestHook strategy errorStatus) =
     RequestHook_Process ''circuit breaker'' (CircuitBreaker_pre_process strategy errorStatus)
       (CircuitBreaker_post_process strategy)"
  by (simp add: hook_Process_def CircuitBreakerRequestHook_def protocol_hook_def)

text \<open>The hook around a request, with a condition on the rest of the state and the clock.\<close>

definition pending_with ::
    "nat \<Rightarrow> addr \<Rightarrow> string \<Rightarrow> 32 word \<Rightarrow> (request_data \<times> 's \<Rightarrow> int \<Rightarrow> bool) \<Rightarrow> (request_data \<times> 's) world \<Rightarrow> bool" where
  "pending_with n ctx name k P w \<longleftrightarrow> pending_is n ctx name k w \<and> P (apart_from name (app w)) (steady_clock w)"

lemma pending_with_stable [simp]: "log_stable n (pending_with n ctx name k P)"
  by (simp add: log_stable_def pending_with_def pending_is_def)

lemma hoare_breaker:
  assumes k: "k + 1 \<le> m"
    and func: "hoare (pending_with n ctx name (k + 1) P) (func ctx) (\<lambda>r. pending_with n ctx name (k + 1) (R r))"
    and valid: "\<And>s x t. R (Inr s) x t \<Longrightarrow> code s \<noteq> SC_invalid"
  shows "hoare (pending_with n ctx name k P)
     (hook_Process (SetRequestType t (CircuitBreakerRequestHook (MaxPending m) errorStatus)) func ctx)
     (\<lambda>r. pending_with n ctx name k (R r))"
proof -
  have E: "hook_Process (SetRequestType t (CircuitBreakerRequestHook (MaxPending m) errorStatus)) func =
      RequestHook_Process ''circuit breaker'' (CircuitBreaker_pre_process (MaxPending m) errorStatus)
        (CircuitBreaker_post_process (MaxPending m)) func"
    by (simp add: CircuitBreakerRequestHook_def fun_eq_iff)
  have post: "\<exists>w'. CircuitBreaker_post_process (MaxPending m) ctx s w = Some (Inr s, w') \<and> pending_with n ctx name k F w'"
    if w: "pending_with n ctx name (k + 1) F w" for F s and w :: "(request_data \<times> 'a) world"
  proof -
    have "pending_is n ctx name (k + 1) w" using w by (simp add: pending_with_def)
    then obtain w1 where "MaxPending_post_process m ctx s w = Some (Inr (), w1)"
      and "pending_is n ctx name (k + 1 - 1) w1" "apart_from name (app w1) = apart_from name (app w)" "steady_clock w1 = steady_clock w"
      by (rule MaxPending_post_run)
    then show ?thesis using w by (simp add: CircuitBreaker_post_process_def MaxPending_def comp_simps pending_with_def)
  qed
  show ?thesis
    unfolding E
  proof (rule hoare_pass [where n = n and inside = "pending_with n ctx name (k + 1) P"
        and finished = "\<lambda>r. pending_with n ctx name (k + 1) (R r)"])
    show "hoare (pending_with n ctx name k P) (CircuitBreaker_pre_process (MaxPending m) errorStatus ctx)
        (\<lambda>r w. (\<exists>s. r = Inr s \<and> succeeded s) \<and> pending_with n ctx name (k + 1) P w)"
    proof (rule hoareI)
      fix w :: "(request_data \<times> 'a) world" assume w: "pending_with n ctx name k P w"
      then have "pending_is n ctx name k w" by (simp add: pending_with_def)
      from breaker_pre_frame [OF this, of m errorStatus] k w
      show "\<exists>r w'. CircuitBreaker_pre_process (MaxPending m) errorStatus ctx w = Some (r, w') \<and>
          (\<exists>s. r = Inr s \<and> succeeded s) \<and> pending_with n ctx name (k + 1) P w'"
        by (auto simp: pending_with_def succeeded_def Status_OK_def Status_of_def not_less [symmetric])
    qed
    show "hoare (pending_with n ctx name (k + 1) (R (Inr s))) (CircuitBreaker_post_process (MaxPending m) ctx s)
        (\<lambda>r w. (\<forall>s. r = Inr s \<longrightarrow> code s \<noteq> SC_invalid) \<and> pending_with n ctx name k (R r) w)"
      if "code s \<noteq> SC_invalid" for s
    proof (rule hoareI)
      fix w :: "(request_data \<times> 'a) world" assume "pending_with n ctx name (k + 1) (R (Inr s)) w"
      from post [OF this, of s] that show "\<exists>r w'. CircuitBreaker_post_process (MaxPending m) ctx s w = Some (r, w') \<and>
          (\<forall>s. r = Inr s \<longrightarrow> code s \<noteq> SC_invalid) \<and> pending_with n ctx name k (R r) w'" by auto
    qed
    show "hoare (pending_with n ctx name (k + 1) (R (Inl e)))
        (CircuitBreaker_post_process (MaxPending m) ctx (Status_of SC_invalid ''exception during request''))
        (\<lambda>r w. pending_with n ctx name k (R (case r of Inl e' \<Rightarrow> Inl e' | Inr s \<Rightarrow> if code s = SC_invalid then Inl e else Inr s)) w)" for e
    proof (rule hoareI)
      fix w :: "(request_data \<times> 'a) world" assume "pending_with n ctx name (k + 1) (R (Inl e)) w"
      from post [OF this, of "Status_of SC_invalid ''exception during request''"]
      show "\<exists>r w'. CircuitBreaker_post_process (MaxPending m) ctx (Status_of SC_invalid ''exception during request'') w = Some (r, w') \<and>
          pending_with n ctx name k (R (case r of Inl e' \<Rightarrow> Inl e' | Inr s \<Rightarrow> if code s = SC_invalid then Inl e else Inr s)) w'"
        by auto
    qed
    show "code s \<noteq> SC_invalid" if "pending_with n ctx name (k + 1) (R (Inr s)) w" for s w
      using that valid unfolding pending_with_def by blast
  qed (use func in simp_all)
qed

subsection \<open>Properties\<close>

lemma breaker_leaks:
  assumes "k + 1 \<le> m"
    and "hoare (pending_is n ctx name (k + 1)) (func ctx)
       (\<lambda>r w. pending_is n ctx name (k + 1) w \<and> (\<exists>s. r = Inr s \<and> code s = SC_invalid))"
  shows "hoare (pending_is n ctx name k)
     (hook_Process (CircuitBreakerRequestHook (MaxPending m) errorStatus) func ctx)
     (\<lambda>r w. r = Inl invalid_status_exn \<and> pending_is n ctx name (k + 1) w)"
proof -
  have "hoare (pending_is n ctx name k) (CircuitBreaker_pre_process (MaxPending m) errorStatus ctx)
     (\<lambda>r w. (\<exists>s. r = Inr s \<and> succeeded s) \<and> pending_is n ctx name (k + 1) w)"
    by (rule hoare_weaken [OF hoare_breaker_pre])
      (use assms(1) in \<open>auto simp: succeeded_def Status_OK_def Status_of_def split: if_splits\<close>)
  then show ?thesis
    unfolding breaker_Process
    by (rule hoare_RequestHook_Process_invalid [where func = func, OF pending_is_stable pending_is_stable _ assms(2)])
qed

lemma breaker_refuses:
  assumes "m < k + 1" and "\<not> succeeded errorStatus"
  shows "hoare (pending_is n ctx name k)
     (hook_Process (CircuitBreakerRequestHook (MaxPending m) errorStatus) func ctx)
     (\<lambda>r. pending_is n ctx name k)"
proof -
  have refused: "hoare (pending_is n ctx name k) (thenC (log_status 20 ''preprocessing failed with status '' errorStatus) (ret errorStatus))
      (\<lambda>r. pending_is n ctx name k)"
    by (rule hoare_thenC [OF hoare_log_status [OF pending_is_stable] hoare_ret]) simp_all
  have pre: "hoare (pending_is n ctx name k) (CircuitBreaker_pre_process (MaxPending m) errorStatus ctx)
      (\<lambda>r w. r = Inr errorStatus \<and> pending_is n ctx name k w)"
    by (rule hoare_weaken [OF hoare_breaker_pre]) (use assms(1) in simp)
  show ?thesis
    unfolding breaker_Process RequestHook_Process_def
    by (rule hoare_thenC [OF hoare_hook_log [OF pending_is_stable] hoare_strengthen [OF hoare_bindC [OF pre]]])
      (use refused assms(2) in \<open>auto simp: hoare_def\<close>)
qed

text \<open>
  Claim C23: what the breaker counts as pending behind a request, for an error status that is an
  error and a function that comes back and keeps the name in the context and the counter. The
  counter of the name is what it was, whether the request was refused, returned or threw, with one
  exception: a function that was called and returns the status \<open>invalid\<close> leaves it raised by one for
  ever, as the log statement throws before \<open>post_process\<close>.
\<close>

theorem breaker_balances_count:
  assumes "\<not> succeeded errorStatus"
    and "hoare (pending_is n ctx name (k + 1)) (func ctx)
       (\<lambda>r w. pending_is n ctx name (k + 1) w \<and> returns_invalid = (\<exists>s. r = Inr s \<and> code s = SC_invalid))"
  shows "hoare (pending_is n ctx name k)
     (hook_Process (CircuitBreakerRequestHook (MaxPending m) errorStatus) func ctx)
     (\<lambda>r. pending_is n ctx name (if returns_invalid \<and> k + 1 \<le> m then k + 1 else k))"
proof (cases "k + 1 \<le> m")
  case False
  then have "m < k + 1" by (simp only: not_le)
  from breaker_refuses [OF this assms(1)] show ?thesis by (simp add: False)
next
  case True
  show ?thesis
  proof (cases returns_invalid)
    case False
    have "hoare (pending_is n ctx name k)
        (hook_Process (CircuitBreakerRequestHook (MaxPending m) errorStatus) func ctx) (\<lambda>r. pending_is n ctx name k)"
      unfolding breaker_Process
    proof (rule hoare_RequestHook_Process [where inside = "pending_is n ctx name (k + 1)" and n = n])
      show "hoare (pending_is n ctx name k) (CircuitBreaker_pre_process (MaxPending m) errorStatus ctx)
          (\<lambda>r. if \<exists>s. r = Inr s \<and> succeeded s then pending_is n ctx name (k + 1) else pending_is n ctx name k)"
        by (rule hoare_weaken [OF hoare_breaker_pre])
          (use assms(1) in \<open>auto simp: succeeded_def Status_OK_def Status_of_def split: if_splits\<close>)
      show "hoare (pending_is n ctx name (k + 1)) (func ctx)
          (\<lambda>r w. pending_is n ctx name (k + 1) w \<and> (\<forall>s. r = Inr s \<longrightarrow> code s \<noteq> SC_invalid))"
        by (rule hoare_weaken [OF assms(2)]) (use False in auto)
    qed (rule pending_is_stable hoare_breaker_post)+
    with False show ?thesis by simp
  next
    case invalid: True
    then show ?thesis
      using True hoare_weaken [OF breaker_leaks [OF True, where func = func]] hoare_weaken [OF assms(2)] by auto
  qed
qed

definition cb_world :: "(request_data \<times> unit) world" where
  "cb_world = initial_world (Map.empty, ())"

lemma cb_world_pending: "pending_is 2 ThreadLocalContext ''UNKNOWN'' 0 cb_world"
proof -
  have "Context_AtOr initial_contexts GlobalContext ''request'' ''UNKNOWN'' = Some ''UNKNOWN''"
    by (subst Context_AtOr.simps) (simp add: initial_contexts_def)
  then have "Context_AtOr initial_contexts ThreadLocalContext ''request'' ''UNKNOWN'' = Some ''UNKNOWN''"
    by (subst Context_AtOr.simps) (simp add: initial_contexts_def)
  then show ?thesis by (simp add: pending_is_def cb_world_def pending_request_count_def)
qed

theorem breaker_balances_count_witness:
  "pending_is 2 ThreadLocalContext ''UNKNOWN'' 0 cb_world \<and>
   hoare (pending_is 2 ThreadLocalContext ''UNKNOWN'' 0)
     (hook_Process (CircuitBreakerRequestHook (MaxPending 1) default_errorStatus)
        (\<lambda>ctx. throw (NonStdException 1)) ThreadLocalContext)
     (\<lambda>r w. pending_is 2 ThreadLocalContext ''UNKNOWN'' 0 (w :: (request_data \<times> unit) world)) \<and>
   hoare (pending_is 2 ThreadLocalContext ''UNKNOWN'' 0)
     (hook_Process (CircuitBreakerRequestHook (MaxPending 1) default_errorStatus)
        (\<lambda>ctx. ret (Status_of SC_invalid ''none'')) ThreadLocalContext)
     (\<lambda>r w. pending_is 2 ThreadLocalContext ''UNKNOWN'' 1 (w :: (request_data \<times> unit) world))"
proof (intro conjI)
  note balances = breaker_balances_count [where n = 2 and ctx = ThreadLocalContext and name = "''UNKNOWN''" and k = 0 and m = 1
      and errorStatus = default_errorStatus]
  show "pending_is 2 ThreadLocalContext ''UNKNOWN'' 0 cb_world" by (rule cb_world_pending)
  show "hoare (pending_is 2 ThreadLocalContext ''UNKNOWN'' 0)
     (hook_Process (CircuitBreakerRequestHook (MaxPending 1) default_errorStatus)
        (\<lambda>ctx. throw (NonStdException 1)) ThreadLocalContext)
     (\<lambda>r w. pending_is 2 ThreadLocalContext ''UNKNOWN'' 0 (w :: (request_data \<times> unit) world))"
    using balances [where func = "\<lambda>ctx. throw (NonStdException 1)" and returns_invalid = False]
    by (simp add: default_errorStatus_def succeeded_def Status_of_def hoare_throw)
  show "hoare (pending_is 2 ThreadLocalContext ''UNKNOWN'' 0)
     (hook_Process (CircuitBreakerRequestHook (MaxPending 1) default_errorStatus)
        (\<lambda>ctx. ret (Status_of SC_invalid ''none'')) ThreadLocalContext)
     (\<lambda>r w. pending_is 2 ThreadLocalContext ''UNKNOWN'' 1 (w :: (request_data \<times> unit) world))"
    using balances [where func = "\<lambda>ctx. ret (Status_of SC_invalid ''none'')" and returns_invalid = True]
    by (simp add: default_errorStatus_def succeeded_def Status_of_def hoare_ret)
qed

text \<open>
  The breaker trips exactly above its limit. With \<open>k\<close> requests of the name pending,
  \<open>pre_process\<close> answers the error status and leaves the counter at \<open>k\<close> when \<open>k + 1\<close> exceeds the
  maximum; otherwise it lets the request through and leaves the counter at \<open>k + 1\<close>.
\<close>

theorem breaker_trips_above_limit:
  assumes "pending_is n ctx name k w"
  shows "\<exists>w'. CircuitBreaker_pre_process (MaxPending m) errorStatus ctx w
      = Some (Inr (if m < k + 1 then errorStatus else Status_OK), w') \<and>
      pending_is n ctx name (if m < k + 1 then k else k + 1) w' \<and> snd (app w') = snd (app w)"
  using assms by (rule breaker_pre_run)

theorem breaker_trips_above_limit_witness:
  "\<exists>w'. CircuitBreaker_pre_process (MaxPending 0) default_errorStatus ThreadLocalContext cb_world
     = Some (Inr default_errorStatus, w')"
  using breaker_trips_above_limit [OF cb_world_pending, of 0 default_errorStatus] by auto

text \<open>
  A request that returns the status \<open>invalid\<close> is counted as pending for ever. The log
  statement of \<open>RequestHook::Process\<close> throws \<open>invalid_argument\<close> when it prints that status,
  before \<open>post_process\<close> is called: the caller gets the exception, and the counter stays raised
  by one.
\<close>

theorem breaker_leaks_on_invalid:
  assumes "k + 1 \<le> m" and "code s = SC_invalid"
  shows "hoare (pending_is n ctx name k)
     (hook_Process (CircuitBreakerRequestHook (MaxPending m) errorStatus) (\<lambda>ctx. ret s) ctx)
     (\<lambda>r w. r = Inl invalid_status_exn \<and> pending_is n ctx name (k + 1) w)"
  by (rule breaker_leaks [OF assms(1)]) (simp add: hoare_ret assms(2))

theorem breaker_leaks_on_invalid_witness:
  "pending_is 2 ThreadLocalContext ''UNKNOWN'' 0 cb_world \<and>
   hoare (pending_is 2 ThreadLocalContext ''UNKNOWN'' 0)
     (hook_Process (CircuitBreakerRequestHook (MaxPending 1) default_errorStatus)
        (\<lambda>ctx. ret (Status_of SC_invalid ''none'')) ThreadLocalContext)
     (\<lambda>r w. r = Inl invalid_status_exn \<and>
        pending_is 2 ThreadLocalContext ''UNKNOWN'' 1 (w :: (request_data \<times> unit) world))"
  using breaker_leaks_on_invalid [of 0 1 "Status_of SC_invalid ''none''" 2 ThreadLocalContext "''UNKNOWN''" default_errorStatus]
    cb_world_pending by (simp add: Status_of_def)

subsection \<open>Many threads\<close>

text \<open>
  The strategy is shared by the threads of the process. A thread that is in the hook with a
  request of some name has counted it (\<open>Entered\<close>), has been let through by \<open>GetStatus\<close> and runs
  the request (\<open>Running\<close>), or has been refused (\<open>Refused\<close>); it leaves by \<open>post_process\<close> of the
  strategy. Each step is one critical section of the mutex.
\<close>

datatype phase = Entered | Running | Refused

type_synonym cb_threads = "nat \<rightharpoonup> string \<times> phase"

inductive cb_step :: "nat \<Rightarrow> 32 word \<Rightarrow> request_data \<times> cb_threads \<Rightarrow> request_data \<times> cb_threads \<Rightarrow> bool"
  for N m where
  enter: "t < N \<Longrightarrow> T t = None \<Longrightarrow> cb_step N m (d, T) (pending_inc name d, T(t \<mapsto> (name, Entered)))"
| admit: "T t = Some (name, Entered) \<Longrightarrow> pending_status m name d = CB_CLOSED \<Longrightarrow>
     cb_step N m (d, T) (d, T(t \<mapsto> (name, Running)))"
| refuse: "T t = Some (name, Entered) \<Longrightarrow> pending_status m name d = CB_OPEN \<Longrightarrow>
     cb_step N m (d, T) (d, T(t \<mapsto> (name, Refused)))"
| leave: "T t = Some (name, ph) \<Longrightarrow> ph \<noteq> Entered \<Longrightarrow>
     cb_step N m (d, T) (pending_dec name d, T(t := None))"

inductive cb_reachable :: "nat \<Rightarrow> 32 word \<Rightarrow> request_data \<times> cb_threads \<Rightarrow> bool" for N m where
  initial: "cb_reachable N m (Map.empty, Map.empty)"
| step: "cb_reachable N m x \<Longrightarrow> cb_step N m x y \<Longrightarrow> cb_reachable N m y"


definition threads_running :: "cb_threads \<Rightarrow> string \<Rightarrow> nat set" where
  "threads_running T name = {t. T t = Some (name, Running)}"
















definition two_refused :: "request_data \<times> cb_threads" where
  "two_refused = (pending_inc ''r'' (pending_inc ''r'' Map.empty), [0 \<mapsto> (''r'', Refused), 1 \<mapsto> (''r'', Refused)])"

lemma two_refused_reachable: "cb_reachable 2 1 two_refused"
proof -
  let ?d1 = "pending_inc ''r'' Map.empty" and ?d2 = "pending_inc ''r'' (pending_inc ''r'' Map.empty)"
  have open2: "pending_status 1 ''r'' ?d2 = CB_OPEN"
    by (simp add: pending_status_def pending_inc_def pending_request_count_def)
  have "cb_reachable 2 1 (?d1, [0 \<mapsto> (''r'', Entered)])"
    by (rule cb_reachable.step [OF cb_reachable.initial cb_step.enter]) simp_all
  then have "cb_reachable 2 1 (?d2, [0 \<mapsto> (''r'', Entered), 1 \<mapsto> (''r'', Entered)])"
    by (rule cb_reachable.step [OF _ cb_step.enter]) simp_all
  then have "cb_reachable 2 1 (?d2, [0 \<mapsto> (''r'', Entered), 1 \<mapsto> (''r'', Entered), 0 \<mapsto> (''r'', Refused)])"
    by (rule cb_reachable.step [OF _ cb_step.refuse]) (simp_all add: open2)
  then have "cb_reachable 2 1 (?d2, [0 \<mapsto> (''r'', Entered), 1 \<mapsto> (''r'', Entered), 0 \<mapsto> (''r'', Refused), 1 \<mapsto> (''r'', Refused)])"
    by (rule cb_reachable.step [OF _ cb_step.refuse]) (simp_all add: open2)
  then show ?thesis by (simp add: two_refused_def fun_upd_twist)
qed


text \<open>
  The breaker may refuse when nothing runs. With a limit of one, two threads that
  enter at the same time are both refused, since each counts the other although neither runs
  a request: entering and asking for the status are two critical sections.
\<close>

theorem breaker_refuses_both:
  "\<exists>d T. cb_reachable 2 1 (d, T) \<and> threads_running T ''r'' = {} \<and>
     T 0 = Some (''r'', Refused) \<and> T 1 = Some (''r'', Refused)"
proof (intro exI conjI)
  show "cb_reachable 2 1 (fst two_refused, snd two_refused)" using two_refused_reachable by simp
qed (simp_all add: two_refused_def threads_running_def)

end
