(* ===== verification/Mse_Cache.thy ===== *)
theory Mse_Cache
  imports Mse_Effects
begin

text \<open>
  The caches of \<open>performance/caching-request-hook\<close>: the interface, \<open>UnorderedMapCache\<close>, and the
  decorator \<open>LRUCache\<close>, which keeps the keys in a \<open>std::list\<close> and the iterator of its node with
  each element. A list node has an identity, an iterator is the identity of its node, and using
  one whose node was erased has no result. The mutexes make every operation one step.
\<close>

record 'v element =
  el_data :: "'v any"
  el_status :: Status
  insertion_time :: int

text \<open>\<open>TimePoint::min()\<close> of a clock that counts nanoseconds in 64 bits.\<close>

definition InvalidElement :: "'v element" where
  "InvalidElement = \<lparr>el_data = AnyEmpty, el_status = Status_of SC_unknown ''invalid cached element'',
     insertion_time = - (2 ^ 63)\<rparr>"

definition Cache_IsValid :: "'v element \<Rightarrow> bool" where
  "Cache_IsValid e \<longleftrightarrow> any_has_value (el_data e)"

record ('v, 's) Cache =
  Cache_Insert :: "string \<Rightarrow> 'v element \<Rightarrow> ('s, unit) comp"
  Cache_Get :: "string \<Rightarrow> ('s, 'v element) comp"
  Cache_Remove :: "string \<Rightarrow> ('s, unit) comp"

subsection \<open>The map\<close>

type_synonym 'v map_data = "string \<rightharpoonup> 'v element"

definition UnorderedMapCache :: "('v, 'v map_data) Cache" where
  "UnorderedMapCache =
     \<lparr>Cache_Insert = (\<lambda>key e. modifyC (\<lambda>d. d(key \<mapsto> e))),
      Cache_Get = (\<lambda>key. getC (\<lambda>d. case d key of Some e \<Rightarrow> e | None \<Rightarrow> InvalidElement)),
      Cache_Remove = (\<lambda>key. modifyC (\<lambda>d. d(key := None)))\<rparr>"

subsection \<open>The least recently used list\<close>

text \<open>The list from front to back, each node with its identity, and the next fresh identity.\<close>

record lru_list =
  lru_nodes :: "(nat \<times> string) list"
  lru_fresh :: nat

definition lru_empty :: lru_list where
  "lru_empty = \<lparr>lru_nodes = [], lru_fresh = 0\<rparr>"

definition lru_push_front :: "string \<Rightarrow> lru_list \<Rightarrow> lru_list" where
  "lru_push_front key l = \<lparr>lru_nodes = (lru_fresh l, key) # lru_nodes l, lru_fresh = lru_fresh l + 1\<rparr>"

text \<open>\<open>splice\<close> of one node to the front, and \<open>erase\<close>; the iterator must be that of a node.\<close>

definition lru_splice :: "nat \<Rightarrow> lru_list \<Rightarrow> lru_list option" where
  "lru_splice it l =
     (case map_of (lru_nodes l) it of
        None \<Rightarrow> None
      | Some key \<Rightarrow> Some (l\<lparr>lru_nodes := (it, key) # filter (\<lambda>x. fst x \<noteq> it) (lru_nodes l)\<rparr>))"

definition lru_erase :: "nat \<Rightarrow> lru_list \<Rightarrow> lru_list option" where
  "lru_erase it l =
     (case map_of (lru_nodes l) it of
        None \<Rightarrow> None
      | Some key \<Rightarrow> Some (l\<lparr>lru_nodes := filter (\<lambda>x. fst x \<noteq> it) (lru_nodes l)\<rparr>))"

text \<open>
  The loop that makes room: \<open>back()\<close> of an empty list is undefined, which happens when
  \<open>_maxSize\<close> is zero.
\<close>

function lru_evict :: "('v, 's) Cache \<Rightarrow> nat \<Rightarrow> 's \<times> lru_list \<Rightarrow> ((exn + unit) \<times> ('s \<times> lru_list)) option" where
  "lru_evict rc max_size (s, l) =
     (if length (lru_nodes l) < max_size then Some (Inr (), (s, l))
      else if lru_nodes l = [] then None
      else case Cache_Remove rc (snd (last (lru_nodes l))) s of
             None \<Rightarrow> None
           | Some (Inl e, s') \<Rightarrow> Some (Inl e, (s', l))
           | Some (Inr _, s') \<Rightarrow> lru_evict rc max_size (s', l\<lparr>lru_nodes := butlast (lru_nodes l)\<rparr>))"
  by pat_completeness auto
termination by (relation "measure (\<lambda>(_, _, _, l). length (lru_nodes l))") simp_all

declare lru_evict.simps [simp del]

definition on_real :: "('s, 'a) comp \<Rightarrow> ('s \<times> lru_list, 'a) comp" where
  "on_real m = zoomC fst (\<lambda>s (_, l). (s, l)) m"

definition on_list :: "(lru_list \<Rightarrow> lru_list option) \<Rightarrow> ('s \<times> lru_list, unit) comp" where
  "on_list f = (\<lambda>(s, l). case f l of None \<Rightarrow> None | Some l' \<Rightarrow> Some (Inr (), (s, l')))"

definition LRU_Insert :: "('v, 's) Cache option \<Rightarrow> nat \<Rightarrow> string \<Rightarrow> 'v element \<Rightarrow> ('s \<times> lru_list, unit) comp" where
  "LRU_Insert realCache max_size key e =
     (case realCache of
        None \<Rightarrow> ret ()
      | Some rc \<Rightarrow>
          thenC (lru_evict rc max_size)
          (bindC (getC (\<lambda>x. lru_fresh (snd x))) (\<lambda>it.
            thenC (on_list (\<lambda>l. Some (lru_push_front key l)))
              (on_real (Cache_Insert rc key (e\<lparr>el_data := AnyLRU it (el_data e)\<rparr>))))))"

definition LRU_Get :: "('v, 's) Cache option \<Rightarrow> string \<Rightarrow> ('s \<times> lru_list, 'v element) comp" where
  "LRU_Get realCache key =
     (case realCache of
        None \<Rightarrow> ret InvalidElement
      | Some rc \<Rightarrow>
          bindC (on_real (Cache_Get rc key)) (\<lambda>element.
            if \<not> Cache_IsValid element then ret InvalidElement
            else bindC (liftE (any_cast_LRU (el_data element))) (\<lambda>(it, data).
              thenC (on_list (lru_splice it))
                    (ret (element\<lparr>el_data := data\<rparr>)))))"

definition LRU_Remove :: "('v, 's) Cache option \<Rightarrow> string \<Rightarrow> ('s \<times> lru_list, unit) comp" where
  "LRU_Remove realCache key =
     (case realCache of
        None \<Rightarrow> ret ()
      | Some rc \<Rightarrow>
          bindC (on_real (Cache_Get rc key)) (\<lambda>element.
            if \<not> Cache_IsValid element then ret ()
            else bindC (liftE (any_cast_LRU (el_data element))) (\<lambda>(it, data).
              thenC (on_list (lru_erase it))
                    (on_real (Cache_Remove rc key)))))"

definition LRUCache :: "('v, 's) Cache option \<Rightarrow> nat \<Rightarrow> ('v, 's \<times> lru_list) Cache" where
  "LRUCache realCache max_size =
     \<lparr>Cache_Insert = LRU_Insert realCache max_size,
      Cache_Get = LRU_Get realCache,
      Cache_Remove = LRU_Remove realCache\<rparr>"

subsection \<open>The state of the list\<close>

text \<open>
  What an \<open>LRUCache\<close> on top of a cache maintains, \<open>lookup\<close> being what the real cache holds: every entry of the real cache holds the iterator
  of a node for its key, nodes are distinct and no more than the size allows.
\<close>

definition lru_inv_of :: "('s \<Rightarrow> string \<Rightarrow> 'v element option) \<Rightarrow> nat \<Rightarrow> 's \<times> lru_list \<Rightarrow> bool" where
  "lru_inv_of lookup max_size x \<longleftrightarrow>
     length (lru_nodes (snd x)) \<le> max_size \<and>
     distinct (map fst (lru_nodes (snd x))) \<and>
     (\<forall>it\<in>fst ` set (lru_nodes (snd x)). it < lru_fresh (snd x)) \<and>
     (\<forall>key e. lookup (fst x) key = Some e \<longrightarrow>
        (\<exists>it d. el_data e = AnyLRU it d \<and> (it, key) \<in> set (lru_nodes (snd x))))"

text \<open>
  The list as an abstract LRU cache: keys with their elements, the most recently used first.
  The stronger invariant, that every node has its entry and no key has two, is what makes
  the list that abstraction.
\<close>

definition plain_element :: "'v element \<Rightarrow> 'v element" where
  "plain_element e = (case el_data e of AnyLRU it d \<Rightarrow> e\<lparr>el_data := d\<rparr> | _ \<Rightarrow> e)"

definition lru_exact_of :: "('s \<Rightarrow> string \<Rightarrow> 'v element option) \<Rightarrow> nat \<Rightarrow> 's \<times> lru_list \<Rightarrow> bool" where
  "lru_exact_of lookup max_size x \<longleftrightarrow> lru_inv_of lookup max_size x \<and> distinct (map snd (lru_nodes (snd x))) \<and>
     (\<forall>key\<in>snd ` set (lru_nodes (snd x)). lookup (fst x) key \<noteq> None)"

definition lru_abs_of :: "('s \<Rightarrow> string \<Rightarrow> 'v element option) \<Rightarrow> 's \<times> lru_list \<Rightarrow> (string \<times> 'v element) list" where
  "lru_abs_of lookup x = map (\<lambda>node. (snd node, plain_element (the (lookup (fst x) (snd node))))) (lru_nodes (snd x))"

text \<open>
  The abstract state in general: a list of slots, the most recently used first. Every list node is
  a slot of its key, with the element when the entry of the key holds the iterator of this node. A
  node that was left behind by a second insertion of its key is a stale slot, without an element.
\<close>

type_synonym 'v slots = "(string \<times> 'v element option) list"

definition slot_of :: "(string \<Rightarrow> 'v element option) \<Rightarrow> nat \<times> string \<Rightarrow> string \<times> 'v element option" where
  "slot_of m = (\<lambda>(it, key). (key, case m key of
     None \<Rightarrow> None
   | Some e \<Rightarrow> (case el_data e of AnyLRU it' d \<Rightarrow> if it' = it then Some (e\<lparr>el_data := d\<rparr>) else None | _ \<Rightarrow> None)))"

definition lru_slots_of :: "('s \<Rightarrow> string \<Rightarrow> 'v element option) \<Rightarrow> 's \<times> lru_list \<Rightarrow> 'v slots" where
  "lru_slots_of lookup x = map (slot_of (lookup (fst x))) (lru_nodes (snd x))"

definition slots_find :: "string \<Rightarrow> 'v slots \<Rightarrow> 'v element option" where
  "slots_find key xs = (case find (\<lambda>(k, v). k = key \<and> v \<noteq> None) xs of None \<Rightarrow> None | Some (k, v) \<Rightarrow> v)"

definition slots_drop :: "string \<Rightarrow> 'v slots \<Rightarrow> 'v slots" where
  "slots_drop key xs = filter (\<lambda>(k, v). k \<noteq> key \<or> v = None) xs"

text \<open>
  An insertion cuts the slots to make room; the element of every key that is cut, in whatever slot,
  is lost, and so is the earlier element of the key itself.
\<close>

definition slots_insert :: "nat \<Rightarrow> string \<Rightarrow> 'v element \<Rightarrow> 'v slots \<Rightarrow> 'v slots" where
  "slots_insert max_size key e xs =
     (let lost = key # map fst (drop (max_size - 1) xs)
      in (key, Some e) # map (\<lambda>(k, v). (k, if k \<in> set lost then None else v)) (take (max_size - 1) xs))"

lemma fst_slot_of [simp]: "fst (slot_of m node) = snd node"
  by (simp add: slot_of_def split: prod.split)

lemma slots_find_simps [simp]:
  "slots_find key [] = None"
  "slots_find key ((k, v) # xs) = (if k = key \<and> v \<noteq> None then v else slots_find key xs)"
  by (auto simp: slots_find_def)

lemma slots_find_unique:
  "(key, Some v) \<in> set xs \<Longrightarrow> \<forall>v'. (key, Some v') \<in> set xs \<longrightarrow> v' = v \<Longrightarrow> slots_find key xs = Some v"
proof (induction xs)
  case (Cons x xs)
  obtain k v0 where x: "x = (k, v0)" by fastforce
  show ?case
  proof (cases "k = key \<and> v0 \<noteq> None")
    case True
    then obtain v' where v': "k = key" "v0 = Some v'" by auto
    then have "v' = v" using Cons.prems(2) x by simp
    with v' x show ?thesis by simp
  next
    case False
    then have "(key, Some v) \<in> set xs" using Cons.prems(1) x by auto
    from Cons.IH [OF this] Cons.prems(2) have "slots_find key xs = Some v" by simp
    with False x show ?thesis by auto
  qed
qed simp

lemma slots_find_None: "(\<And>v. (key, Some v) \<notin> set xs) \<Longrightarrow> slots_find key xs = None"
proof (induction xs)
  case (Cons x xs)
  obtain k v0 where x: "x = (k, v0)" by fastforce
  have "\<not> (k = key \<and> v0 \<noteq> None)"
  proof
    assume "k = key \<and> v0 \<noteq> None"
    with Cons.prems [of "the v0"] x show False by auto
  qed
  moreover have "slots_find key xs = None" using Cons.prems by (intro Cons.IH) simp
  ultimately show ?case by (auto simp: x)
qed simp

subsection \<open>The contract of a cache that forgets nothing\<close>

locale map_cache =
  fixes cache :: "('v, 's) Cache" and lookup :: "'s \<Rightarrow> string \<Rightarrow> 'v element option"
  assumes Get: "Cache_Get cache key s =
      Some (Inr (case lookup s key of Some e \<Rightarrow> e | None \<Rightarrow> InvalidElement), s)"
    and Insert: "\<exists>s'. Cache_Insert cache key e s = Some (Inr (), s') \<and> lookup s' = (lookup s)(key \<mapsto> e)"
    and Remove: "\<exists>s'. Cache_Remove cache key s = Some (Inr (), s') \<and> lookup s' = (lookup s)(key := None)"
begin

abbreviation lru_inv :: "nat \<Rightarrow> 's \<times> lru_list \<Rightarrow> bool" where
  "lru_inv \<equiv> lru_inv_of lookup"

abbreviation lru_exact :: "nat \<Rightarrow> 's \<times> lru_list \<Rightarrow> bool" where
  "lru_exact \<equiv> lru_exact_of lookup"

abbreviation lru_slots :: "'s \<times> lru_list \<Rightarrow> 'v slots" where
  "lru_slots \<equiv> lru_slots_of lookup"

abbreviation lru_abs :: "'s \<times> lru_list \<Rightarrow> (string \<times> 'v element) list" where
  "lru_abs \<equiv> lru_abs_of lookup"

lemma lru_invD:
  assumes "lru_inv max_size (s, l)" and "lookup s key = Some e"
  obtains it d where "el_data e = AnyLRU it d" "map_of (lru_nodes l) it = Some key"
    "(it, key) \<in> set (lru_nodes l)"
  using assms unfolding lru_inv_of_def by fastforce

lemma lru_evict_run:
  "0 < max_size \<Longrightarrow>
   \<exists>s' l'. lru_evict cache max_size (s, l) = Some (Inr (), (s', l')) \<and>
     lru_nodes l' = take (max_size - 1) (lru_nodes l) \<and> lru_fresh l' = lru_fresh l \<and>
     (\<forall>key. lookup s' key =
        (if key \<in> snd ` set (drop (max_size - 1) (lru_nodes l)) then None else lookup s key))"
proof (induction "length (lru_nodes l)" arbitrary: s l)
  case 0
  then show ?case by (simp add: lru_evict.simps)
next
  case (Suc k)
  show ?case
  proof (cases "length (lru_nodes l) < max_size")
    case True
    then show ?thesis by (simp add: lru_evict.simps [of cache max_size s l])
  next
    case False
    have ne: "lru_nodes l \<noteq> []" using Suc.hyps(2) by auto
    then obtain xs x where xs: "lru_nodes l = xs @ [x]" by (cases "lru_nodes l" rule: rev_cases) auto
    obtain s1 where s1: "Cache_Remove cache (snd x) s = Some (Inr (), s1)"
        "lookup s1 = (lookup s)(snd x := None)"
      using Remove by blast
    let ?l = "l\<lparr>lru_nodes := xs\<rparr>"
    have "k = length (lru_nodes ?l)" using Suc.hyps(2) xs by simp
    from Suc.hyps(1) [OF this Suc.prems, of s1] obtain s' l' where
      run: "lru_evict cache max_size (s1, ?l) = Some (Inr (), (s', l'))"
      and l': "lru_nodes l' = take (max_size - 1) xs" "lru_fresh l' = lru_fresh l"
      and lk: "\<forall>key. lookup s' key = (if key \<in> snd ` set (drop (max_size - 1) xs) then None else lookup s1 key)"
      by auto
    have "lru_evict cache max_size (s, l) = Some (Inr (), (s', l'))"
      using False ne s1(1) run xs by (simp add: lru_evict.simps [of cache max_size s l])
    moreover have "max_size - 1 \<le> length xs" using False xs by simp
    ultimately show ?thesis using l' lk s1(2) xs by auto
  qed
qed

lemma filter_node:
  assumes "distinct (map fst xs)" and "distinct (map snd xs)" and "(it, key) \<in> set xs"
  shows "filter (\<lambda>x. fst x \<noteq> it) xs = filter (\<lambda>x. snd x \<noteq> key) xs"
proof (rule filter_cong [OF refl])
  fix y assume y: "y \<in> set xs"
  show "fst y \<noteq> it \<longleftrightarrow> snd y \<noteq> key"
  proof -
    have inj: "inj_on fst (set xs)" "inj_on snd (set xs)" using assms(1,2) by (simp_all add: distinct_map)
    have "y = (it, key)" if "fst y = it"
      by (rule inj_onD [OF inj(1) _ y assms(3)]) (simp add: that)
    moreover have "y = (it, key)" if "snd y = key"
      by (rule inj_onD [OF inj(2) _ y assms(3)]) (simp add: that)
    ultimately show ?thesis by (metis fst_conv snd_conv)
  qed
qed

lemma lru_inv_evict:
  assumes inv: "lru_inv max_size (s, l)" and nodes: "lru_nodes l' = take (max_size - 1) (lru_nodes l)"
    and fresh: "lru_fresh l' = lru_fresh l"
    and lk: "\<forall>key. lookup s' key =
        (if key \<in> snd ` set (drop (max_size - 1) (lru_nodes l)) then None else lookup s key)"
  shows "lru_inv max_size (s', l')"
proof -
  have set: "set (lru_nodes l) = set (lru_nodes l') \<union> set (drop (max_size - 1) (lru_nodes l))"
    unfolding nodes by (metis append_take_drop_id set_append)
  have "\<exists>it d. el_data e = AnyLRU it d \<and> (it, key) \<in> set (lru_nodes l')" if "lookup s' key = Some e" for key e
  proof -
    from that lk have out: "key \<notin> snd ` set (drop (max_size - 1) (lru_nodes l))" and "lookup s key = Some e"
      by (auto split: if_splits)
    with inv obtain it d where "el_data e = AnyLRU it d" "(it, key) \<in> set (lru_nodes l)"
      by (auto elim: lru_invD)
    moreover from this(2) out have "(it, key) \<in> set (lru_nodes l')" unfolding set by force
    ultimately show ?thesis by blast
  qed
  then show ?thesis
    using inv unfolding lru_inv_of_def nodes fresh fst_conv snd_conv
    by (auto simp: take_map [symmetric] distinct_take dest: in_set_takeD)
qed

lemma lru_exact_evict:
  assumes ex: "lru_exact max_size (s, l)" and nodes: "lru_nodes l' = take (max_size - 1) (lru_nodes l)"
    and fresh: "lru_fresh l' = lru_fresh l"
    and lk: "\<forall>key. lookup s' key =
        (if key \<in> snd ` set (drop (max_size - 1) (lru_nodes l)) then None else lookup s key)"
  shows "lru_exact max_size (s', l') \<and> lru_abs (s', l') = take (max_size - 1) (lru_abs (s, l))"
proof -
  have inv: "lru_inv max_size (s', l')" using ex by (intro lru_inv_evict [OF _ nodes fresh lk]) (simp add: lru_exact_of_def)
  have d: "distinct (map snd (lru_nodes l))" using ex by (simp add: lru_exact_of_def)
  have "snd ` set (take (max_size - 1) (lru_nodes l)) \<inter> snd ` set (drop (max_size - 1) (lru_nodes l)) = {}"
    using d by (metis append_take_drop_id distinct_append map_append set_map)
  then have same: "lookup s' key = lookup s key" if "key \<in> snd ` set (lru_nodes l')" for key
    using that lk nodes by auto
  have "\<forall>key\<in>snd ` set (lru_nodes l'). lookup s' key \<noteq> None"
    using same ex nodes by (auto simp: lru_exact_of_def dest: in_set_takeD)
  moreover have "distinct (map snd (lru_nodes l'))"
    using d by (simp add: nodes take_map [symmetric] distinct_take)
  moreover have "lru_abs (s', l') = take (max_size - 1) (lru_abs (s, l))"
    using same by (simp add: lru_abs_of_def nodes take_map)
  ultimately show ?thesis using inv by (simp add: lru_exact_of_def)
qed

lemma lru_inv_push:
  assumes inv: "lru_inv max_size (s, l)" and len: "length (lru_nodes l) < max_size"
    and s': "lookup s' = (lookup s)(key \<mapsto> e\<lparr>el_data := AnyLRU (lru_fresh l) d\<rparr>)"
  shows "lru_inv max_size (s', lru_push_front key l)"
  using inv len by (auto simp: lru_inv_of_def lru_push_front_def s' less_Suc_eq)

lemma slots_push:
  assumes inv: "lru_inv max_size (s, l)" and nodes: "lru_nodes l' = take (max_size - 1) (lru_nodes l)"
    and fresh: "lru_fresh l' = lru_fresh l"
    and lk: "\<forall>key. lookup s1 key =
        (if key \<in> snd ` set (drop (max_size - 1) (lru_nodes l)) then None else lookup s key)"
    and s2: "lookup s2 = (lookup s1)(key \<mapsto> e\<lparr>el_data := AnyLRU (lru_fresh l') (el_data e)\<rparr>)"
  shows "lru_slots (s2, lru_push_front key l') = slots_insert max_size key e (lru_slots (s, l))"
proof -
  have "slot_of (lookup s2) node = (\<lambda>(k, v). (k, if k \<in> set (key # map fst (drop (max_size - 1) (lru_slots (s, l)))) then None else v))
      (slot_of (lookup s) node)" if "node \<in> set (take (max_size - 1) (lru_nodes l))" for node
  proof -
    obtain it k where node: "node = (it, k)" by fastforce
    with that inv have "it \<noteq> lru_fresh l" by (force simp: lru_inv_of_def dest: in_set_takeD)
    moreover have "fst ` set (drop (max_size - 1) (lru_slots (s, l))) = snd ` set (drop (max_size - 1) (lru_nodes l))"
      by (simp add: lru_slots_of_def drop_map image_image)
    ultimately show ?thesis using fresh lk by (auto simp: node slot_of_def s2)
  qed
  then show ?thesis
    by (simp add: lru_slots_of_def slots_insert_def Let_def lru_push_front_def nodes take_map s2 slot_of_def)
qed

lemma LRU_Insert_run:
  assumes "0 < max_size"
  shows "\<exists>x'. LRU_Insert (Some cache) max_size key e x = Some (Inr (), x') \<and>
     (lru_inv max_size x \<longrightarrow> lru_inv max_size x' \<and> lru_slots x' = slots_insert max_size key e (lru_slots x)) \<and>
     (lru_exact max_size x \<longrightarrow> key \<notin> fst ` set (lru_abs x) \<longrightarrow>
        lru_exact max_size x' \<and> lru_abs x' = (key, e) # take (max_size - 1) (lru_abs x))"
proof -
  obtain s l where x: "x = (s, l)" by (cases x)
  obtain s1 l1 where ev: "lru_evict cache max_size (s, l) = Some (Inr (), (s1, l1))"
      and nodes: "lru_nodes l1 = take (max_size - 1) (lru_nodes l)" and fresh: "lru_fresh l1 = lru_fresh l"
      and lk: "\<forall>key. lookup s1 key =
        (if key \<in> snd ` set (drop (max_size - 1) (lru_nodes l)) then None else lookup s key)"
    using lru_evict_run [OF assms, of s l] by blast
  let ?e = "e\<lparr>el_data := AnyLRU (lru_fresh l1) (el_data e)\<rparr>"
  obtain s2 where s2: "Cache_Insert cache key ?e s1 = Some (Inr (), s2)" "lookup s2 = (lookup s1)(key \<mapsto> ?e)"
    using Insert by blast
  let ?x = "(s2, lru_push_front key l1)"
  have run: "LRU_Insert (Some cache) max_size key e x = Some (Inr (), ?x)"
    using ev s2(1) by (simp add: x LRU_Insert_def comp_simps on_list_def on_real_def zoomC_def)
  have len: "length (lru_nodes l1) < max_size" using assms nodes by simp
  have "lru_inv max_size x \<longrightarrow> lru_inv max_size ?x"
    using lru_inv_evict [OF _ nodes fresh lk] lru_inv_push [OF _ len s2(2)] x by blast
  moreover have "lru_slots ?x = slots_insert max_size key e (lru_slots x)" if "lru_inv max_size x"
    using slots_push [OF that [unfolded x] nodes fresh lk s2(2)] by (simp add: x)
  moreover have "lru_exact max_size ?x \<and> lru_abs ?x = (key, e) # take (max_size - 1) (lru_abs x)"
    if ex: "lru_exact max_size x" and new: "key \<notin> fst ` set (lru_abs x)"
  proof -
    have ex1: "lru_exact max_size (s1, l1)" "lru_abs (s1, l1) = take (max_size - 1) (lru_abs x)"
      using lru_exact_evict [OF _ nodes fresh lk] ex x by simp_all
    have new1: "key \<notin> snd ` set (lru_nodes l1)"
      using new nodes x by (force simp: lru_abs_of_def dest: in_set_takeD)
    have "lru_exact max_size ?x"
      using ex1(1) lru_inv_push [OF _ len s2(2)] new1 s2(2)
      unfolding lru_exact_of_def by (auto simp: lru_push_front_def)
    moreover have "lru_abs ?x = (key, e) # lru_abs (s1, l1)"
      using new1 s2(2) by (auto simp: lru_abs_of_def lru_push_front_def plain_element_def)
    ultimately show ?thesis using ex1(2) by simp
  qed
  ultimately show ?thesis using run by blast
qed

lemma lru_inv_reorder:
  assumes "lru_inv max_size (s, l)" and "set nodes = set (lru_nodes l)" and "distinct (map fst nodes)"
    and "length nodes \<le> length (lru_nodes l)"
  shows "lru_inv max_size (s, l\<lparr>lru_nodes := nodes\<rparr>)"
  using assms unfolding lru_inv_of_def by simp

lemma slots_live:
  assumes inv: "lru_inv max_size (s, l)" and key: "lookup s key = Some e" "el_data e = AnyLRU it d"
  shows "slots_find key (lru_slots (s, l)) = Some (e\<lparr>el_data := d\<rparr>)"
    and "slots_drop key (lru_slots (s, l)) = map (slot_of (lookup s)) (filter (\<lambda>x. fst x \<noteq> it) (lru_nodes l))"
    and "map (slot_of ((lookup s)(key := None))) (filter (\<lambda>x. fst x \<noteq> it) (lru_nodes l))
      = map (slot_of (lookup s)) (filter (\<lambda>x. fst x \<noteq> it) (lru_nodes l))"
proof -
  have it: "(it, key) \<in> set (lru_nodes l)" using inv key by (auto elim: lru_invD)
  have dist: "distinct (map fst (lru_nodes l))" using inv by (simp add: lru_inv_of_def)
  have live: "slot_of (lookup s) (it', k) = (key, Some v) \<longleftrightarrow> k = key \<and> it' = it \<and> v = e\<lparr>el_data := d\<rparr>" for it' k v
    using key by (auto simp: slot_of_def split: if_splits)
  show "slots_find key (lru_slots (s, l)) = Some (e\<lparr>el_data := d\<rparr>)"
  proof (rule slots_find_unique)
    show "(key, Some (e\<lparr>el_data := d\<rparr>)) \<in> set (lru_slots (s, l))"
      using live [of it key "e\<lparr>el_data := d\<rparr>"] it by (auto simp: lru_slots_of_def intro!: image_eqI [where x = "(it, key)"])
    show "\<forall>v'. (key, Some v') \<in> set (lru_slots (s, l)) \<longrightarrow> v' = e\<lparr>el_data := d\<rparr>"
    proof (intro allI impI)
      fix v' assume "(key, Some v') \<in> set (lru_slots (s, l))"
      then obtain it' k where "slot_of (lookup s) (it', k) = (key, Some v')" by (auto simp: lru_slots_of_def)
      then show "v' = e\<lparr>el_data := d\<rparr>" by (simp add: live)
    qed
  qed
  have "(\<lambda>(k, v). k \<noteq> key \<or> v = None) (slot_of (lookup s) node) \<longleftrightarrow> fst node \<noteq> it"
    if "node \<in> set (lru_nodes l)" for node
  proof -
    obtain it' k where node: "node = (it', k)" by fastforce
    have "it' \<noteq> it" if "k \<noteq> key"
      using that it \<open>node \<in> _\<close> eq_key_imp_eq_value [OF dist, of it k key] unfolding node by blast
    then show ?thesis using key by (auto simp: node slot_of_def)
  qed
  then have "filter ((\<lambda>(k, v). k \<noteq> key \<or> v = None) \<circ> slot_of (lookup s)) (lru_nodes l) = filter (\<lambda>x. fst x \<noteq> it) (lru_nodes l)"
    by (intro filter_cong refl) simp
  then show "slots_drop key (lru_slots (s, l)) = map (slot_of (lookup s)) (filter (\<lambda>x. fst x \<noteq> it) (lru_nodes l))"
    by (simp add: slots_drop_def lru_slots_of_def filter_map)
  show "map (slot_of ((lookup s)(key := None))) (filter (\<lambda>x. fst x \<noteq> it) (lru_nodes l))
      = map (slot_of (lookup s)) (filter (\<lambda>x. fst x \<noteq> it) (lru_nodes l))"
    using key by (auto simp: slot_of_def)
qed

lemma LRU_Get_run:
  assumes inv: "lru_inv max_size x"
  shows "\<exists>e x'. LRU_Get (Some cache) key x = Some (Inr e, x') \<and> lru_inv max_size x' \<and>
     (case slots_find key (lru_slots x) of
        None \<Rightarrow> e = InvalidElement \<and> lru_slots x' = lru_slots x
      | Some v \<Rightarrow> e = v \<and> lru_slots x' = (key, Some v) # slots_drop key (lru_slots x)) \<and>
     (lru_exact max_size x \<longrightarrow> lru_exact max_size x' \<and>
        (case map_of (lru_abs x) key of
           None \<Rightarrow> e = InvalidElement \<and> lru_abs x' = lru_abs x
         | Some v \<Rightarrow> e = v \<and> lru_abs x' = (key, v) # filter (\<lambda>y. fst y \<noteq> key) (lru_abs x)))"
proof -
  obtain s l where x: "x = (s, l)" by (cases x)
  show ?thesis
  proof (cases "lookup s key")
    case None
    have "LRU_Get (Some cache) key x = Some (Inr InvalidElement, x)"
      using None by (simp add: x LRU_Get_def comp_simps on_real_def zoomC_def Get Cache_IsValid_def
          InvalidElement_def any_has_value_def)
    moreover have "map_of (lru_abs x) key = None" if "lru_exact max_size x"
      using that None x by (force simp: lru_exact_of_def lru_abs_of_def map_of_eq_None_iff)
    moreover have "slots_find key (lru_slots x) = None"
      using None by (intro slots_find_None) (auto simp: x lru_slots_of_def slot_of_def split: prod.splits)
    ultimately show ?thesis using inv by (intro exI [of _ InvalidElement] exI [of _ x]) simp
  next
    case (Some e)
    from inv [unfolded x] Some obtain it d where e: "el_data e = AnyLRU it d"
        and it: "map_of (lru_nodes l) it = Some key" "(it, key) \<in> set (lru_nodes l)"
      by (rule lru_invD) 
    let ?l = "l\<lparr>lru_nodes := (it, key) # filter (\<lambda>x. fst x \<noteq> it) (lru_nodes l)\<rparr>"
    have run: "LRU_Get (Some cache) key x = Some (Inr (e\<lparr>el_data := d\<rparr>), (s, ?l))"
      using Some e it(1) by (simp add: x LRU_Get_def comp_simps on_real_def zoomC_def Get Cache_IsValid_def
          any_has_value_def on_list_def lru_splice_def)
    have dist: "distinct (map fst (lru_nodes l))" using inv x by (simp add: lru_inv_of_def)
    have len: "length ((it, key) # filter (\<lambda>x. fst x \<noteq> it) (lru_nodes l)) \<le> length (lru_nodes l)"
      using it(2) length_filter_less [of "(it, key)" "lru_nodes l" "\<lambda>x. fst x \<noteq> it"] by simp
    have same: "(it', k') \<in> set ((it, key) # filter (\<lambda>x. fst x \<noteq> it) (lru_nodes l)) \<longleftrightarrow> (it', k') \<in> set (lru_nodes l)"
      for it' k' using it(2) by (auto dest: eq_key_imp_eq_value [OF dist])
    have set: "set ((it, key) # filter (\<lambda>x. fst x \<noteq> it) (lru_nodes l)) = set (lru_nodes l)"
    proof (rule set_eqI)
      show "y \<in> set ((it, key) # filter (\<lambda>x. fst x \<noteq> it) (lru_nodes l)) \<longleftrightarrow> y \<in> set (lru_nodes l)" for y
        using same [of "fst y" "snd y"] by (simp only: prod.collapse)
    qed
    have inv': "lru_inv max_size (s, ?l)"
      using inv len dist unfolding x by (intro lru_inv_reorder set) (auto simp: distinct_map_filter)
    have "lru_exact max_size (s, ?l) \<and> map_of (lru_abs x) key = Some (e\<lparr>el_data := d\<rparr>) \<and>
        lru_abs (s, ?l) = (key, e\<lparr>el_data := d\<rparr>) # filter (\<lambda>y. fst y \<noteq> key) (lru_abs x)"
      if ex: "lru_exact max_size x"
    proof -
      have keys: "distinct (map snd (lru_nodes l))" using ex x by (simp add: lru_exact_of_def)
      have flt: "filter (\<lambda>x. fst x \<noteq> it) (lru_nodes l) = filter (\<lambda>x. snd x \<noteq> key) (lru_nodes l)"
        by (rule filter_node [OF dist keys it(2)])
      have "lru_exact max_size (s, ?l)"
        using ex inv' keys it(2) set unfolding lru_exact_of_def x by (auto simp: flt distinct_map_filter)
      moreover have "map_of (lru_abs x) key = Some (e\<lparr>el_data := d\<rparr>)"
      proof (rule map_of_is_SomeI)
        show "distinct (map fst (lru_abs x))" using keys by (simp add: x lru_abs_of_def comp_def)
        show "(key, e\<lparr>el_data := d\<rparr>) \<in> set (lru_abs x)"
          using it(2) Some e by (force simp: x lru_abs_of_def plain_element_def)
      qed
      moreover have "lru_abs (s, ?l) = (key, e\<lparr>el_data := d\<rparr>) # filter (\<lambda>y. fst y \<noteq> key) (lru_abs x)"
        using Some e by (simp add: x lru_abs_of_def plain_element_def flt filter_map comp_def)
      ultimately show ?thesis by blast
    qed
    moreover have "lru_slots (s, ?l) = (key, Some (e\<lparr>el_data := d\<rparr>)) # slots_drop key (lru_slots x)"
      "slots_find key (lru_slots x) = Some (e\<lparr>el_data := d\<rparr>)"
      using slots_live [OF inv [unfolded x] Some e] it(2) Some e by (simp_all add: x lru_slots_of_def slot_of_def)
    ultimately show ?thesis using run inv' by (intro exI [of _ "e\<lparr>el_data := d\<rparr>"] exI [of _ "(s, ?l)"]) simp
  qed
qed

lemma LRU_Remove_run:
  assumes inv: "lru_inv max_size x"
  shows "\<exists>x'. LRU_Remove (Some cache) key x = Some (Inr (), x') \<and> lru_inv max_size x' \<and>
     lru_slots x' = slots_drop key (lru_slots x) \<and>
     (lru_exact max_size x \<longrightarrow> lru_exact max_size x' \<and>
        lru_abs x' = filter (\<lambda>y. fst y \<noteq> key) (lru_abs x))"
proof -
  obtain s l where x: "x = (s, l)" by (cases x)
  show ?thesis
  proof (cases "lookup s key")
    case None
    have "LRU_Remove (Some cache) key x = Some (Inr (), x)"
      using None by (simp add: x LRU_Remove_def comp_simps on_real_def zoomC_def Get Cache_IsValid_def
          InvalidElement_def any_has_value_def)
    moreover have "filter (\<lambda>y. fst y \<noteq> key) (lru_abs x) = lru_abs x" if "lru_exact max_size x"
      using that None x by (force simp: lru_exact_of_def lru_abs_of_def filter_id_conv)
    moreover have "slots_drop key (lru_slots x) = lru_slots x"
      using None by (auto simp: x lru_slots_of_def slots_drop_def slot_of_def filter_id_conv split: prod.splits)
    ultimately show ?thesis using inv by (intro exI [of _ x]) simp
  next
    case (Some e)
    from inv [unfolded x] Some obtain it d where e: "el_data e = AnyLRU it d"
        and it: "map_of (lru_nodes l) it = Some key" "(it, key) \<in> set (lru_nodes l)"
      by (rule lru_invD)
    obtain s' where s': "Cache_Remove cache key s = Some (Inr (), s')" "lookup s' = (lookup s)(key := None)"
      using Remove by blast
    let ?l = "l\<lparr>lru_nodes := filter (\<lambda>x. fst x \<noteq> it) (lru_nodes l)\<rparr>"
    have run: "LRU_Remove (Some cache) key x = Some (Inr (), (s', ?l))"
      using Some e it(1) s'(1) by (simp add: x LRU_Remove_def comp_simps on_real_def zoomC_def Get
          Cache_IsValid_def any_has_value_def on_list_def lru_erase_def)
    have dist: "distinct (map fst (lru_nodes l))" using inv x by (simp add: lru_inv_of_def)
    have "\<exists>it' d. el_data e' = AnyLRU it' d \<and> (it', k') \<in> set (lru_nodes ?l)" if "lookup s' k' = Some e'" for k' e'
    proof -
      from that s'(2) have "k' \<noteq> key" "lookup s k' = Some e'" by (auto split: if_splits)
      with inv x obtain it' d where "el_data e' = AnyLRU it' d" "(it', k') \<in> set (lru_nodes l)"
        by (auto elim: lru_invD)
      moreover from this(2) it(2) \<open>k' \<noteq> key\<close> have "it' \<noteq> it" by (auto dest: eq_key_imp_eq_value [OF dist])
      ultimately show ?thesis by auto
    qed
    moreover have "length (filter (\<lambda>x. fst x \<noteq> it) (lru_nodes l)) \<le> max_size"
      using inv x by (auto simp: lru_inv_of_def intro: order_trans [OF length_filter_le])
    ultimately have inv': "lru_inv max_size (s', ?l)"
      using inv x by (auto simp: lru_inv_of_def distinct_map_filter)
    have "lru_exact max_size (s', ?l) \<and> lru_abs (s', ?l) = filter (\<lambda>y. fst y \<noteq> key) (lru_abs x)"
      if ex: "lru_exact max_size x"
    proof -
      have keys: "distinct (map snd (lru_nodes l))" using ex x by (simp add: lru_exact_of_def)
      have flt: "filter (\<lambda>x. fst x \<noteq> it) (lru_nodes l) = filter (\<lambda>x. snd x \<noteq> key) (lru_nodes l)"
        by (rule filter_node [OF dist keys it(2)])
      have "lru_exact max_size (s', ?l)"
        using ex inv' keys s'(2) x by (auto simp: lru_exact_of_def flt distinct_map_filter)
      moreover have "lru_abs (s', ?l) = filter (\<lambda>y. fst y \<noteq> key) (lru_abs x)"
        using s'(2) by (simp add: x lru_abs_of_def flt filter_map comp_def)
      ultimately show ?thesis by blast
    qed
    moreover have "lru_slots (s', ?l) = slots_drop key (lru_slots x)"
      using slots_live(2,3) [OF inv [unfolded x] Some e] by (simp add: x lru_slots_of_def s'(2))
    ultimately show ?thesis using run inv' by (intro exI [of _ "(s', ?l)"]) simp
  qed
qed

end

interpretation unordered: map_cache UnorderedMapCache "\<lambda>d. d"
  by unfold_locales (simp_all add: UnorderedMapCache_def comp_simps)

subsection \<open>Caches in use\<close>

text \<open>The weaker contract that code using a cache needs: in good states every operation returns.\<close>

locale safe_cache =
  fixes cache :: "('v, 's) Cache" and ok :: "'s \<Rightarrow> bool"
  assumes Get_safe: "ok s \<Longrightarrow> \<exists>e s'. Cache_Get cache key s = Some (Inr e, s') \<and> ok s'"
    and Insert_safe: "ok s \<Longrightarrow> \<exists>s'. Cache_Insert cache key e s = Some (Inr (), s') \<and> ok s'"
    and Remove_safe: "ok s \<Longrightarrow> \<exists>s'. Cache_Remove cache key s = Some (Inr (), s') \<and> ok s'"

sublocale map_cache \<subseteq> safe: safe_cache cache "\<lambda>s. True"
proof
  show "\<exists>e s'. Cache_Get cache key s = Some (Inr e, s') \<and> True" for key s using Get by blast
  show "\<exists>s'. Cache_Insert cache key e s = Some (Inr (), s') \<and> True" for key e s using Insert by blast
  show "\<exists>s'. Cache_Remove cache key s = Some (Inr (), s') \<and> True" for key s using Remove by blast
qed

lemma LRUCache_sel [simp]:
  "Cache_Insert (LRUCache rc m) = LRU_Insert rc m" "Cache_Get (LRUCache rc m) = LRU_Get rc"
  "Cache_Remove (LRUCache rc m) = LRU_Remove rc"
  by (simp_all add: LRUCache_def)

interpretation lru: safe_cache "LRUCache (Some UnorderedMapCache) (Suc n)" "lru_inv_of (\<lambda>d. d) (Suc n)"
proof
  show "\<exists>e x'. Cache_Get (LRUCache (Some UnorderedMapCache) (Suc n)) key x = Some (Inr e, x') \<and>
      lru_inv_of (\<lambda>d. d) (Suc n) x'" if "lru_inv_of (\<lambda>d. d) (Suc n) x" for x :: "'v map_data \<times> lru_list" and key
    using unordered.LRU_Get_run [OF that, of key] by auto
  show "\<exists>x'. Cache_Insert (LRUCache (Some UnorderedMapCache) (Suc n)) key e x = Some (Inr (), x') \<and>
      lru_inv_of (\<lambda>d. d) (Suc n) x'" if "lru_inv_of (\<lambda>d. d) (Suc n) x" for x :: "'v map_data \<times> lru_list" and key e
    using unordered.LRU_Insert_run [of "Suc n" key e x] that by auto
  show "\<exists>x'. Cache_Remove (LRUCache (Some UnorderedMapCache) (Suc n)) key x = Some (Inr (), x') \<and>
      lru_inv_of (\<lambda>d. d) (Suc n) x'" if "lru_inv_of (\<lambda>d. d) (Suc n) x" for x :: "'v map_data \<times> lru_list" and key
    using unordered.LRU_Remove_run [OF that, of key] by auto
qed

datatype 'v cache_op = Op_Insert string "'v element" | Op_Get string | Op_Remove string

fun run_op :: "('v, 's) Cache \<Rightarrow> 'v cache_op \<Rightarrow> ('s, unit) comp" where
  "run_op c (Op_Insert key e) = Cache_Insert c key e"
| "run_op c (Op_Get key) = bindC (Cache_Get c key) (\<lambda>_. ret ())"
| "run_op c (Op_Remove key) = Cache_Remove c key"

fun run_ops :: "('v, 's) Cache \<Rightarrow> 'v cache_op list \<Rightarrow> ('s, unit) comp" where
  "run_ops c [] = ret ()"
| "run_ops c (x # xs) = thenC (run_op c x) (run_ops c xs)"

context safe_cache
begin

lemma run_op_safe: "ok s \<Longrightarrow> \<exists>s'. run_op cache x s = Some (Inr (), s') \<and> ok s'"
proof (cases x)
  case (Op_Get key)
  assume "ok s"
  from Get_safe [OF this, of key] Op_Get show ?thesis by (auto simp: comp_simps)
qed (simp_all add: Insert_safe Remove_safe)

lemma run_ops_safe: "ok s \<Longrightarrow> \<exists>s'. run_ops cache xs s = Some (Inr (), s') \<and> ok s'"
proof (induction xs arbitrary: s)
  case Nil
  then show ?case by (simp add: ret_apply)
next
  case (Cons x xs)
  from run_op_safe [OF Cons.prems, of x] obtain s1 where "run_op cache x s = Some (Inr (), s1)" "ok s1" by blast
  with Cons.IH [of s1] show ?case by (simp add: comp_simps)
qed

end

subsection \<open>Properties\<close>

text \<open>
  Claim C25: an \<open>LRUCache\<close> of positive size over an \<open>UnorderedMapCache\<close> is safe under every
  sequence of operations, repeated insertions of a key included: every operation returns, no
  iterator it follows is stale, and neither the list nor the real cache ever holds more than
  \<open>maxSize\<close> entries.
\<close>

theorem lru_operations_safe:
  assumes "0 < max_size"
  shows "\<exists>d l. run_ops (LRUCache (Some UnorderedMapCache) max_size) ops (Map.empty, lru_empty) = Some (Inr (), (d, l))
     \<and> length (lru_nodes l) \<le> max_size \<and> finite (dom d) \<and> card (dom d) \<le> max_size
     \<and> (\<forall>key e. d key = Some e \<longrightarrow> (\<exists>it v. el_data e = AnyLRU it v \<and> (it, key) \<in> set (lru_nodes l)))"
proof -
  obtain n where n: "max_size = Suc n" using assms by (cases max_size) auto
  have "lru_inv_of (\<lambda>d. d) (Suc n) (Map.empty, lru_empty)" by (simp add: lru_inv_of_def lru_empty_def)
  from lru.run_ops_safe [OF this, of ops] obtain d l
    where run: "run_ops (LRUCache (Some UnorderedMapCache) (Suc n)) ops (Map.empty, lru_empty) = Some (Inr (), (d, l))"
      and inv: "lru_inv_of (\<lambda>d. d) (Suc n) (d, l)" by auto
  have sub: "dom d \<subseteq> snd ` set (lru_nodes l)" using inv by (force simp: lru_inv_of_def)
  have "card (dom d) \<le> card (snd ` set (lru_nodes l))" by (rule card_mono [OF _ sub]) simp
  also have "\<dots> \<le> length (lru_nodes l)" by (meson card_image_le card_length finite_set order_trans)
  finally have "card (dom d) \<le> Suc n" using inv by (simp add: lru_inv_of_def)
  with run inv finite_subset [OF sub] show ?thesis
    unfolding n lru_inv_of_def by (intro exI [of _ d] exI [of _ l]) auto
qed

theorem lru_operations_safe_witness:
  "\<exists>d l. run_ops (LRUCache (Some UnorderedMapCache) 2)
       [Op_Insert ''a'' InvalidElement, Op_Insert ''a'' InvalidElement, Op_Get ''a'', Op_Remove ''a'']
       (Map.empty, lru_empty) = Some (Inr (), (d, l)) \<and> length (lru_nodes l) \<le> 2"
proof -
  have "0 < (2 :: nat)" by simp
  from lru_operations_safe [OF this, of "[Op_Insert ''a'' InvalidElement, Op_Insert ''a'' InvalidElement, Op_Get ''a'', Op_Remove ''a'']"]
  show ?thesis by blast
qed

text \<open>
  Claim C26: an \<open>LRUCache\<close> of positive size over an \<open>UnorderedMapCache\<close> is the abstract list of slots,
  for every key, absent or present, and from every state that its operations lead to (the invariant
  holds of the empty cache and is kept). \<open>Get\<close> answers the element of its key and moves its slot to the
  front, or answers the invalid element; \<open>Remove\<close> deletes the slot with the element; \<open>Insert\<close> puts a
  new slot in front, cuts the list to the size, and leaves stale slots behind: the one of the key
  itself, and those of every key that is cut.
\<close>

theorem lru_refines_list:
  assumes "0 < max_size" and "lru_inv_of (\<lambda>d. d) max_size x"
  defines "xs \<equiv> lru_slots_of (\<lambda>d. d) x"
  shows "(\<exists>x'. LRU_Get (Some UnorderedMapCache) key x =
        Some (Inr (case slots_find key xs of Some v \<Rightarrow> v | None \<Rightarrow> InvalidElement), x') \<and>
        lru_inv_of (\<lambda>d. d) max_size x' \<and>
        lru_slots_of (\<lambda>d. d) x' = (case slots_find key xs of Some v \<Rightarrow> (key, Some v) # slots_drop key xs | None \<Rightarrow> xs))
    \<and> (\<exists>x'. LRU_Remove (Some UnorderedMapCache) key x = Some (Inr (), x') \<and>
        lru_inv_of (\<lambda>d. d) max_size x' \<and> lru_slots_of (\<lambda>d. d) x' = slots_drop key xs)
    \<and> (\<exists>x'. LRU_Insert (Some UnorderedMapCache) max_size key e x = Some (Inr (), x') \<and>
        lru_inv_of (\<lambda>d. d) max_size x' \<and> lru_slots_of (\<lambda>d. d) x' = slots_insert max_size key e xs)"
  using unordered.LRU_Get_run [OF assms(2), of key] unordered.LRU_Remove_run [OF assms(2), of key]
    unordered.LRU_Insert_run [OF assms(1), of key e x] assms(2)
  unfolding xs_def by (cases "slots_find key (lru_slots_of (\<lambda>d. d) x)") auto

lemma lru_exact_empty: "lru_exact_of (\<lambda>d. d) max_size (Map.empty, lru_empty)"
  by (simp add: lru_exact_of_def lru_inv_of_def lru_empty_def)

lemma lru_abs_empty: "lru_abs_of (\<lambda>d. d) (Map.empty, lru_empty) = []"
  by (simp add: lru_abs_of_def lru_empty_def)

lemma lru_inv_empty: "lru_inv_of (\<lambda>d. d) max_size (Map.empty, lru_empty)"
  by (simp add: lru_inv_of_def lru_empty_def)

lemma lru_slots_empty: "lru_slots_of (\<lambda>d. d) (Map.empty, lru_empty) = []"
  by (simp add: lru_slots_of_def lru_empty_def)

theorem lru_refines_list_witness:
  "\<exists>x y. LRU_Insert (Some UnorderedMapCache) 2 ''a'' (InvalidElement :: int element) (Map.empty, lru_empty) = Some (Inr (), x) \<and>
     LRU_Insert (Some UnorderedMapCache) 2 ''a'' InvalidElement x = Some (Inr (), y) \<and>
     lru_slots_of (\<lambda>d. d) x = [(''a'', Some InvalidElement)] \<and>
     lru_slots_of (\<lambda>d. d) y = [(''a'', Some InvalidElement), (''a'', None)]"
proof -
  have two: "0 < (2 :: nat)" by simp
  note insert = lru_refines_list [OF two, where key = "''a''" and e = "InvalidElement :: int element"]
  obtain x :: "int map_data \<times> lru_list" where x: "LRU_Insert (Some UnorderedMapCache) 2 ''a'' InvalidElement (Map.empty, lru_empty) = Some (Inr (), x)"
      "lru_inv_of (\<lambda>d. d) 2 x" "lru_slots_of (\<lambda>d. d) x = [(''a'', Some InvalidElement)]"
    using insert [OF lru_inv_empty] by (auto simp: slots_insert_def lru_slots_empty)
  with insert [OF x(2)] show ?thesis by (auto simp: slots_insert_def)
qed

lemma run_inserts_slots:
  assumes "0 < max_size"
  shows "lru_inv_of (\<lambda>d. d) max_size x \<Longrightarrow>
    \<exists>x'. run_ops (LRUCache (Some UnorderedMapCache) max_size) (map (\<lambda>(k, e). Op_Insert k e) kvs) x = Some (Inr (), x') \<and>
      lru_inv_of (\<lambda>d. d) max_size x' \<and>
      lru_slots_of (\<lambda>d. d) x' = fold (\<lambda>(k, e). slots_insert max_size k e) kvs (lru_slots_of (\<lambda>d. d) x)"
proof (induction kvs arbitrary: x)
  case Nil
  then show ?case by (simp add: ret_apply)
next
  case (Cons kv kvs)
  obtain k e where kv: "kv = (k, e)" by fastforce
  from unordered.LRU_Insert_run [OF assms, of k e x] Cons.prems obtain x1
    where "LRU_Insert (Some UnorderedMapCache) max_size k e x = Some (Inr (), x1)" "lru_inv_of (\<lambda>d. d) max_size x1"
      "lru_slots_of (\<lambda>d. d) x1 = slots_insert max_size k e (lru_slots_of (\<lambda>d. d) x)" by blast
  with Cons.IH [of x1] show ?case by (simp add: kv thenC_Inr)
qed

text \<open>A stale slot moves to the end of the list; when it is cut, the element of its key is lost.\<close>

lemma stale_slot_moves:
  "length ys + 2 + length kvs \<le> max_size \<Longrightarrow> key \<notin> fst ` set kvs \<Longrightarrow> key \<notin> fst ` set ys \<Longrightarrow>
   \<exists>ys'. fold (\<lambda>(k, e). slots_insert max_size k e) kvs (ys @ [(key, v), (key, None)]) = ys' @ [(key, v), (key, None)] \<and>
     length ys' = length ys + length kvs \<and> key \<notin> fst ` set ys'"
proof (induction kvs arbitrary: ys)
  case (Cons kv kvs)
  obtain k e where kv: "kv = (k, e)" by fastforce
  let ?ys = "(k, Some e) # map (\<lambda>(k', v). (k', if k' = k then None else v)) ys"
  have "slots_insert max_size k e (ys @ [(key, v), (key, None)]) = ?ys @ [(key, v), (key, None)]"
    using Cons.prems by (auto simp: kv slots_insert_def)
  moreover have "key \<notin> fst ` set ?ys" using Cons.prems by (auto simp: kv)
  ultimately show ?case using Cons.IH [of ?ys] Cons.prems by (auto simp: kv)
qed simp

text \<open>
  Claim C27: inserting a key that is present leaves its list node behind, and when that stale node is
  the last of a full list, the next insertion evicts the key with its newer element. In a cache of
  any size from two on, a key is inserted twice and then as many others as there is room for beside
  it: the key is gone, although no more keys were inserted than the cache has places for.
\<close>

theorem lru_reinsert_evicts:
  assumes "2 \<le> max_size" and "length others + 1 = max_size" and "key \<notin> fst ` set others"
  shows "\<exists>x x'. run_ops (LRUCache (Some UnorderedMapCache) max_size)
        (map (\<lambda>(k, e). Op_Insert k e) ([(key, first), (key, second)] @ others)) (Map.empty, lru_empty) = Some (Inr (), x) \<and>
     LRU_Get (Some UnorderedMapCache) key x = Some (Inr InvalidElement, x')"
proof -
  let ?insert = "\<lambda>(k, e). slots_insert max_size k e"
  have pos: "0 < max_size" using assms(1) by simp
  from assms obtain kvs k e where others: "others = kvs @ [(k, e)]" by (cases others rule: rev_cases) auto
  obtain ys where ys: "fold ?insert kvs ([] @ [(key, Some second), (key, None)]) = ys @ [(key, Some second), (key, None)]"
      "length ys = length kvs" "key \<notin> fst ` set ys"
    using stale_slot_moves [of "[]" kvs max_size key "Some second"] assms others by auto
  have "fold ?insert [(key, first), (key, second)] [] = [(key, Some second), (key, None)]"
    using assms(1) by (simp add: slots_insert_def)
  moreover have "slots_insert max_size k e (ys @ [(key, Some second), (key, None)]) =
      (k, Some e) # map (\<lambda>(k', v). (k', if k' \<in> {k, key} then None else v)) (ys @ [(key, Some second)])"
    using assms others ys(2) by (auto simp: slots_insert_def)
  ultimately have slots: "fold ?insert ([(key, first), (key, second)] @ others) [] =
      (k, Some e) # map (\<lambda>(k', v). (k', if k' \<in> {k, key} then None else v)) (ys @ [(key, Some second)])"
    using ys(1) others by simp
  have gone: "slots_find key (fold ?insert ([(key, first), (key, second)] @ others) []) = None"
    unfolding slots by (rule slots_find_None) (use assms others in \<open>auto split: if_splits\<close>)
  obtain x where x: "run_ops (LRUCache (Some UnorderedMapCache) max_size)
        (map (\<lambda>(k, e). Op_Insert k e) ([(key, first), (key, second)] @ others)) (Map.empty, lru_empty) = Some (Inr (), x)"
      "lru_inv_of (\<lambda>d. d) max_size x" "lru_slots_of (\<lambda>d. d) x = fold ?insert ([(key, first), (key, second)] @ others) []"
    using run_inserts_slots [OF pos lru_inv_empty] unfolding lru_slots_empty by blast
  from unordered.LRU_Get_run [OF x(2), of key] obtain x' where "LRU_Get (Some UnorderedMapCache) key x = Some (Inr InvalidElement, x')"
    unfolding x(3) gone by auto
  with x(1) show ?thesis by blast
qed

theorem lru_reinsert_evicts_witness:
  "\<exists>x x'. run_ops (LRUCache (Some UnorderedMapCache) 2)
        [Op_Insert ''a'' (InvalidElement\<lparr>el_data := AnyOf ''int'' 1\<rparr>),
         Op_Insert ''a'' (InvalidElement\<lparr>el_data := AnyOf ''int'' (2 :: int)\<rparr>),
         Op_Insert ''b'' (InvalidElement\<lparr>el_data := AnyOf ''int'' 3\<rparr>)] (Map.empty, lru_empty) = Some (Inr (), x) \<and>
     LRU_Get (Some UnorderedMapCache) ''a'' x = Some (Inr InvalidElement, x')"
  using lru_reinsert_evicts [of 2 "[(''b'', InvalidElement\<lparr>el_data := AnyOf ''int'' 3\<rparr>)]" "''a''"
      "InvalidElement\<lparr>el_data := AnyOf ''int'' 1\<rparr>" "InvalidElement\<lparr>el_data := AnyOf ''int'' 2\<rparr>"] by simp

text \<open>
  With a size of zero every insertion is undefined behaviour: the loop that makes
  room empties the list and then takes the last element of the empty list.
\<close>

theorem lru_zero_size_undefined:
  fixes x :: "'v map_data \<times> lru_list"
  shows "LRU_Insert (Some UnorderedMapCache) 0 key e x = None"
proof -
  have "lru_evict UnorderedMapCache 0 (s, l) = None" for s :: "'v map_data" and l
  proof (induction "length (lru_nodes l)" arbitrary: s l)
    case 0
    then show ?case by (simp add: lru_evict.simps)
  next
    case (Suc k)
    have "k = length (lru_nodes (l\<lparr>lru_nodes := butlast (lru_nodes l)\<rparr>))" using Suc.hyps(2) by simp
    from Suc.hyps(1) [OF this] show ?case
      by (subst lru_evict.simps) (simp add: UnorderedMapCache_def modifyC_def)
  qed
  then have "lru_evict UnorderedMapCache 0 x = None" by (cases x) simp
  then show ?thesis by (simp add: LRU_Insert_def thenC_None)
qed

end
