(* ===== verification/Mse_Caching_Hook.thy ===== *)
theory Mse_Caching_Hook
  imports Complex_Main Mse_Cache Mse_Request_Processor
begin

text \<open>
  \<open>CachingRequestHook\<close>: its parameters with their builders, and \<open>Process\<close>. The cache lives in
  the state of the application. An empty \<open>std::function\<close> throws \<open>bad_function_call\<close>; durations
  are milliseconds, and time points are nanoseconds of the steady clock.
\<close>

record ('v, 'u) CachingParameters =
  cache :: "('v, 'u) Cache"
  key_generator :: "('u world, string) comp"
  cache_reader :: "'v any \<Rightarrow> ('u world, unit) comp"
  cache_writer :: "('u world, 'v any) comp"
  max_age :: rat
  status_codes_to_cache :: "StatusCode set"

definition bad_function_call :: "('w, 'a) comp" where
  "bad_function_call = throw (StdException ''bad_function_call'')"

definition Caching_Parameters :: "('v, 'u) Cache \<Rightarrow> ('v, 'u) CachingParameters" where
  "Caching_Parameters c =
     \<lparr>cache = c, key_generator = bad_function_call, cache_reader = (\<lambda>d. bad_function_call),
      cache_writer = bad_function_call, max_age = 600000, status_codes_to_cache = {SC_ok}\<rparr>"

definition WithConstantResponse :: "('v, 'u) CachingParameters \<Rightarrow> ('v, 'u) CachingParameters" where
  "WithConstantResponse ps = ps\<lparr>key_generator := ret ''''\<rparr>"

definition WithKeyGenerator ::
    "('u world, string) comp \<Rightarrow> ('v, 'u) CachingParameters \<Rightarrow> ('v, 'u) CachingParameters" where
  "WithKeyGenerator g ps = ps\<lparr>key_generator := g\<rparr>"

definition WithKey :: "string \<Rightarrow> ('v, 'u) CachingParameters \<Rightarrow> ('v, 'u) CachingParameters" where
  "WithKey key ps = ps\<lparr>key_generator := ret key\<rparr>"

text \<open>The key of an integer object that the application holds.\<close>

definition WithStdToStringKeyGenerator ::
    "('u \<Rightarrow> int) \<Rightarrow> ('v, 'u) CachingParameters \<Rightarrow> ('v, 'u) CachingParameters" where
  "WithStdToStringKeyGenerator rd ps = ps\<lparr>key_generator := getC (\<lambda>w. show_int (rd (app w)))\<rparr>"

definition WithCacheReader ::
    "('v any \<Rightarrow> ('u world, unit) comp) \<Rightarrow> ('v, 'u) CachingParameters \<Rightarrow> ('v, 'u) CachingParameters" where
  "WithCacheReader r ps = ps\<lparr>cache_reader := r\<rparr>"

definition WithCacheWriter ::
    "('u world, 'v any) comp \<Rightarrow> ('v, 'u) CachingParameters \<Rightarrow> ('v, 'u) CachingParameters" where
  "WithCacheWriter wr ps = ps\<lparr>cache_writer := wr\<rparr>"

text \<open>An object of type \<open>T\<close> in the state, read by \<open>rd\<close> and written by \<open>wr\<close>.\<close>

definition WithCachedObject ::
    "string \<Rightarrow> ('u \<Rightarrow> 'v) \<Rightarrow> ('v \<Rightarrow> 'u \<Rightarrow> 'u) \<Rightarrow> ('v, 'u) CachingParameters \<Rightarrow> ('v, 'u) CachingParameters" where
  "WithCachedObject T rd wr ps =
     ps\<lparr>cache_reader := (\<lambda>data. bindC (liftE (any_cast T data)) (\<lambda>v. modifyC (\<lambda>w. w\<lparr>app := wr v (app w)\<rparr>))),
        cache_writer := getC (\<lambda>w. AnyOf T (rd (app w)))\<rparr>"

definition WithMaxAge :: "rat \<Rightarrow> ('v, 'u) CachingParameters \<Rightarrow> ('v, 'u) CachingParameters" where
  "WithMaxAge age ps = ps\<lparr>max_age := age\<rparr>"

text \<open>The largest double.\<close>

definition NeverExpire :: "('v, 'u) CachingParameters \<Rightarrow> ('v, 'u) CachingParameters" where
  "NeverExpire ps = WithMaxAge ((2 ^ 53 - 1) * 2 ^ 971) ps"

definition Caching_IncludeAllStatusCodes :: "('v, 'u) CachingParameters \<Rightarrow> ('v, 'u) CachingParameters" where
  "Caching_IncludeAllStatusCodes ps =
     ps\<lparr>status_codes_to_cache :=
        fold (\<lambda>i. insert (status_code_of_int i)) [status_code_id SC_lowest..status_code_id SC_highest]
          (status_codes_to_cache ps)\<rparr>"

definition Caching_Include :: "StatusCode list \<Rightarrow> ('v, 'u) CachingParameters \<Rightarrow> ('v, 'u) CachingParameters" where
  "Caching_Include cs ps = ps\<lparr>status_codes_to_cache := fold insert cs (status_codes_to_cache ps)\<rparr>"

definition Caching_Exclude :: "StatusCode list \<Rightarrow> ('v, 'u) CachingParameters \<Rightarrow> ('v, 'u) CachingParameters" where
  "Caching_Exclude cs ps = ps\<lparr>status_codes_to_cache := fold (\<lambda>c s. s - {c}) cs (status_codes_to_cache ps)\<rparr>"

subsection \<open>The hook\<close>

definition on_app :: "('u, 'a) comp \<Rightarrow> ('u world, 'a) comp" where
  "on_app m = zoomC app (\<lambda>u w. w\<lparr>app := u\<rparr>) m"

definition cache_age :: "int \<Rightarrow> int \<Rightarrow> rat" where
  "cache_age inserted now = of_int (now - inserted) / 1000000"

definition cache_miss :: "('v, 'u) CachingParameters \<Rightarrow> string \<Rightarrow> 'u func \<Rightarrow> 'u func" where
  "cache_miss ps key func ctx =
     bindC (func ctx) (\<lambda>status.
       if code status \<in> status_codes_to_cache ps then
         bindC (cache_writer ps) (\<lambda>data.
         bindC (getC steady_clock) (\<lambda>now.
           thenC (on_app (Cache_Insert (cache ps) key
                    \<lparr>el_data = data, el_status = status, insertion_time = now\<rparr>))
                 (ret status)))
       else ret status)"

definition CachingRequestHook_Process :: "('v, 'u) CachingParameters \<Rightarrow> 'u func \<Rightarrow> 'u func" where
  "CachingRequestHook_Process ps func ctx =
     bindC (key_generator ps) (\<lambda>key.
     bindC (on_app (Cache_Get (cache ps) key)) (\<lambda>element.
       if Cache_IsValid element then
         bindC (getC steady_clock) (\<lambda>now.
           if cache_age (insertion_time element) now \<le> max_age ps then
             thenC (cache_reader ps (el_data element)) (ret (el_status element))
           else
             thenC (on_app (Cache_Remove (cache ps) key)) (cache_miss ps key func ctx))
       else cache_miss ps key func ctx))"

definition CachingRequestHook :: "('v, 'u) CachingParameters \<Rightarrow> 'u hook" where
  "CachingRequestHook ps = process_hook ''caching'' (CachingRequestHook_Process ps)"

subsection \<open>The hook and the stack\<close>

lemma keeps_on_app: "keeps (stack_ok n) (on_app m)"
  by (rule keepsI) (auto simp: on_app_def zoomC_def split: option.splits)

lemma caching_stack_hook:
  assumes "\<And>n. keeps (stack_ok n) (key_generator ps)" and "\<And>n d. keeps (stack_ok n) (cache_reader ps d)"
    and "\<And>n. keeps (stack_ok n) (cache_writer ps)"
  shows "stack_hook (CachingRequestHook ps)"
proof
  fix n ctx t and func :: "'a func" assume f: "keeps (stack_ok n) (func ctx)"
  have "keeps (stack_ok n) (cache_miss ps key func ctx)" for key
    unfolding cache_miss_def
    by (intro keeps_bindC keeps_thenC keeps_if keeps_ret keeps_getC keeps_on_app f assms)
  then show "keeps (stack_ok n) (hook_run (CachingRequestHook ps) t func ctx)"
    unfolding CachingRequestHook_def process_hook_def CachingRequestHook_Process_def
    by (simp, intro keeps_bindC keeps_thenC keeps_if keeps_ret keeps_getC keeps_on_app assms)
qed

interpretation caching: stack_hook
  "CachingRequestHook (WithMaxAge age (WithCachedObject T rd wr (WithKey key (Caching_Parameters c))))"
  by (rule caching_stack_hook)
    (auto simp: WithMaxAge_def WithCachedObject_def WithKey_def Caching_Parameters_def
      intro!: keeps_bindC keeps_liftE keeps_modify_app keeps_getC)

subsection \<open>A cache beside the data of the application\<close>

definition cache_in :: "('u \<Rightarrow> 's) \<Rightarrow> ('s \<Rightarrow> 'u \<Rightarrow> 'u) \<Rightarrow> ('v, 's) Cache \<Rightarrow> ('v, 'u) Cache" where
  "cache_in rd wr c =
     \<lparr>Cache_Insert = (\<lambda>key e. zoomC rd wr (Cache_Insert c key e)),
      Cache_Get = (\<lambda>key. zoomC rd wr (Cache_Get c key)),
      Cache_Remove = (\<lambda>key. zoomC rd wr (Cache_Remove c key))\<rparr>"

definition cache_fst :: "('v, 's) Cache \<Rightarrow> ('v, 's \<times> 'o) Cache" where
  "cache_fst c = cache_in fst (\<lambda>s (_, u). (s, u)) c"

interpretation shared: map_cache "cache_fst UnorderedMapCache" "\<lambda>u. fst u"
  by unfold_locales (auto simp: cache_fst_def cache_in_def UnorderedMapCache_def zoomC_def comp_simps)

context map_cache
begin

lemma caching_hit:
  assumes "CachingParameters.cache ps = cache" and "key_generator ps w = Some (Inr key, w)"
    and "lookup (app w) key = Some e" and "Cache_IsValid e"
    and "cache_age (insertion_time e) (steady_clock w) \<le> max_age ps"
  shows "CachingRequestHook_Process ps func ctx w = thenC (cache_reader ps (el_data e)) (ret (el_status e)) w"
  using assms by (simp add: CachingRequestHook_Process_def comp_simps on_app_def zoomC_def Get)

lemma caching_miss:
  assumes "CachingParameters.cache ps = cache" and "key_generator ps w = Some (Inr key, w)"
    and "case lookup (app w) key of None \<Rightarrow> True | Some e \<Rightarrow> \<not> Cache_IsValid e"
  shows "CachingRequestHook_Process ps func ctx w = cache_miss ps key func ctx w"
  using assms
  by (auto simp: CachingRequestHook_Process_def comp_simps on_app_def zoomC_def Get Cache_IsValid_def
      InvalidElement_def any_has_value_def split: option.splits)

lemma caching_expired:
  assumes "CachingParameters.cache ps = cache" and "key_generator ps w = Some (Inr key, w)"
    and "lookup (app w) key = Some e" and "Cache_IsValid e"
    and "max_age ps < cache_age (insertion_time e) (steady_clock w)"
  shows "\<exists>u. lookup u = (lookup (app w))(key := None) \<and>
     CachingRequestHook_Process ps func ctx w = cache_miss ps key func ctx (w\<lparr>app := u\<rparr>)"
proof -
  obtain u where u: "Cache_Remove cache key (app w) = Some (Inr (), u)" "lookup u = (lookup (app w))(key := None)"
    using Remove by blast
  then have "CachingRequestHook_Process ps func ctx w = cache_miss ps key func ctx (w\<lparr>app := u\<rparr>)"
    using assms by (simp add: CachingRequestHook_Process_def comp_simps on_app_def zoomC_def Get)
  with u(2) show ?thesis by blast
qed

lemma cache_miss_stores:
  assumes "CachingParameters.cache ps = cache" and "func ctx w = Some (Inr s, w1)"
    and "code s \<in> status_codes_to_cache ps" and "cache_writer ps w1 = Some (Inr data, w1)"
  shows "\<exists>u. lookup u = (lookup (app w1))(key \<mapsto>
        \<lparr>el_data = data, el_status = s, insertion_time = steady_clock w1\<rparr>) \<and>
     Cache_Insert cache key \<lparr>el_data = data, el_status = s, insertion_time = steady_clock w1\<rparr> (app w1)
       = Some (Inr (), u) \<and>
     cache_miss ps key func ctx w = Some (Inr s, w1\<lparr>app := u\<rparr>)"
proof -
  let ?e = "\<lparr>el_data = data, el_status = s, insertion_time = steady_clock w1\<rparr>"
  obtain u where u: "Cache_Insert cache key ?e (app w1) = Some (Inr (), u)" "lookup u = (lookup (app w1))(key \<mapsto> ?e)"
    using Insert by blast
  then have "cache_miss ps key func ctx w = Some (Inr s, w1\<lparr>app := u\<rparr>)"
    using assms by (simp add: cache_miss_def comp_simps on_app_def zoomC_def)
  with u show ?thesis by blast
qed

lemma cache_miss_passes:
  assumes "func ctx w = Some (r, w1)" and "\<And>s. r = Inr s \<Longrightarrow> code s \<notin> status_codes_to_cache ps"
  shows "cache_miss ps key func ctx w = Some (r, w1)"
  using assms by (cases r) (simp_all add: cache_miss_def comp_simps)

end

lemma cache_age_le:
  "cache_age t0 (t0 + t) \<le> age \<longleftrightarrow> of_int t \<le> age * 1000000"
  by (simp add: cache_age_def divide_le_eq)

subsection \<open>Properties\<close>

text \<open>
  The parameters of a typical hook: an \<open>UnorderedMapCache\<close> next to one cached object of the
  application, a constant key, an age and some codes.
\<close>

definition object_caching ::
    "string \<Rightarrow> rat \<Rightarrow> StatusCode list \<Rightarrow> ('v, 'v map_data \<times> 'v) CachingParameters" where
  "object_caching key age cs =
     Caching_Include cs (WithMaxAge age (WithCachedObject ''T'' snd (\<lambda>v (d, _). (d, v))
       (WithKey key (Caching_Parameters (cache_fst UnorderedMapCache)))))"

lemma fold_insert: "fold insert xs A = set xs \<union> A"
  by (induction xs arbitrary: A) auto

lemma object_caching_sel [simp]:
  "CachingParameters.cache (object_caching key age cs) = cache_fst UnorderedMapCache"
  "key_generator (object_caching key age cs) = ret key" "max_age (object_caching key age cs) = age"
  "status_codes_to_cache (object_caching key age cs) = set cs \<union> {SC_ok}"
  "cache_writer (object_caching key age cs) = getC (\<lambda>w. AnyOf ''T'' (snd (app w)))"
  "cache_reader (object_caching key age cs) =
     (\<lambda>data. bindC (liftE (any_cast ''T'' data)) (\<lambda>v. modifyC (\<lambda>w. w\<lparr>app := (fst (app w), v)\<rparr>)))"
  by (simp_all add: object_caching_def Caching_Include_def WithMaxAge_def WithCachedObject_def WithKey_def
      Caching_Parameters_def fold_insert split_beta)

text \<open>
  Claim C28: a cached response is replayed. When the key is not in the cache and the request
  returns a status that is to be cached, the hook returns it; and as long as the age does not
  exceed the maximum, every later \<open>Process\<close>, with whatever function (which is not called) and
  whatever has become of the cached object, returns the same status, restores the object as
  the request left it, and changes nothing else.
\<close>

theorem caching_replays:
  fixes w :: "('v map_data \<times> 'v) world"
  assumes "fst (app w) key = None" and "func ctx w = Some (Inr s, w1)"
    and "code s = SC_ok \<or> code s \<in> set cs" and "0 \<le> t" and "of_int t \<le> age * 1000000"
  shows "\<exists>w2. CachingRequestHook_Process (object_caching key age cs) func ctx w = Some (Inr s, w2) \<and>
     (let w3 = w2\<lparr>steady_clock := steady_clock w2 + t, app := (fst (app w2), obj)\<rparr>
      in CachingRequestHook_Process (object_caching key age cs) func2 ctx2 w3
         = Some (Inr s, w3\<lparr>app := (fst (app w2), snd (app w1))\<rparr>))"
proof -
  let ?ps = "object_caching key age cs :: ('v, 'v map_data \<times> 'v) CachingParameters"
  let ?e = "\<lparr>el_data = AnyOf ''T'' (snd (app w1)), el_status = s, insertion_time = steady_clock w1\<rparr>"
  have miss: "CachingRequestHook_Process ?ps func ctx w = cache_miss ?ps key func ctx w"
    by (rule shared.caching_miss) (simp_all add: assms(1) ret_apply)
  obtain u where u: "fst u = (fst (app w1))(key \<mapsto> ?e)"
      and store: "cache_miss ?ps key func ctx w = Some (Inr s, w1\<lparr>app := u\<rparr>)"
    using shared.cache_miss_stores [where ps = ?ps and func = func and ctx = ctx and w = w and key = key,
        OF _ assms(2)] assms(3) by (auto simp: getC_apply)
  let ?w2 = "w1\<lparr>app := u\<rparr>"
  let ?w3 = "?w2\<lparr>steady_clock := steady_clock ?w2 + t, app := (fst (app ?w2), obj)\<rparr>"
  have "CachingRequestHook_Process ?ps func2 ctx2 ?w3 = thenC (cache_reader ?ps (el_data ?e)) (ret (el_status ?e)) ?w3"
    by (rule shared.caching_hit [where key = key])
      (use assms(4,5) u in \<open>simp_all add: ret_apply cache_age_le Cache_IsValid_def any_has_value_def\<close>)
  also have "\<dots> = Some (Inr s, ?w3\<lparr>app := (fst (app ?w2), snd (app w1))\<rparr>)"
    by (simp add: comp_simps)
  finally show ?thesis using miss store by (intro exI [of _ ?w2]) (simp add: Let_def)
qed

theorem caching_replays_witness:
  "\<exists>w2. CachingRequestHook_Process (object_caching ''k'' 600000 []) (\<lambda>ctx. ret Status_OK) 1
        (initial_world (Map.empty, 5 :: int)) = Some (Inr Status_OK, w2) \<and>
     CachingRequestHook_Process (object_caching ''k'' 600000 []) (\<lambda>ctx. undefined_behaviour) 1
        (w2\<lparr>steady_clock := steady_clock w2 + 1000, app := (fst (app w2), 7)\<rparr>)
       = Some (Inr Status_OK, w2\<lparr>steady_clock := steady_clock w2 + 1000, app := (fst (app w2), 5)\<rparr>)"
  using caching_replays [of "initial_world (Map.empty, 5 :: int)" "''k''" "\<lambda>ctx. ret Status_OK" 1 Status_OK
      "initial_world (Map.empty, 5)" "[]" 1000 600000 7 "\<lambda>ctx. undefined_behaviour" 1]
  by (simp add: ret_apply Let_def)

text \<open>
  An expired element is not used. Once its age exceeds the maximum the request is run
  again: what it returns is what \<open>Process\<close> returns, exceptions included, and if its status is
  not to be cached, or it throws, the key is no longer in the cache.
\<close>

theorem caching_expires:
  fixes w :: "('v map_data \<times> 'v) world"
  assumes "fst (app w) key = Some e" and "Cache_IsValid e"
    and "age < cache_age (insertion_time e) (steady_clock w)"
    and "func ctx (w\<lparr>app := ((fst (app w))(key := None), snd (app w))\<rparr>) = Some (r, w1)"
    and "\<And>s. r = Inr s \<Longrightarrow> code s \<noteq> SC_ok \<and> code s \<notin> set cs"
  shows "CachingRequestHook_Process (object_caching key age cs) func ctx w = Some (r, w1)"
proof -
  have rem: "Cache_Remove (cache_fst UnorderedMapCache) key (app w)
      = Some (Inr (), ((fst (app w))(key := None), snd (app w)))"
    by (simp add: cache_fst_def cache_in_def UnorderedMapCache_def zoomC_def modifyC_apply split_beta)
  have "CachingRequestHook_Process (object_caching key age cs) func ctx w
    = cache_miss (object_caching key age cs) key func ctx (w\<lparr>app := ((fst (app w))(key := None), snd (app w))\<rparr>)"
    using assms(1-3) rem
    by (simp add: CachingRequestHook_Process_def comp_simps on_app_def zoomC_def shared.Get)
  also have "\<dots> = Some (r, w1)"
    by (rule shared.cache_miss_passes [where func = func and ctx = ctx]) (use assms(4,5) in auto)
  finally show ?thesis .
qed

theorem caching_expires_witness:
  "CachingRequestHook_Process (object_caching ''k'' 0 []) (\<lambda>ctx. throw (NonStdException 1)) 1
      ((initial_world ([''k'' \<mapsto> \<lparr>el_data = AnyOf ''T'' 5, el_status = Status_OK, insertion_time = 0\<rparr>], 5 :: int))
         \<lparr>steady_clock := 1000\<rparr>)
   = Some (Inl (NonStdException 1), (initial_world (Map.empty, 5))\<lparr>steady_clock := 1000\<rparr>)"
proof -
  let ?w = "(initial_world ([''k'' \<mapsto> \<lparr>el_data = AnyOf ''T'' 5, el_status = Status_OK, insertion_time = 0\<rparr>], 5 :: int))
         \<lparr>steady_clock := 1000\<rparr>"
  have "?w\<lparr>app := ((fst (app ?w))(''k'' := None), snd (app ?w))\<rparr> = (initial_world (Map.empty, 5))\<lparr>steady_clock := 1000\<rparr>"
    by (simp add: initial_world_def)
  with caching_expires [of ?w "''k''" "\<lparr>el_data = AnyOf ''T'' 5, el_status = Status_OK, insertion_time = 0\<rparr>" 0
      "\<lambda>ctx. throw (NonStdException 1)" 1 "Inl (NonStdException 1)" "(initial_world (Map.empty, 5))\<lparr>steady_clock := 1000\<rparr>" "[]"]
  show ?thesis by (simp add: throw_apply Cache_IsValid_def any_has_value_def cache_age_def)
qed

text \<open>
  \<open>NeverExpire\<close> does what it says: for every pair of time points that the 64 bit
  clock can hold, the age is below the maximum it sets.
\<close>

theorem never_expires:
  assumes "- (2 ^ 63) \<le> inserted" and "now < 2 ^ 63"
  shows "cache_age inserted now \<le> max_age (NeverExpire ps)"
proof -
  have "now - inserted \<le> 2 ^ 64" using assms by simp
  then have "(of_int (now - inserted) :: rat) \<le> of_int (2 ^ 64)" by (simp only: of_int_le_iff)
  then have "cache_age inserted now \<le> of_int (2 ^ 64) / 1000000"
    unfolding cache_age_def by (rule divide_right_mono) simp
  also have "\<dots> \<le> max_age (NeverExpire ps)" by (simp add: NeverExpire_def WithMaxAge_def)
  finally show ?thesis .
qed

theorem never_expires_witness:
  "cache_age 0 (10 ^ 18) \<le> max_age (NeverExpire (Caching_Parameters UnorderedMapCache))"
  by (rule never_expires) simp_all

end
