(* ===== verification/Mse_Error_Forwarding.thy ===== *)
theory Mse_Error_Forwarding
  imports Mse_Hook_Rules
begin

text \<open>
  \<open>cross-cutting-concerns/exception-handling-helpers\<close> and \<open>error-forwarding-request-hook\<close>: how
  exceptions are mapped to handling definitions, and the hook of outgoing requests that turns
  error statuses of a callee into exceptions which carry the status for the own caller.

  \<open>Mapper::Map\<close> takes an exception pointer and rethrows it to look at its class; here it gets the
  exception. It is virtual and may do anything, so it is a computation. A class template over
  exception types is a function of the type's name.
\<close>

subsection \<open>Handling definitions and mappers\<close>

record Definition =
  def_status :: Status
  def_log_level :: LogLevel
  def_forward :: bool

definition Definition_of :: "Status \<Rightarrow> LogLevel \<Rightarrow> bool \<Rightarrow> Definition" where
  "Definition_of status log_level forward_exception_details_to_caller =
     \<lparr>def_status = status, def_log_level = log_level, def_forward = forward_exception_details_to_caller\<rparr>"

type_synonym 'u Mapper = "exn \<Rightarrow> ('u world, Definition option) comp"

definition ToConstantMapper :: "Definition \<Rightarrow> 'u Mapper" where
  "ToConstantMapper defn e = ret (Some defn)"

definition ExceptionOfTypeMapper :: "exn_type \<Rightarrow> Definition \<Rightarrow> 'u Mapper" where
  "ExceptionOfTypeMapper ExceptionType defn e =
     (if caught_as ExceptionType e then ToConstantMapper defn e else ret None)"

definition ErrorForwardingExceptionMapper :: "LogLevel \<Rightarrow> bool \<Rightarrow> 'u Mapper" where
  "ErrorForwardingExceptionMapper log_level forward_details e =
     (case e of
        ErrorForwardingException status _ \<Rightarrow> ret (Some (Definition_of status log_level forward_details))
      | _ \<Rightarrow> ret None)"

text \<open>
  What the handling of exceptions needs of a mapper: it comes back without an exception and
  without changing the state. The mappers of the library do.
\<close>

locale exception_mapper =
  fixes map_exception :: "'u Mapper" and handles :: "exn \<Rightarrow> Definition option"
  assumes Map_pure: "map_exception e = ret (handles e)"

interpretation to_constant: exception_mapper "ToConstantMapper d" "\<lambda>e. Some d"
  by unfold_locales (simp add: ToConstantMapper_def)

interpretation of_type: exception_mapper "ExceptionOfTypeMapper T d"
    "\<lambda>e. if caught_as T e then Some d else None"
  by unfold_locales (simp add: ExceptionOfTypeMapper_def ToConstantMapper_def)

interpretation forwarding: exception_mapper "ErrorForwardingExceptionMapper l fwd"
    "\<lambda>e. case e of ErrorForwardingException s _ \<Rightarrow> Some (Definition_of s l fwd) | _ \<Rightarrow> None"
  by unfold_locales (simp add: ErrorForwardingExceptionMapper_def split: exn.splits)

subsection \<open>The parameters of the hook\<close>

type_synonym status_code_mapping = "StatusCode \<rightharpoonup> Status"

definition EF_IncludeAllErrorCodes :: "Status \<Rightarrow> status_code_mapping \<Rightarrow> status_code_mapping" where
  "EF_IncludeAllErrorCodes map_to m =
     fold (\<lambda>i m. let status_code = status_code_of_int i
                 in if \<not> succeeded (Status_of status_code []) then m(status_code \<mapsto> map_to) else m)
       [status_code_id SC_lowest..status_code_id SC_highest] m"

definition EF_Include :: "StatusCode \<Rightarrow> Status \<Rightarrow> status_code_mapping \<Rightarrow> status_code_mapping" where
  "EF_Include map_from map_to m = m(map_from \<mapsto> map_to)"

definition EF_Exclude :: "StatusCode \<Rightarrow> status_code_mapping \<Rightarrow> status_code_mapping" where
  "EF_Exclude map_from m = m(map_from := None)"

text \<open>The default of \<open>map_to\<close>.\<close>

definition default_map_to :: Status where
  "default_map_to = Status_of SC_unavailable []"

subsection \<open>The hook\<close>

definition forwarding_details :: "string \<Rightarrow> string \<Rightarrow> Status \<Rightarrow> string" where
  "forwarding_details request c status =
     request @ '' received '' @ c @ (if details status = [] then [] else ''('' @ details status @ '')'')"

definition ErrorForwarding_post_process ::
    "status_code_mapping \<Rightarrow> addr \<Rightarrow> Status \<Rightarrow> ('u world, Status) comp" where
  "ErrorForwarding_post_process mapping ctx status =
     (case mapping (code status) of
        Some map_to \<Rightarrow>
          bindC (readC (\<lambda>w. map_option Inr (Context_AtOr (contexts w) ctx ''request'' []))) (\<lambda>request.
            bindC (liftE (StatusCode_to_string (code status))) (\<lambda>c.
              throw (ErrorForwardingException map_to (forwarding_details request c status))))
      | None \<Rightarrow> ret status)"

definition ErrorForwardingRequestHook :: "status_code_mapping \<Rightarrow> 'u hook" where
  "ErrorForwardingRequestHook mapping =
     protocol_hook ''error forwarding'' (\<lambda>t. default_pre_process) (\<lambda>t. ErrorForwarding_post_process mapping)"

interpretation error_forwarding: stack_hook "ErrorForwardingRequestHook mapping"
  unfolding ErrorForwardingRequestHook_def
  by (rule protocol_stack_hook)
    (auto simp: default_pre_process_def ErrorForwarding_post_process_def split: option.splits)

subsection \<open>What the hook does with a status\<close>

lemma ErrorForwarding_post_run:
  assumes "stack_ok n w" and "ctx < n" and "code status \<noteq> SC_invalid"
  shows "\<exists>detail. ErrorForwarding_post_process mapping ctx status w =
    Some (case mapping (code status) of
            Some map_to \<Rightarrow> Inl (ErrorForwardingException map_to detail) | None \<Rightarrow> Inr status, w)"
proof (cases "mapping (code status)")
  case None
  then show ?thesis by (simp add: ErrorForwarding_post_process_def comp_simps)
next
  case (Some map_to)
  from store_ok_reads [OF stack_ok_store [OF assms(1)] stack_ok_live [OF assms(1,2)], of "''request''" "[]"]
  obtain request where r: "Context_AtOr (contexts w) ctx ''request'' [] = Some request" by blast
  from StatusCode_to_string_valid [OF assms(3)] obtain c where "StatusCode_to_string (code status) = Inr c" ..
  with Some r show ?thesis by (simp add: ErrorForwarding_post_process_def comp_simps readC_def)
qed

lemma ErrorForwarding_passes_status:
  assumes "ctx < n" and "code status \<noteq> SC_invalid"
    and "hoare (stack_ok n) (func ctx) (\<lambda>r w. r = Inr status \<and> stack_ok n w)"
  shows "hoare (stack_ok n) (hook_Process (SetRequestType t (ErrorForwardingRequestHook mapping)) func ctx)
    (\<lambda>r w. (case mapping (code status) of
              Some map_to \<Rightarrow> \<exists>detail. r = Inl (ErrorForwardingException map_to detail)
            | None \<Rightarrow> r = Inr status) \<and> stack_ok n w)"
  unfolding ErrorForwardingRequestHook_def hook_Process_protocol
proof (rule hoare_pass_status [where inside = "stack_ok n" and finished = "stack_ok n" and status = status],
    rule log_stable_stack_ok, rule log_stable_stack_ok, rule log_stable_stack_ok, rule log_stable_stack_ok, rule assms(2),
    rule hoare_default_pre, rule assms(3), rule hoareI)
  fix w assume w: "stack_ok n w"
  from ErrorForwarding_post_run [OF w assms(1,2), of mapping] w assms(2)
  show "\<exists>r w'. ErrorForwarding_post_process mapping ctx status w = Some (r, w') \<and>
      (case mapping (code status) of None \<Rightarrow> r = Inr status
       | Some map_to \<Rightarrow> \<exists>detail. r = Inl (ErrorForwardingException map_to detail)) \<and>
      (\<forall>s. r = Inr s \<longrightarrow> code s \<noteq> SC_invalid) \<and> stack_ok n w'"
    by (auto split: option.splits)
qed

lemma ErrorForwarding_passes_exception:
  assumes "ctx < n" and "hoare (stack_ok n) (func ctx) (\<lambda>r w. r = Inl e \<and> stack_ok n w)"
  shows "hoare (stack_ok n) (hook_Process (SetRequestType t (ErrorForwardingRequestHook mapping)) func ctx)
    (\<lambda>r w. r = Inl (if mapping SC_invalid = None then e else invalid_status_exn) \<and> stack_ok n w)"
  unfolding ErrorForwardingRequestHook_def hook_Process_protocol
proof (rule hoare_pass_exception [where inside = "stack_ok n" and e = e],
    rule log_stable_stack_ok, rule log_stable_stack_ok, rule hoare_default_pre, rule assms(2), rule hoareI)
  fix w assume w: "stack_ok n w"
  from store_ok_reads [OF stack_ok_store [OF w] stack_ok_live [OF w assms(1)], of "''request''" "[]"]
  obtain request where r: "Context_AtOr (contexts w) ctx ''request'' [] = Some request" by blast
  show "\<exists>r w'. ErrorForwarding_post_process mapping ctx (Status_of SC_invalid ''exception during request'') w
        = Some (r, w') \<and>
      (case r of Inl e' \<Rightarrow> Inl e' = Inl (if mapping SC_invalid = None then e else invalid_status_exn)
       | Inr s \<Rightarrow> code s = SC_invalid \<and> Inl e = Inl (if mapping SC_invalid = None then e else invalid_status_exn)) \<and>
      stack_ok n w'"
    using r w
    by (cases "mapping SC_invalid")
      (simp_all add: ErrorForwarding_post_process_def comp_simps readC_def invalid_status_exn_def)
qed

text \<open>The hook as a rule: \<open>forwards\<close> is what it makes of any result.\<close>

definition forwards :: "status_code_mapping \<Rightarrow> exn + Status \<Rightarrow> exn + Status \<Rightarrow> bool" where
  "forwards mapping r0 r \<longleftrightarrow>
     (case r0 of
        Inl e \<Rightarrow> r = Inl e
      | Inr s \<Rightarrow> (case mapping (code s) of
          None \<Rightarrow> r = Inr s | Some map_to \<Rightarrow> \<exists>detail. r = Inl (ErrorForwardingException map_to detail)))"

lemma forwards_status: "forwards mapping r (Inr s) \<longleftrightarrow> r = Inr s \<and> mapping (code s) = None"
  by (cases r) (auto simp: forwards_def split: option.splits)

lemma hoare_forwarding:
  assumes ctx: "ctx < n" and stable: "log_stable n P" "\<And>r. log_stable n (Q r)" and func: "hoare P (func ctx) Q"
    and valid: "\<And>s w. Q (Inr s) w \<Longrightarrow> code s \<noteq> SC_invalid" and invalid: "mapping SC_invalid = None"
  shows "hoare P (hook_Process (SetRequestType t (ErrorForwardingRequestHook mapping)) func ctx)
    (\<lambda>r w. \<exists>r0. Q r0 w \<and> forwards mapping r0 r)"
  unfolding ErrorForwardingRequestHook_def hook_Process_protocol
proof (rule hoare_pass [where n = n and inside = P and finished = Q])
  let ?after = "\<lambda>r w. \<exists>r0. Q r0 w \<and> forwards mapping r0 r"
  have ok: "stack_ok n w" if "Q r w" for r w using stable(2) [of r] that by (simp add: log_stable_def)
  have "?after (Inr s) = (\<lambda>w. Q (Inr s) w \<and> mapping (code s) = None)" for s
    by (rule ext) (auto simp: forwards_status)
  then show "log_stable n (?after (Inr s))" for s
    using stable(2) [of "Inr s"] by (simp add: log_stable_def)
  show "hoare (Q (Inr s)) (ErrorForwarding_post_process mapping ctx s)
      (\<lambda>r w. (\<forall>s. r = Inr s \<longrightarrow> code s \<noteq> SC_invalid) \<and> ?after r w)" if "code s \<noteq> SC_invalid" for s
  proof (rule hoareI)
    fix w assume w: "Q (Inr s) w"
    obtain detail where "ErrorForwarding_post_process mapping ctx s w =
        Some (case mapping (code s) of Some map_to \<Rightarrow> Inl (ErrorForwardingException map_to detail) | None \<Rightarrow> Inr s, w)"
      using ErrorForwarding_post_run [OF ok [OF w] ctx \<open>code s \<noteq> SC_invalid\<close>, of mapping] by blast
    moreover have "forwards mapping (Inr s)
        (case mapping (code s) of Some map_to \<Rightarrow> Inl (ErrorForwardingException map_to detail) | None \<Rightarrow> Inr s)"
      by (simp add: forwards_def split: option.split)
    ultimately show "\<exists>r w'. ErrorForwarding_post_process mapping ctx s w = Some (r, w') \<and>
        (\<forall>s. r = Inr s \<longrightarrow> code s \<noteq> SC_invalid) \<and> ?after r w'"
      using w that by (auto split: option.splits)
  qed
  show "hoare (Q (Inl e)) (ErrorForwarding_post_process mapping ctx (Status_of SC_invalid ''exception during request''))
      (\<lambda>r w. ?after (case r of Inl e' \<Rightarrow> Inl e' | Inr s \<Rightarrow> if code s = SC_invalid then Inl e else Inr s) w)" for e
  proof (rule hoareI)
    fix w assume "Q (Inl e) w"
    then show "\<exists>r w'. ErrorForwarding_post_process mapping ctx (Status_of SC_invalid ''exception during request'') w = Some (r, w') \<and>
        ?after (case r of Inl e' \<Rightarrow> Inl e' | Inr s \<Rightarrow> if code s = SC_invalid then Inl e else Inr s) w'"
      using invalid by (auto simp: ErrorForwarding_post_process_def ret_apply forwards_def intro!: exI [of _ "Inl e"])
  qed
qed (use stable func valid in \<open>simp_all add: hoare_default_pre\<close>)

subsection \<open>Properties\<close>

lemma fold_IncludeAll:
  "fold (\<lambda>i m. let status_code = status_code_of_int i
               in if \<not> succeeded (Status_of status_code []) then m(status_code \<mapsto> map_to) else m) is m c
   = (if c \<in> status_code_of_int ` set is \<and> c \<noteq> SC_ok then Some map_to else m c)"
  by (induction "is" arbitrary: m) (auto simp: Let_def)

lemma EF_IncludeAllErrorCodes_apply:
  "EF_IncludeAllErrorCodes s m c = (if c = SC_ok \<or> c = SC_invalid then m c else Some s)"
proof -
  have "c \<in> status_code_of_int ` {status_code_id SC_lowest..status_code_id SC_highest} \<longleftrightarrow> c \<noteq> SC_invalid" for c
  proof
    assume "c \<in> status_code_of_int ` {status_code_id SC_lowest..status_code_id SC_highest}"
    then obtain i where "0 \<le> i" "i \<le> 16" "c = status_code_of_int i" by auto
    then show "c \<noteq> SC_invalid" using status_code_id_of_int [of i] by auto
  next
    assume "c \<noteq> SC_invalid"
    then have "status_code_id c \<in> {status_code_id SC_lowest..status_code_id SC_highest}"
      by (cases c) simp_all
    then show "c \<in> status_code_of_int ` {status_code_id SC_lowest..status_code_id SC_highest}"
      by (metis image_eqI status_code_of_id)
  qed
  then show ?thesis
    unfolding EF_IncludeAllErrorCodes_def fold_IncludeAll set_upto by auto
qed

text \<open>
  \<open>IncludeAllErrorCodes\<close> maps every error code and nothing else: \<open>OK\<close> and the
  placeholder \<open>invalid\<close>, which \<open>post_process\<close> gets when the request threw, keep the mapping they
  had, and \<open>Include\<close> and \<open>Exclude\<close> then change exactly their code.
\<close>

theorem include_all_error_codes:
  "EF_Exclude c2 (EF_Include c1 s1 (EF_IncludeAllErrorCodes s m)) c =
     (if c = c2 then None else if c = c1 then Some s1
      else if c = SC_ok \<or> c = SC_invalid then m c else Some s)"
  by (simp add: EF_Exclude_def EF_Include_def EF_IncludeAllErrorCodes_apply)

end
