(* ===== verification/Mse_Exception_Handling.thy ===== *)
theory Mse_Exception_Handling
  imports Mse_Error_Forwarding
begin

text \<open>
  \<open>cross-cutting-concerns/exception-handling-request-hook\<close>: the hook of incoming requests that
  turns exceptions into statuses by a list of mappers, the first match deciding, and what the
  service returns for an error of a service it depends on (with \<open>Mse_Error_Forwarding\<close>).
\<close>

subsection \<open>The hook\<close>

definition extract_exception_details :: "exn \<Rightarrow> string" where
  "extract_exception_details e = (if caught_as T_exception e then what e else [])"

definition default_exception_handling_mappers :: "'u Mapper list" where
  "default_exception_handling_mappers =
     [ErrorForwardingExceptionMapper LL_warn False,
      ExceptionOfTypeMapper T_invalid_argument
        (Definition_of (Status_of SC_invalid_argument ''invalid argument exception'') LL_invalid True),
      ExceptionOfTypeMapper T_out_of_range
        (Definition_of (Status_of SC_out_of_range ''out of range argument exception'') LL_invalid True),
      ToConstantMapper (Definition_of (Status_of SC_internal ''unknown exception'') LL_warn False)]"

definition apply_definition :: "exn \<Rightarrow> Definition \<Rightarrow> ('u world, Status) comp" where
  "apply_definition e d =
     (if def_log_level d = LL_invalid \<and> \<not> def_forward d then ret (def_status d)
      else
        let exception_details = extract_exception_details e in
        thenC (if def_log_level d \<noteq> LL_invalid
               then bindC LogProvider_GetLogger (\<lambda>lg.
                      Logger_Write_level lg (def_log_level d) (''caught exception: '' @ exception_details))
               else ret ())
          (if def_forward d then
             let status = def_status d in
             ret (if details status = [] then status\<lparr>details := exception_details\<rparr>
                  else status\<lparr>details := details status @ '': '' @ exception_details\<rparr>)
           else ret (def_status d)))"

text \<open>The loop over the mappers in the \<open>catch\<close> block; after it the exception is rethrown.\<close>

primrec handle_exception :: "'u Mapper list \<Rightarrow> exn \<Rightarrow> ('u world, Status) comp" where
  "handle_exception [] e = throw e"
| "handle_exception (m # ms) e =
     bindC (m e) (\<lambda>d. case d of Some d \<Rightarrow> apply_definition e d | None \<Rightarrow> handle_exception ms e)"

definition ExceptionHandlingRequestHook_Process :: "'u Mapper list \<Rightarrow> 'u func \<Rightarrow> 'u func" where
  "ExceptionHandlingRequestHook_Process exception_handling_mappers func ctx =
     catchC (func ctx) (handle_exception exception_handling_mappers)"

definition ExceptionHandlingRequestHook :: "'u Mapper list \<Rightarrow> 'u hook" where
  "ExceptionHandlingRequestHook exception_handling_mappers =
     process_hook ''exception handling'' (ExceptionHandlingRequestHook_Process exception_handling_mappers)"

subsection \<open>One definition\<close>

text \<open>What a definition makes of an exception: its status, with the details when it forwards them.\<close>

definition defined_status :: "exn \<Rightarrow> Definition \<Rightarrow> Status" where
  "defined_status e d =
     (if \<not> def_forward d then def_status d
      else Status_of (code (def_status d))
        (if details (def_status d) = [] then extract_exception_details e
         else details (def_status d) @ '': '' @ extract_exception_details e))"

lemma apply_definition_run:
  assumes "stack_ok n w"
  obtains out where "apply_definition e d w = Some (Inr (defined_status e d), w\<lparr>console := console w @ out\<rparr>)"
    "length out \<le> 1" "def_log_level d < min_log_level (provided_logger w) \<longrightarrow> out = []"
proof (cases "def_log_level d = LL_invalid")
  case True
  have "apply_definition e d w = Some (Inr (defined_status e d), w\<lparr>console := console w @ []\<rparr>)"
    using True by (cases "def_status d") (simp add: apply_definition_def defined_status_def Status_of_def comp_simps)
  with that [of "[]"] show ?thesis by simp
next
  case False
  from Logger_Write_level_run [OF assms False, of "''caught exception: '' @ extract_exception_details e"]
  obtain out where out: "bindC LogProvider_GetLogger (\<lambda>lg. Logger_Write_level lg (def_log_level d)
        (''caught exception: '' @ extract_exception_details e)) w = Some (Inr (), w\<lparr>console := console w @ out\<rparr>)"
    "length out \<le> 1" "def_log_level d < min_log_level (provided_logger w) \<longrightarrow> out = []" by blast
  have "apply_definition e d w = Some (Inr (defined_status e d), w\<lparr>console := console w @ out\<rparr>)"
    using False out(1)
    by (cases "def_status d")
      (simp add: apply_definition_def defined_status_def Status_of_def Let_def thenC_Inr comp_simps)
  with out(2,3) that show ?thesis by blast
qed

lemma keeps_apply_definition: "keeps (stack_ok n) (apply_definition e d)"
proof (rule keepsI)
  fix w r w' assume w: "stack_ok n w" and run: "apply_definition e d w = Some (r, w')"
  obtain out where "apply_definition e d w = Some (Inr (defined_status e d), w\<lparr>console := console w @ out\<rparr>)"
    by (rule apply_definition_run [OF w])
  with run w show "stack_ok n w'" by auto
qed

lemma keeps_handle_exception:
  "(\<And>m e. m \<in> set ms \<Longrightarrow> keeps (stack_ok n) (m e)) \<Longrightarrow> keeps (stack_ok n) (handle_exception ms e)"
  by (induction ms) (auto intro!: keeps_bindC simp: keeps_apply_definition split: option.split)

lemma ExceptionHandling_stack_hook:
  assumes "\<And>m e n. m \<in> set ms \<Longrightarrow> keeps (stack_ok n) (m e)"
  shows "stack_hook (ExceptionHandlingRequestHook ms)"
  by unfold_locales
    (auto simp: ExceptionHandlingRequestHook_def process_hook_def ExceptionHandlingRequestHook_Process_def
      intro!: keeps_catchC keeps_handle_exception assms)

interpretation exception_handling: stack_hook "ExceptionHandlingRequestHook default_exception_handling_mappers"
  by (rule ExceptionHandling_stack_hook)
    (auto simp: default_exception_handling_mappers_def to_constant.Map_pure of_type.Map_pure forwarding.Map_pure)

subsection \<open>The first matching mapper decides\<close>

primrec first_match :: "(exn \<Rightarrow> Definition option) list \<Rightarrow> exn \<Rightarrow> Definition option" where
  "first_match [] e = None"
| "first_match (h # hs) e = (case h e of Some d \<Rightarrow> Some d | None \<Rightarrow> first_match hs e)"

lemma handle_exception_first_match:
  "list_all2 exception_mapper ms hs \<Longrightarrow> handle_exception ms e =
     (case first_match hs e of Some d \<Rightarrow> apply_definition e d | None \<Rightarrow> throw e)"
proof (induction ms hs rule: list_all2_induct)
  case (Cons m ms h hs)
  from Cons(1) have "m e = ret (h e)" by (rule exception_mapper.Map_pure)
  with Cons show ?case by (simp add: bindC_ret_left split: option.split)
qed simp

definition default_handling :: "exn \<Rightarrow> Status" where
  "default_handling e =
     (case e of
        ErrorForwardingException s _ \<Rightarrow> s
      | InvalidArgument d \<Rightarrow> Status_of SC_invalid_argument (''invalid argument exception: '' @ c_str d)
      | OutOfRange d \<Rightarrow> Status_of SC_out_of_range (''out of range argument exception: '' @ c_str d)
      | _ \<Rightarrow> Status_of SC_internal ''unknown exception'')"

definition default_handles :: "(exn \<Rightarrow> Definition option) list" where
  "default_handles =
     [\<lambda>e. case e of ErrorForwardingException s _ \<Rightarrow> Some (Definition_of s LL_warn False) | _ \<Rightarrow> None,
      \<lambda>e. if caught_as T_invalid_argument e
          then Some (Definition_of (Status_of SC_invalid_argument ''invalid argument exception'') LL_invalid True) else None,
      \<lambda>e. if caught_as T_out_of_range e
          then Some (Definition_of (Status_of SC_out_of_range ''out of range argument exception'') LL_invalid True) else None,
      \<lambda>e. Some (Definition_of (Status_of SC_internal ''unknown exception'') LL_warn False)]"

lemma default_mappers: "list_all2 exception_mapper default_exception_handling_mappers default_handles"
  by (simp del: caught_as.simps add: default_exception_handling_mappers_def default_handles_def
      to_constant.exception_mapper_axioms of_type.exception_mapper_axioms
      forwarding.exception_mapper_axioms)

lemma default_first_match:
  "\<exists>d. first_match default_handles e = Some d \<and> defined_status e d = default_handling e"
  by (cases e) (simp_all add: default_handles_def default_handling_def defined_status_def
      extract_exception_details_def Definition_of_def Status_of_def)

lemma exception_handling_run:
  assumes "list_all2 exception_mapper ms hs" and "func ctx w = Some (r, w1)" and "stack_ok n w1"
  shows "\<exists>out. length out \<le> 1 \<and> ExceptionHandlingRequestHook_Process ms func ctx w =
     Some (case r of Inr s \<Rightarrow> Inr s
           | Inl e \<Rightarrow> (case first_match hs e of Some d \<Rightarrow> Inr (defined_status e d) | None \<Rightarrow> Inl e),
       w1\<lparr>console := console w1 @ out\<rparr>)"
proof (cases r)
  case (Inr s)
  with assms(2) show ?thesis
    by (intro exI [of _ "[]"]) (simp add: ExceptionHandlingRequestHook_Process_def catchC_Inr)
next
  case (Inl e)
  show ?thesis
  proof (cases "first_match hs e")
    case None
    with Inl assms(2) show ?thesis
      by (intro exI [of _ "[]"]) (simp add: ExceptionHandlingRequestHook_Process_def catchC_Inl
          handle_exception_first_match [OF assms(1)] throw_apply)
  next
    case (Some d)
    obtain out where "apply_definition e d w1 = Some (Inr (defined_status e d), w1\<lparr>console := console w1 @ out\<rparr>)"
      "length out \<le> 1" by (rule apply_definition_run [OF assms(3)])
    with Inl Some assms(2) show ?thesis
      by (intro exI [of _ out]) (simp add: ExceptionHandlingRequestHook_Process_def catchC_Inl
          handle_exception_first_match [OF assms(1)])
  qed
qed

text \<open>The default handling as a rule over pre- and postconditions.\<close>

lemma hoare_default_handling_state:
  assumes "hoare P (func ctx) (\<lambda>r w. Q r w)" and "\<And>r. log_stable n (Q r)"
  shows "hoare P (ExceptionHandlingRequestHook_Process default_exception_handling_mappers func ctx)
    (\<lambda>r w. \<exists>r0. Q r0 w \<and> r = Inr (case r0 of Inl e \<Rightarrow> default_handling e | Inr s \<Rightarrow> s))"
proof (rule hoareI)
  fix w assume "P w"
  with assms(1) obtain r w1 where run: "func ctx w = Some (r, w1)" and q: "Q r w1" by (auto elim: hoareE)
  have w1: "stack_ok n w1" using q assms(2) [of r] by (simp add: log_stable_def)
  obtain out where "ExceptionHandlingRequestHook_Process default_exception_handling_mappers func ctx w =
     Some (case r of Inr s \<Rightarrow> Inr s
           | Inl e \<Rightarrow> (case first_match default_handles e of Some d \<Rightarrow> Inr (defined_status e d) | None \<Rightarrow> Inl e),
       w1\<lparr>console := console w1 @ out\<rparr>)"
    using exception_handling_run [where func = func, OF default_mappers run w1] by blast
  moreover have "(case r of Inr s \<Rightarrow> Inr s
      | Inl e \<Rightarrow> (case first_match default_handles e of Some d \<Rightarrow> Inr (defined_status e d) | None \<Rightarrow> Inl e))
    = Inr (case r of Inl e \<Rightarrow> default_handling e | Inr s \<Rightarrow> s)"
    using default_first_match [of "projl r"] by (cases r) auto
  moreover have "Q r (w1\<lparr>console := console w1 @ out\<rparr>)" using q assms(2) [of r] by (simp add: log_stable_def)
  ultimately show "\<exists>r w'. ExceptionHandlingRequestHook_Process default_exception_handling_mappers func ctx w = Some (r, w') \<and>
      (\<exists>r0. Q r0 w' \<and> r = Inr (case r0 of Inl e \<Rightarrow> default_handling e | Inr s \<Rightarrow> s))" by auto
qed

lemma hoare_default_handling:
  assumes "hoare P (func ctx) (\<lambda>r w. Q r \<and> stack_ok n w)"
  shows "hoare P (ExceptionHandlingRequestHook_Process default_exception_handling_mappers func ctx)
    (\<lambda>r w. (\<exists>r0. Q r0 \<and> r = Inr (case r0 of Inl e \<Rightarrow> default_handling e | Inr s \<Rightarrow> s)) \<and> stack_ok n w)"
  by (rule hoare_weaken, rule hoare_default_handling_state [where n = n and func = func], rule assms)
    (auto simp: log_stable_def)

subsection \<open>Properties\<close>

text \<open>
  Claim C29: the order of the mappers is the priority. For any list of mappers that look at the
  exception only, the hook answers a thrown exception with the definition of the first mapper
  that knows it, rethrows one that no mapper knows, passes statuses on untouched, and adds at
  most one line of log output to what the request did.
\<close>

theorem first_mapper_decides:
  assumes "list_all2 exception_mapper ms hs" and "func ctx w = Some (r, w1)" and "stack_ok n w1"
  shows "\<exists>out. length out \<le> 1 \<and> ExceptionHandlingRequestHook_Process ms func ctx w =
     Some (case r of Inr s \<Rightarrow> Inr s
           | Inl e \<Rightarrow> (case first_match hs e of Some d \<Rightarrow> Inr (defined_status e d) | None \<Rightarrow> Inl e),
       w1\<lparr>console := console w1 @ out\<rparr>)"
  using assms by (rule exception_handling_run)

theorem first_mapper_decides_witness:
  "\<exists>out. ExceptionHandlingRequestHook_Process
      [ExceptionOfTypeMapper T_logic_error (Definition_of (Status_of SC_failed_precondition []) LL_warn True),
       ToConstantMapper (Definition_of (Status_of SC_internal ''bug'') LL_invalid False)]
      (\<lambda>ctx. throw (OutOfRange ''index'')) ThreadLocalContext (initial_world ())
    = Some (Inr (Status_of SC_failed_precondition ''index''), (initial_world ())\<lparr>console := out\<rparr>)"
proof -
  let ?d1 = "Definition_of (Status_of SC_failed_precondition []) LL_warn True"
  let ?d2 = "Definition_of (Status_of SC_internal ''bug'') LL_invalid False"
  have "list_all2 exception_mapper [ExceptionOfTypeMapper T_logic_error ?d1, ToConstantMapper ?d2]
      [\<lambda>e. if caught_as T_logic_error e then Some ?d1 else None, \<lambda>e. Some ?d2]"
    by (simp del: caught_as.simps add: to_constant.exception_mapper_axioms of_type.exception_mapper_axioms)
  from first_mapper_decides [OF this, of "\<lambda>ctx. throw (OutOfRange ''index'')" ThreadLocalContext
      "initial_world ()" "Inl (OutOfRange ''index'')" "initial_world ()" 2]
  show ?thesis
    by (auto simp: throw_apply defined_status_def Definition_of_def extract_exception_details_def c_str_def
        Status_of_def)
qed

text \<open>
  Claim C30: with the default mappers no exception leaves the hook, and what the caller learns is
  fixed: the status an error of a depending service was mapped to, the texts of
  \<open>invalid_argument\<close> and \<open>out_of_range\<close> exceptions, and for everything else, standard exceptions
  and other thrown values alike, \<open>INTERNAL\<close> with a constant text, so that two exceptions that
  differ in private details cannot be told apart.
\<close>

theorem default_handling_total:
  assumes "func ctx w = Some (r, w1)" and "stack_ok n w1"
  shows "\<exists>out. ExceptionHandlingRequestHook_Process default_exception_handling_mappers func ctx w =
     Some (Inr (case r of
        Inr s \<Rightarrow> s
      | Inl (ErrorForwardingException s d) \<Rightarrow> s
      | Inl (InvalidArgument d) \<Rightarrow> Status_of SC_invalid_argument (''invalid argument exception: '' @ c_str d)
      | Inl (OutOfRange d) \<Rightarrow> Status_of SC_out_of_range (''out of range argument exception: '' @ c_str d)
      | Inl _ \<Rightarrow> Status_of SC_internal ''unknown exception''), w1\<lparr>console := console w1 @ out\<rparr>)"
proof -
  from exception_handling_run [where func = func, OF default_mappers assms]
  obtain out where out: "ExceptionHandlingRequestHook_Process default_exception_handling_mappers func ctx w =
     Some (case r of Inr s \<Rightarrow> Inr s
           | Inl e \<Rightarrow> (case first_match default_handles e of Some d \<Rightarrow> Inr (defined_status e d) | None \<Rightarrow> Inl e),
       w1\<lparr>console := console w1 @ out\<rparr>)" by blast
  show ?thesis
  proof (cases r)
    case (Inl e)
    obtain d where "first_match default_handles e = Some d" "defined_status e d = default_handling e"
      using default_first_match by blast
    with out Inl show ?thesis by (cases e) (auto simp: default_handling_def)
  qed (use out in auto)
qed

theorem default_handling_total_witness:
  "\<exists>out. ExceptionHandlingRequestHook_Process default_exception_handling_mappers
      (\<lambda>ctx. throw (RuntimeError ''password is 1234'')) ThreadLocalContext (initial_world ())
    = Some (Inr (Status_of SC_internal ''unknown exception''), (initial_world ())\<lparr>console := out\<rparr>)"
  using default_handling_total [of "\<lambda>ctx. throw (RuntimeError ''password is 1234'')" ThreadLocalContext
      "initial_world ()" "Inl (RuntimeError ''password is 1234'')" "initial_world ()" 2]
  by (auto simp: throw_apply)

text \<open>
  Claim C31: an error of a callee reaches the own caller as the configured status. While an
  incoming request is handled with the default exception handling, an outgoing request runs
  with the error forwarding hook. When it returns a status whose code is mapped, whatever code
  would have run after it is skipped and the caller gets exactly the configured status,
  independent of the callee's details; a status that is not mapped is handed to the code that
  follows as it is.
\<close>

theorem forwarded_to_caller:
  assumes "octx < n" and "code status \<noteq> SC_invalid"
    and "hoare (stack_ok n) (func octx) (\<lambda>r w. r = Inr status \<and> stack_ok n w)"
    and "\<And>s. hoare (stack_ok n) (rest s) (\<lambda>r w. r = answer s \<and> stack_ok n w)"
  shows "hoare (stack_ok n)
    (ExceptionHandlingRequestHook_Process default_exception_handling_mappers
      (\<lambda>ctx. bindC (hook_Process (SetRequestType RT_outgoing (ErrorForwardingRequestHook mapping)) func octx) rest) ctx)
    (\<lambda>r w. r = Inr (case mapping (code status) of
              Some map_to \<Rightarrow> map_to
            | None \<Rightarrow> (case answer status of Inl e \<Rightarrow> default_handling e | Inr s \<Rightarrow> s)) \<and> stack_ok n w)"
proof -
  let ?out = "hook_Process (SetRequestType RT_outgoing (ErrorForwardingRequestHook mapping)) func octx"
  let ?Q = "\<lambda>r. case mapping (code status) of
      Some map_to \<Rightarrow> \<exists>detail. r = Inl (ErrorForwardingException map_to detail) | None \<Rightarrow> r = Inr status"
  let ?R = "\<lambda>r. case mapping (code status) of
      Some map_to \<Rightarrow> \<exists>detail. r = Inl (ErrorForwardingException map_to detail) | None \<Rightarrow> r = answer status"
  have out: "hoare (stack_ok n) ?out (\<lambda>r w. ?Q r \<and> stack_ok n w)"
    using assms(1-3) by (rule ErrorForwarding_passes_status)
  have "hoare (stack_ok n) (bindC ?out rest) (\<lambda>r w. ?R r \<and> stack_ok n w)"
  proof (rule hoare_bindC [OF out])
    show "hoare (\<lambda>w. ?Q (Inr s) \<and> stack_ok n w) (rest s) (\<lambda>r w. ?R r \<and> stack_ok n w)" for s
      using assms(4) [of s] by (auto simp: hoare_def split: option.splits)
    show "\<And>e w. ?Q (Inl e) \<and> stack_ok n w \<Longrightarrow> ?R (Inl e) \<and> stack_ok n w"
      by (auto split: option.splits)
  qed
  from hoare_default_handling [where func = "\<lambda>ctx. bindC ?out rest", OF this] show ?thesis
    by (rule hoare_weaken) (auto simp: default_handling_def split: option.splits)
qed

theorem forwarded_to_caller_witness:
  "\<exists>w'. ExceptionHandlingRequestHook_Process default_exception_handling_mappers
      (\<lambda>ctx. bindC (hook_Process (SetRequestType RT_outgoing
          (ErrorForwardingRequestHook (EF_IncludeAllErrorCodes default_map_to Map.empty)))
          (\<lambda>ctx. ret (Status_of SC_not_found ''row 17'')) ThreadLocalContext) (\<lambda>s. ret Status_OK))
      ThreadLocalContext (initial_world ()) = Some (Inr default_map_to, w')"
proof -
  let ?m = "EF_IncludeAllErrorCodes default_map_to Map.empty"
  have m: "?m SC_not_found = Some default_map_to"
    unfolding EF_IncludeAllErrorCodes_def fold_IncludeAll set_upto
    by (auto simp: image_iff status_code_of_int_def status_codes_def intro!: bexI [of _ 5])
  have "hoare (stack_ok 2)
    (ExceptionHandlingRequestHook_Process default_exception_handling_mappers
      (\<lambda>ctx. bindC (hook_Process (SetRequestType RT_outgoing (ErrorForwardingRequestHook ?m))
          (\<lambda>ctx. ret (Status_of SC_not_found ''row 17'')) ThreadLocalContext) (\<lambda>s. ret Status_OK))
      ThreadLocalContext)
    (\<lambda>r w. r = Inr (case ?m (code (Status_of SC_not_found ''row 17'')) of
              Some map_to \<Rightarrow> map_to
            | None \<Rightarrow> (case Inr Status_OK of Inl e \<Rightarrow> default_handling e | Inr s \<Rightarrow> s)) \<and> stack_ok 2 (w :: unit world))"
    by (rule forwarded_to_caller [where answer = "\<lambda>s. Inr Status_OK"])
      (simp_all add: ThreadLocalContext_def hoare_ret)
  from this stack_ok_initial [of "()"] show ?thesis by (rule hoareE) (auto simp: m)
qed

text \<open>
  Including the placeholder code \<open>invalid\<close> in the mapping hides every exception of the
  outgoing request: \<open>post_process\<close>, which then gets that code, fails to print it, and the caller
  is told that his argument was invalid, whatever went wrong with the callee.
\<close>

theorem mapped_invalid_blames_caller:
  assumes "octx < n" and "mapping SC_invalid \<noteq> None"
    and "hoare (stack_ok n) (func octx) (\<lambda>r w. r = Inl e \<and> stack_ok n w)"
  shows "hoare (stack_ok n)
    (ExceptionHandlingRequestHook_Process default_exception_handling_mappers
      (\<lambda>ctx. hook_Process (SetRequestType RT_outgoing (ErrorForwardingRequestHook mapping)) func octx) ctx)
    (\<lambda>r w. r = Inr (Status_of SC_invalid_argument
        ''invalid argument exception: invalid status code with id -1'') \<and> stack_ok n w)"
proof -
  have minus_one: "show_int (- 1) = ''-1''" by code_simp
  have i: "default_handling invalid_status_exn = Status_of SC_invalid_argument
      ''invalid argument exception: invalid status code with id -1''"
    using minus_one by (simp add: default_handling_def invalid_status_exn_def c_str_def)
  have "hoare (stack_ok n) (hook_Process (SetRequestType RT_outgoing (ErrorForwardingRequestHook mapping)) func octx)
    (\<lambda>r w. r = Inl (if mapping SC_invalid = None then e else invalid_status_exn) \<and> stack_ok n w)"
    using assms(1,3) by (rule ErrorForwarding_passes_exception)
  from hoare_default_handling [where func = "\<lambda>ctx. hook_Process (SetRequestType RT_outgoing
      (ErrorForwardingRequestHook mapping)) func octx", OF this]
  show ?thesis by (rule hoare_weaken) (auto simp: assms(2) i)
qed

theorem mapped_invalid_blames_caller_witness:
  "\<exists>w'. ExceptionHandlingRequestHook_Process default_exception_handling_mappers
      (\<lambda>ctx. hook_Process (SetRequestType RT_outgoing (ErrorForwardingRequestHook
          (EF_Include SC_invalid default_map_to Map.empty)))
          (\<lambda>ctx. throw (RuntimeError ''connection lost'')) ThreadLocalContext)
      ThreadLocalContext (initial_world ()) = Some (Inr (Status_of SC_invalid_argument
        ''invalid argument exception: invalid status code with id -1''), w')"
proof -
  let ?m = "EF_Include SC_invalid default_map_to Map.empty"
  have "hoare (stack_ok 2)
    (ExceptionHandlingRequestHook_Process default_exception_handling_mappers
      (\<lambda>ctx. hook_Process (SetRequestType RT_outgoing (ErrorForwardingRequestHook ?m))
          (\<lambda>ctx. throw (RuntimeError ''connection lost'')) ThreadLocalContext) ThreadLocalContext)
    (\<lambda>r w. r = Inr (Status_of SC_invalid_argument
        ''invalid argument exception: invalid status code with id -1'') \<and> stack_ok 2 (w :: unit world))"
    by (rule mapped_invalid_blames_caller [where e = "RuntimeError ''connection lost''"])
      (simp_all add: ThreadLocalContext_def EF_Include_def hoare_throw)
  from this stack_ok_initial [of "()"] show ?thesis by (rule hoareE) auto
qed

end
