(* ===== verification/Mse_Security.thy ===== *)
theory Mse_Security
  imports Mse_Hook_Rules Mse_Request_Processor
begin

text \<open>
  \<open>security/\<close>: the hook that takes claims from a token (\<open>TokenAuthRequestHook\<close>) with its virtual
  operations, the demonstration subclass with a list of tokens (\<open>BasicTokenAuthRequestHook\<close>),
  and the hook that checks a claim of the context (\<open>ClaimCheckerRequestHook\<close>).
\<close>

subsection \<open>Token authentication\<close>

text \<open>
  The virtual operations. A reference parameter that the operation fills is part of its result;
  the decoded token is an \<open>std::any\<close>.
\<close>

record ('v, 'u) TokenAuth =
  decode_token :: "string \<Rightarrow> ('u world, bool \<times> 'v any \<times> string) comp"
  verify_token :: "'v any \<Rightarrow> ('u world, bool \<times> string) comp"
  extract_claim :: "'v any \<Rightarrow> string \<Rightarrow> ('u world, string option) comp"

primrec clear_claims :: "string list \<Rightarrow> addr \<Rightarrow> ('u world, unit) comp" where
  "clear_claims [] ctx = ret ()"
| "clear_claims (claim # claims) ctx =
     thenC (on_contexts (Context_Erase ctx claim))
     (thenC (on_contexts (Context_Insert ctx claim []))
            (clear_claims claims ctx))"

primrec take_claims :: "('v, 'u) TokenAuth \<Rightarrow> 'v any \<Rightarrow> string list \<Rightarrow> addr \<Rightarrow> ('u world, Status) comp" where
  "take_claims ta decoded_token [] ctx = ret Status_OK"
| "take_claims ta decoded_token (claim # claims) ctx =
     thenC (on_contexts (Context_Erase ctx claim))
     (bindC (extract_claim ta decoded_token claim) (\<lambda>claim_value.
        case claim_value of
          None \<Rightarrow> ret (Status_of SC_unauthenticated (''required claim not available: '' @ claim))
        | Some v \<Rightarrow> thenC (on_contexts (Context_Insert ctx claim v)) (take_claims ta decoded_token claims ctx)))"

definition TokenAuth_pre_process ::
    "('v, 'u) TokenAuth \<Rightarrow> string \<Rightarrow> string list \<Rightarrow> addr \<Rightarrow> ('u world, Status) comp" where
  "TokenAuth_pre_process ta token_metadata_key required_claims ctx =
     thenC (clear_claims required_claims ctx)
     (bindC (readC (\<lambda>w. map_option Inr (Context_Contains (contexts w) ctx token_metadata_key))) (\<lambda>present.
        if \<not> present then
          ret (Status_of SC_unauthenticated (''metadata key '' @ [CHR 0x27] @ token_metadata_key @ [CHR 0x27] @ '' is missing''))
        else
          bindC (readC (\<lambda>w. Context_At (contexts w) ctx token_metadata_key)) (\<lambda>token.
          bindC (decode_token ta token) (\<lambda>(decoded, decoded_token, decoding_details).
            if \<not> decoded then
              ret (Status_of SC_unauthenticated (''unable to decode token: '' @ decoding_details))
            else
              bindC (verify_token ta decoded_token) (\<lambda>(verified, verification_details).
                if \<not> verified then
                  ret (Status_of SC_unauthenticated (''token verification failed: '' @ verification_details))
                else take_claims ta decoded_token required_claims ctx)))))"

definition TokenAuthRequestHook :: "string \<Rightarrow> ('v, 'u) TokenAuth \<Rightarrow> string \<Rightarrow> string list \<Rightarrow> 'u hook" where
  "TokenAuthRequestHook name ta token_metadata_key required_claims =
     protocol_hook name (\<lambda>t. TokenAuth_pre_process ta token_metadata_key required_claims) (\<lambda>t. default_post_process)"

subsection \<open>A list of tokens\<close>

record TokenData =
  td_token :: string
  td_scopes :: string

text \<open>The delimiter is a C string, so printing it stops at a null character.\<close>

fun to_separated_string :: "string list \<Rightarrow> string \<Rightarrow> string" where
  "to_separated_string [] delim = []"
| "to_separated_string [x] delim = x"
| "to_separated_string (x # y # data) delim = x @ c_str delim @ to_separated_string (y # data) delim"

type_synonym TokensWithScope = "(string \<times> string list) list"

record BasicParameters =
  bp_metadata_key :: string
  bp_valid_tokens_with_scope :: TokensWithScope

definition Basic_Parameters_token :: "string \<Rightarrow> string \<Rightarrow> BasicParameters" where
  "Basic_Parameters_token md_key req_token_val =
     \<lparr>bp_metadata_key = md_key, bp_valid_tokens_with_scope = mm_of_list [(req_token_val, [])]\<rparr>"

definition Basic_Parameters :: "string \<Rightarrow> TokensWithScope \<Rightarrow> BasicParameters" where
  "Basic_Parameters md_key tokens_with_scope =
     \<lparr>bp_metadata_key = md_key, bp_valid_tokens_with_scope = mm_of_list tokens_with_scope\<rparr>"

record BasicTokenAuth =
  all_valid_tokens :: "string set"
  token_scopes :: "string \<rightharpoonup> string"

definition BasicTokenAuth_construct :: "BasicParameters \<Rightarrow> BasicTokenAuth" where
  "BasicTokenAuth_construct ps =
     fold (\<lambda>(token, scopes) b.
             b\<lparr>all_valid_tokens := insert token (all_valid_tokens b),
               token_scopes := (token_scopes b)(token \<mapsto> to_separated_string scopes '' '')\<rparr>)
       (bp_valid_tokens_with_scope ps) \<lparr>all_valid_tokens = {}, token_scopes = Map.empty\<rparr>"

definition Basic_decode_token :: "BasicTokenAuth \<Rightarrow> string \<Rightarrow> ('u world, bool \<times> TokenData any \<times> string) comp" where
  "Basic_decode_token b token =
     ret (True,
       AnyOf ''TokenData'' \<lparr>td_token = token,
         td_scopes = (case token_scopes b token of Some scopes \<Rightarrow> scopes | None \<Rightarrow> [])\<rparr>,
       [])"

definition Basic_verify_token :: "BasicTokenAuth \<Rightarrow> TokenData any \<Rightarrow> ('u world, bool \<times> string) comp" where
  "Basic_verify_token b decoded_token =
     bindC (liftE (any_cast ''TokenData'' decoded_token)) (\<lambda>token_data.
       if td_token token_data \<in> all_valid_tokens b then ret (True, []) else ret (False, ''invalid token''))"

definition Basic_extract_claim :: "TokenData any \<Rightarrow> string \<Rightarrow> ('u world, string option) comp" where
  "Basic_extract_claim decoded_token claim =
     (if claim = ''scope'' then
        bindC (liftE (any_cast ''TokenData'' decoded_token)) (\<lambda>token_data. ret (Some (td_scopes token_data)))
      else ret None)"

definition BasicTokenAuth_operations :: "BasicTokenAuth \<Rightarrow> (TokenData, 'u) TokenAuth" where
  "BasicTokenAuth_operations b =
     \<lparr>decode_token = Basic_decode_token b, verify_token = Basic_verify_token b,
      extract_claim = Basic_extract_claim\<rparr>"

definition BasicTokenAuthRequestHook :: "BasicParameters \<Rightarrow> 'u hook" where
  "BasicTokenAuthRequestHook ps =
     TokenAuthRequestHook ''basic token authentication'' (BasicTokenAuth_operations (BasicTokenAuth_construct ps))
       (bp_metadata_key ps) [''scope'']"

subsection \<open>Checking a claim\<close>

record 'u ClaimCheckerParameters =
  cc_claim :: string
  cc_checker :: "string \<Rightarrow> ('u world, bool) comp"
  cc_fail_status :: Status

definition PermissionDenied :: Status where
  "PermissionDenied = Status_of SC_permission_denied ''insufficient claims''"

definition ClaimEqualTo :: "string \<Rightarrow> string \<Rightarrow> Status \<Rightarrow> 'u ClaimCheckerParameters" where
  "ClaimEqualTo claim v fail_status =
     \<lparr>cc_claim = claim, cc_checker = (\<lambda>c. ret (c = v)), cc_fail_status = fail_status\<rparr>"

text \<open>The loop \<open>while (iss >> token)\<close> with its early return is a search in the extracted words.\<close>

definition ClaimInSpaceSeparatedList :: "string \<Rightarrow> string \<Rightarrow> Status \<Rightarrow> 'u ClaimCheckerParameters" where
  "ClaimInSpaceSeparatedList claim v fail_status =
     \<lparr>cc_claim = claim, cc_checker = (\<lambda>c. ret (list_ex (\<lambda>token. v = token) (extract_words c))),
      cc_fail_status = fail_status\<rparr>"

definition ScopeContains :: "string \<Rightarrow> 'u ClaimCheckerParameters" where
  "ScopeContains v = ClaimInSpaceSeparatedList ''scope'' v PermissionDenied"

definition ClaimChecker_pre_process :: "'u ClaimCheckerParameters \<Rightarrow> addr \<Rightarrow> ('u world, Status) comp" where
  "ClaimChecker_pre_process ps ctx =
     bindC (readC (\<lambda>w. map_option Inr (Context_Contains (contexts w) ctx (cc_claim ps)))) (\<lambda>present.
       if \<not> present then ret (cc_fail_status ps)
       else bindC (readC (\<lambda>w. Context_At (contexts w) ctx (cc_claim ps))) (\<lambda>claim.
         bindC (cc_checker ps claim) (\<lambda>passed.
           if \<not> passed then ret (cc_fail_status ps) else ret Status_OK)))"

definition ClaimCheckerRequestHook :: "'u ClaimCheckerParameters \<Rightarrow> 'u hook" where
  "ClaimCheckerRequestHook ps =
     protocol_hook ''claim checker'' (\<lambda>t. ClaimChecker_pre_process ps) (\<lambda>t. default_post_process)"

subsection \<open>The hooks and the stack of contexts\<close>

lemma keeps_on_Context_Erase: "keeps (stack_ok n) (on_contexts (Context_Erase ctx k))"
proof (rule keepsI)
  fix w r w' assume w: "stack_ok n w" and run: "on_contexts (Context_Erase ctx k) w = Some (r, w')"
  have live: "contexts w ctx \<noteq> None"
    using run by (auto simp: Context_Erase_def load_context_def on_contexts_def zoomC_def bindC_def readC_def
        split: option.splits)
  with run w show "stack_ok n w'"
    by (auto simp: Context_Erase_run [OF live] stack_ok_metadata_of [OF w])
qed

lemma keeps_on_Context_Insert: "keeps (stack_ok n) (on_contexts (Context_Insert ctx k v))"
proof (rule keepsI)
  fix w r w' assume w: "stack_ok n w" and run: "on_contexts (Context_Insert ctx k v) w = Some (r, w')"
  have live: "contexts w ctx \<noteq> None"
    using run by (auto simp: Context_Insert_def update_context_def on_contexts_def zoomC_def split: option.splits)
  with run w show "stack_ok n w'"
    by (auto simp: Context_Insert_run [OF live] stack_ok_metadata_of [OF w])
qed

text \<open>What the authentication needs of a subclass: its operations leave the stack as it should be.\<close>

locale token_auth =
  fixes ta :: "('v, 'u) TokenAuth"
  assumes decode_keeps: "keeps (stack_ok n) (decode_token ta token)"
    and verify_keeps: "keeps (stack_ok n) (verify_token ta d)"
    and extract_keeps: "keeps (stack_ok n) (extract_claim ta d claim)"
begin

lemma take_claims_keeps: "keeps (stack_ok n) (take_claims ta d claims ctx)"
  by (induction claims)
    (auto intro!: keeps_thenC keeps_bindC keeps_on_Context_Erase keeps_on_Context_Insert extract_keeps
      split: option.split)

lemma clear_claims_keeps: "keeps (stack_ok n) (clear_claims claims ctx)"
  by (induction claims) (auto intro!: keeps_thenC keeps_on_Context_Erase keeps_on_Context_Insert)

lemma hook_stack: "stack_hook (TokenAuthRequestHook name ta key claims)"
  unfolding TokenAuthRequestHook_def
  by (rule protocol_stack_hook)
    (auto simp: TokenAuth_pre_process_def default_post_process_def intro!: keeps_thenC keeps_bindC keeps_if
      clear_claims_keeps take_claims_keeps decode_keeps verify_keeps split: prod.split)

end

interpretation basic: token_auth "BasicTokenAuth_operations b"
  by unfold_locales
    (auto simp: BasicTokenAuth_operations_def Basic_decode_token_def Basic_verify_token_def
      Basic_extract_claim_def intro!: keeps_bindC keeps_if keeps_liftE keeps_ret)

interpretation basic_hook: stack_hook "BasicTokenAuthRequestHook ps"
  unfolding BasicTokenAuthRequestHook_def by (rule basic.hook_stack)

interpretation scope_checker: stack_hook "ClaimCheckerRequestHook (ScopeContains v)"
  unfolding ClaimCheckerRequestHook_def
  by (rule protocol_stack_hook)
    (auto simp: ClaimChecker_pre_process_def default_post_process_def ScopeContains_def
      ClaimInSpaceSeparatedList_def intro!: keeps_bindC keeps_if keeps_readC keeps_ret)

subsection \<open>Operations that decide by the token alone\<close>

text \<open>
  A subclass whose decoding, verification and claims depend on the token only: \<open>dec\<close> gives
  what \<open>decode_token\<close> returns, \<open>ver\<close> and \<open>ext\<close> what the others return on the decoded token.
\<close>

locale pure_token_auth =
  fixes ta :: "('v, 'u) TokenAuth" and dec :: "string \<Rightarrow> bool \<times> 'v any \<times> string"
    and ver :: "string \<Rightarrow> bool \<times> string" and ext :: "string \<Rightarrow> string \<Rightarrow> string option"
  assumes decode_pure: "decode_token ta token = ret (dec token)"
    and verify_pure: "fst (dec token) \<Longrightarrow> verify_token ta (fst (snd (dec token))) = ret (ver token)"
    and extract_pure: "fst (dec token) \<Longrightarrow> extract_claim ta (fst (snd (dec token))) claim = ret (ext token claim)"

definition basic_scopes :: "BasicTokenAuth \<Rightarrow> string \<Rightarrow> string" where
  "basic_scopes b token = (case token_scopes b token of Some scopes \<Rightarrow> scopes | None \<Rightarrow> [])"

interpretation basic_pure: pure_token_auth "BasicTokenAuth_operations b"
    "\<lambda>token. (True, AnyOf ''TokenData'' \<lparr>td_token = token, td_scopes = basic_scopes b token\<rparr>, [])"
    "\<lambda>token. if token \<in> all_valid_tokens b then (True, []) else (False, ''invalid token'')"
    "\<lambda>token claim. if claim = ''scope'' then Some (basic_scopes b token) else None"
  by unfold_locales
    (simp_all add: BasicTokenAuth_operations_def Basic_decode_token_def Basic_verify_token_def
      Basic_extract_claim_def basic_scopes_def liftE_def bindC_def ret_def)

text \<open>The verdict on a token, and what the claims of a context are after it.\<close>

definition token_verdict ::
    "(string \<Rightarrow> bool \<times> 'v any \<times> string) \<Rightarrow> (string \<Rightarrow> bool \<times> string) \<Rightarrow> (string \<Rightarrow> string \<Rightarrow> string option) \<Rightarrow>
     string list \<Rightarrow> string \<Rightarrow> Status" where
  "token_verdict dec ver ext required_claims token =
     (if \<not> fst (dec token) then Status_of SC_unauthenticated (''unable to decode token: '' @ snd (snd (dec token)))
      else if \<not> fst (ver token) then Status_of SC_unauthenticated (''token verification failed: '' @ snd (ver token))
      else (case find (\<lambda>claim. ext token claim = None) required_claims of
              Some claim \<Rightarrow> Status_of SC_unauthenticated (''required claim not available: '' @ claim)
            | None \<Rightarrow> Status_OK))"

definition claims_set :: "string list \<Rightarrow> (string \<Rightarrow> string option) \<Rightarrow> metadata \<Rightarrow> metadata \<Rightarrow> bool" where
  "claims_set claims value_of md md' \<longleftrightarrow> mm_sorted md' \<and>
     (\<forall>k. mm_find k md' = (if k \<in> set claims then value_of k else mm_find k md))"

lemma clear_claims_run:
  "stack_ok n w \<Longrightarrow> ctx < n \<Longrightarrow> \<exists>md. clear_claims claims ctx w = Some (Inr (), set_metadata ctx md w) \<and>
     claims_set claims (\<lambda>k. Some []) (metadata_of ctx w) md"
proof (induction claims arbitrary: w)
  case Nil
  then have "set_metadata ctx (metadata_of ctx w) w = w"
    using stack_ok_live [OF Nil] by (auto simp: set_metadata_def metadata_of_def intro!: world.equality)
  with Nil show ?case
    by (intro exI [of _ "metadata_of ctx w"]) (simp add: ret_apply claims_set_def stack_ok_metadata_of)
next
  case (Cons c claims)
  have live: "contexts w ctx \<noteq> None" using stack_ok_live [OF Cons.prems] by auto
  let ?m = "metadata_of ctx w"
  let ?m1 = "mm_insert (c, []) (mm_erase c ?m)"
  have s: "mm_sorted ?m" by (rule stack_ok_metadata_of [OF Cons.prems(1)])
  have "stack_ok n (set_metadata ctx ?m1 w)" using s Cons.prems by simp
  from Cons.IH [OF this Cons.prems(2)] obtain md where
    md: "clear_claims claims ctx (set_metadata ctx ?m1 w) = Some (Inr (), set_metadata ctx md w)"
      "claims_set claims (\<lambda>k. Some []) ?m1 md"
    using live by auto
  have "clear_claims (c # claims) ctx w = Some (Inr (), set_metadata ctx md w)"
    using md(1) live by (simp add: thenC_Inr Context_Erase_run Context_Insert_run)
  with md(2) s show ?case
    by (intro exI [of _ md]) (auto simp: claims_set_def mm_find_insert mm_find_erase)
qed

text \<open>
  What the claims of an accepted token leave in the metadata: the values of the token up to the first
  claim that it lacks, which is erased; the others stay as they were.
\<close>

definition claim_taken :: "(string \<Rightarrow> string option) \<Rightarrow> string list \<Rightarrow> string \<Rightarrow> string option \<Rightarrow> string option" where
  "claim_taken value_of claims k before =
     (if k \<in> set (takeWhile (\<lambda>c. value_of c \<noteq> None) claims) then value_of k
      else if find (\<lambda>c. value_of c = None) claims = Some k then None
      else before)"

lemma claim_taken_other: "k \<notin> set claims \<Longrightarrow> claim_taken value_of claims k before = before"
  by (auto simp: claim_taken_def find_Some_iff dest: set_takeWhileD)

lemma claim_taken_Cons:
  assumes "value_of c = Some v"
  shows "claim_taken value_of (c # claims) k before = claim_taken value_of claims k (if k = c then Some v else before)"
proof -
  have "find (\<lambda>c. value_of c = None) claims \<noteq> Some c" using assms by (auto simp: find_Some_iff)
  then show ?thesis using assms by (auto simp: claim_taken_def)
qed

lemma claim_taken_all: "find (\<lambda>c. value_of c = None) claims = None \<Longrightarrow> k \<in> set claims \<Longrightarrow>
    claim_taken value_of claims k before = value_of k"
  by (auto simp: claim_taken_def find_None_iff takeWhile_eq_all_conv [THEN iffD2])

context pure_token_auth
begin

lemma take_claims_run:
  assumes "fst (dec token)"
  shows "stack_ok n w \<Longrightarrow> ctx < n \<Longrightarrow> \<exists>md. mm_sorted md \<and>
     take_claims ta (fst (snd (dec token))) claims ctx w =
       Some (Inr (case find (\<lambda>claim. ext token claim = None) claims of
               Some claim \<Rightarrow> Status_of SC_unauthenticated (''required claim not available: '' @ claim)
             | None \<Rightarrow> Status_OK), set_metadata ctx md w) \<and>
     (\<forall>k. mm_find k md = claim_taken (ext token) claims k (mm_find k (metadata_of ctx w)))"
proof (induction claims arbitrary: w)
  case Nil
  then have "set_metadata ctx (metadata_of ctx w) w = w"
    using stack_ok_live [OF Nil] by (auto simp: set_metadata_def metadata_of_def intro!: world.equality)
  with Nil show ?case
    by (intro exI [of _ "metadata_of ctx w"]) (simp add: ret_apply claim_taken_def stack_ok_metadata_of)
next
  case (Cons c claims)
  have live: "contexts w ctx \<noteq> None" using stack_ok_live [OF Cons.prems] by auto
  let ?m = "metadata_of ctx w"
  have s: "mm_sorted ?m" by (rule stack_ok_metadata_of [OF Cons.prems(1)])
  show ?case
  proof (cases "ext token c")
    case None
    then show ?thesis using live s assms
      by (intro exI [of _ "mm_erase c ?m"])
        (simp add: thenC_Inr Context_Erase_run extract_pure bindC_ret_left ret_apply mm_find_erase claim_taken_def)
  next
    case (Some v)
    let ?m1 = "mm_insert (c, v) (mm_erase c ?m)"
    have "stack_ok n (set_metadata ctx ?m1 w)" using s Cons.prems by simp
    from Cons.IH [OF this Cons.prems(2)] obtain md where md: "mm_sorted md"
      "take_claims ta (fst (snd (dec token))) claims ctx (set_metadata ctx ?m1 w) =
         Some (Inr (case find (\<lambda>claim. ext token claim = None) claims of
               Some claim \<Rightarrow> Status_of SC_unauthenticated (''required claim not available: '' @ claim)
             | None \<Rightarrow> Status_OK), set_metadata ctx md w)"
      "\<forall>k. mm_find k md = claim_taken (ext token) claims k (mm_find k ?m1)"
      using live by auto
    have "take_claims ta (fst (snd (dec token))) (c # claims) ctx w =
        take_claims ta (fst (snd (dec token))) claims ctx (set_metadata ctx ?m1 w)"
      using live Some assms
      by (simp add: thenC_Inr Context_Erase_run Context_Insert_run extract_pure bindC_ret_left)
    with md s Some show ?thesis
      by (intro exI [of _ md]) (simp add: claim_taken_Cons mm_find_insert mm_find_erase)
  qed
qed

end

text \<open>A lookup does not see changes of contexts above it on the stack.\<close>

lemma Context_At_below:
  "stack_ok n w \<Longrightarrow> a < n \<Longrightarrow> b < a \<Longrightarrow>
   Context_At (contexts (set_metadata a md w)) b k = Context_At (contexts w) b k"
proof (induction b rule: less_induct)
  case (less b)
  then obtain c where c: "contexts w b = Some c" using stack_ok_live [of n w b] by auto
  have "contexts (set_metadata a md w) b = Some c" using less.prems c by simp
  moreover have "p < b" if "ctx_parent c = Some p" for p
    using less.prems(1) c that unfolding stack_ok_def by force
  ultimately show ?case using c less
    by (auto simp: Context_At.simps [of _ b] split: option.split)
qed

lemma Context_At_set_metadata:
  assumes "stack_ok n w" and "a < n" and "mm_find k md = mm_find k (metadata_of a w)"
  shows "Context_At (contexts (set_metadata a md w)) a k = Context_At (contexts w) a k"
proof -
  obtain c where c: "contexts w a = Some c" using stack_ok_live [OF assms(1,2)] by auto
  have "p < a" if "ctx_parent c = Some p" for p
    using assms(1) c that unfolding stack_ok_def by force
  then show ?thesis using c assms Context_At_below [OF assms(1,2)]
    by (auto simp: Context_At.simps [of _ a] metadata_of_def set_metadata_def split: option.split)
qed

lemma Context_At_erased:
  assumes "stack_ok n w" and "a < n" and "contexts w a = Some c" and "mm_find k md = None"
  shows "Context_At (contexts (set_metadata a md w)) a k =
    (case ctx_parent c of
       None \<Rightarrow> Some (Inl (OutOfRange (k @ '' not found in context metadata'')))
     | Some p \<Rightarrow> Context_At (contexts w) p k)"
proof -
  have "p < a" if "ctx_parent c = Some p" for p
    using assms(1,3) that unfolding stack_ok_def by force
  then show ?thesis using assms Context_At_below [OF assms(1,2)]
    by (auto simp: Context_At.simps [of _ a] set_metadata_def split: option.split)
qed

lemma Context_reads:
  assumes "stack_ok n w" and "a < n"
  obtains (found) v where "Context_At (contexts w) a k = Some (Inr v)" "Context_Contains (contexts w) a k = Some True"
  | (missing) "Context_At (contexts w) a k = Some (Inl (OutOfRange (k @ '' not found in context metadata'')))"
      "Context_Contains (contexts w) a k = Some False"
proof -
  from store_ok_reads [OF stack_ok_store [OF assms(1)] stack_ok_live [OF assms], of k "[]"]
  obtain m where m: "Context_Contains (contexts w) a k = Some (mm_find k m \<noteq> None)"
      "Context_At (contexts w) a k = Some (case mm_find k m of Some v \<Rightarrow> Inr v
          | None \<Rightarrow> Inl (OutOfRange (k @ '' not found in context metadata'')))" by blast
  with that show ?thesis by (cases "mm_find k m") auto
qed

definition missing_token :: "string \<Rightarrow> Status" where
  "missing_token key =
     Status_of SC_unauthenticated (''metadata key '' @ [CHR 0x27] @ key @ [CHR 0x27] @ '' is missing'')"

lemma pre_process_missing:
  assumes "stack_ok n w" and "ctx < n" and "key \<notin> set claims"
    and "Context_Contains (contexts w) ctx key = Some False"
  shows "\<exists>md. TokenAuth_pre_process ta key claims ctx w = Some (Inr (missing_token key), set_metadata ctx md w) \<and>
     claims_set claims (\<lambda>k. Some []) (metadata_of ctx w) md"
proof -
  obtain md where md: "clear_claims claims ctx w = Some (Inr (), set_metadata ctx md w)"
    "claims_set claims (\<lambda>k. Some []) (metadata_of ctx w) md"
    using clear_claims_run [OF assms(1,2)] by blast
  have ok: "stack_ok n (set_metadata ctx md w)" using assms(1) md(2) by (simp add: claims_set_def)
  have "mm_find key md = mm_find key (metadata_of ctx w)" using md(2) assms(3) by (simp add: claims_set_def)
  note At = Context_At_set_metadata [OF assms(1,2) this]
  have "Context_Contains (contexts (set_metadata ctx md w)) ctx key = Some False"
    by (rule Context_reads [OF ok assms(2), of key]; rule Context_reads [OF assms(1,2), of key])
      (use At assms(4) in auto)
  with md show ?thesis
    by (intro exI [of _ md]) (simp add: TokenAuth_pre_process_def thenC_Inr bindC_readC_map [where x = False] ret_apply missing_token_def)
qed

lemma token_read_after_clear:
  assumes "stack_ok n w" and "ctx < n" and "key \<notin> set claims"
    and "Context_At (contexts w) ctx key = Some (Inr token)"
    and "claims_set claims f (metadata_of ctx w) md"
  shows "Context_At (contexts (set_metadata ctx md w)) ctx key = Some (Inr token)"
    "Context_Contains (contexts (set_metadata ctx md w)) ctx key = Some True"
proof -
  have ok: "stack_ok n (set_metadata ctx md w)" using assms(1,5) by (simp add: claims_set_def)
  have "mm_find key md = mm_find key (metadata_of ctx w)" using assms(3,5) by (simp add: claims_set_def)
  with assms(4) show At: "Context_At (contexts (set_metadata ctx md w)) ctx key = Some (Inr token)"
    using Context_At_set_metadata [OF assms(1,2)] by simp
  show "Context_Contains (contexts (set_metadata ctx md w)) ctx key = Some True"
    by (rule Context_reads [OF ok assms(2), of key]) (use At in auto)
qed

context pure_token_auth
begin

lemma pre_process_run:
  assumes "stack_ok n w" and "ctx < n" and "key \<notin> set claims"
    and "Context_At (contexts w) ctx key = Some (Inr token)"
  shows "\<exists>md. TokenAuth_pre_process ta key claims ctx w =
       Some (Inr (token_verdict dec ver ext claims token), set_metadata ctx md w) \<and> mm_sorted md \<and>
     (\<forall>k. k \<notin> set claims \<longrightarrow> mm_find k md = mm_find k (metadata_of ctx w)) \<and>
     (succeeded (token_verdict dec ver ext claims token) \<longrightarrow>
        claims_set claims (ext token) (metadata_of ctx w) md \<and> (\<forall>claim\<in>set claims. ext token claim \<noteq> None)) \<and>
     claims_set claims (\<lambda>k. if fst (dec token) \<and> fst (ver token) then claim_taken (ext token) claims k (Some []) else Some [])
       (metadata_of ctx w) md"
proof -
  obtain md where md: "clear_claims claims ctx w = Some (Inr (), set_metadata ctx md w)"
    "claims_set claims (\<lambda>k. Some []) (metadata_of ctx w) md"
    using clear_claims_run [OF assms(1,2)] by blast
  let ?w = "set_metadata ctx md w"
  have ok: "stack_ok n ?w" using assms(1) md(2) by (simp add: claims_set_def)
  note reads = token_read_after_clear [OF assms md(2)]
  have step: "TokenAuth_pre_process ta key claims ctx w =
     (if \<not> fst (dec token) then ret (Status_of SC_unauthenticated (''unable to decode token: '' @ snd (snd (dec token))))
      else if \<not> fst (ver token) then ret (Status_of SC_unauthenticated (''token verification failed: '' @ snd (ver token)))
      else take_claims ta (fst (snd (dec token))) claims ctx) ?w"
  proof -
    obtain ok dt det where d: "dec token = (ok, dt, det)" by (cases "dec token") auto
    obtain verified vdet where v: "ver token = (verified, vdet)" by (cases "ver token") auto
    have verify: "ok \<Longrightarrow> verify_token ta dt = ret (verified, vdet)" using verify_pure [of token] d v by simp
    have "TokenAuth_pre_process ta key claims ctx w =
      bindC (ret (ok, dt, det)) (\<lambda>(decoded, decoded_token, decoding_details).
            if \<not> decoded then
              ret (Status_of SC_unauthenticated (''unable to decode token: '' @ decoding_details))
            else
              bindC (verify_token ta decoded_token) (\<lambda>(verified, verification_details).
                if \<not> verified then
                  ret (Status_of SC_unauthenticated (''token verification failed: '' @ verification_details))
                else take_claims ta decoded_token claims ctx)) ?w"
      using md(1) reads by (simp add: TokenAuth_pre_process_def thenC_Inr bindC_readC bindC_readC_map [where x = True] decode_pure d)
    also have "\<dots> = (if \<not> ok then ret (Status_of SC_unauthenticated (''unable to decode token: '' @ det))
      else if \<not> verified then ret (Status_of SC_unauthenticated (''token verification failed: '' @ vdet))
      else take_claims ta dt claims ctx) ?w"
      by (cases ok) (simp_all add: bindC_ret_left verify)
    finally show ?thesis by (simp add: d v)
  qed
  show ?thesis
  proof (cases "fst (dec token) \<and> fst (ver token)")
    case False
    with step md show ?thesis
      by (intro exI [of _ md]) (auto simp: token_verdict_def ret_apply claims_set_def)
  next
    case True
    have live: "contexts w ctx \<noteq> None" using stack_ok_live [OF assms(1,2)] by auto
    from take_claims_run [of token n ?w ctx claims] True ok assms(2) obtain md' where md': "mm_sorted md'"
      "take_claims ta (fst (snd (dec token))) claims ctx ?w =
       Some (Inr (case find (\<lambda>claim. ext token claim = None) claims of
               Some claim \<Rightarrow> Status_of SC_unauthenticated (''required claim not available: '' @ claim)
             | None \<Rightarrow> Status_OK), set_metadata ctx md' w)"
      "\<forall>k. mm_find k md' = claim_taken (ext token) claims k (mm_find k md)"
      using live by auto
    have "claims_set claims (\<lambda>k. claim_taken (ext token) claims k (Some [])) (metadata_of ctx w) md'"
      using md(2) md'(1,3) by (simp add: claims_set_def claim_taken_other)
    moreover have "claims_set claims (ext token) (metadata_of ctx w) md' \<and> (\<forall>claim\<in>set claims. ext token claim \<noteq> None)"
      if "find (\<lambda>claim. ext token claim = None) claims = None"
    proof
      show "claims_set claims (ext token) (metadata_of ctx w) md'"
        using md(2) md'(1,3) by (simp add: claims_set_def claim_taken_other claim_taken_all [OF that])
      show "\<forall>claim\<in>set claims. ext token claim \<noteq> None" using that by (simp add: find_None_iff)
    qed
    ultimately show ?thesis using md(2) md' True step
      by (intro exI [of _ md'])
        (auto simp: token_verdict_def claims_set_def claim_taken_other claim_taken_all split: option.splits)
  qed
qed

end

subsection \<open>The tokens of the list and their scopes\<close>

lemma BasicTokenAuth_fold:
  "all_valid_tokens (fold (\<lambda>(token, scopes) b.
      b\<lparr>all_valid_tokens := insert token (all_valid_tokens b),
        token_scopes := (token_scopes b)(token \<mapsto> to_separated_string scopes '' '')\<rparr>) ts b)
    = fst ` set ts \<union> all_valid_tokens b"
  "token_scopes (fold (\<lambda>(token, scopes) b.
      b\<lparr>all_valid_tokens := insert token (all_valid_tokens b),
        token_scopes := (token_scopes b)(token \<mapsto> to_separated_string scopes '' '')\<rparr>) ts b) token
    = (case map_of (rev ts) token of Some scopes \<Rightarrow> Some (to_separated_string scopes '' '') | None \<Rightarrow> token_scopes b token)"
  by (induction ts arbitrary: b) (auto split: option.splits simp: map_add_def)

lemma BasicTokenAuth_valid:
  "token \<in> all_valid_tokens (BasicTokenAuth_construct ps) \<longleftrightarrow>
     map_of (rev (bp_valid_tokens_with_scope ps)) token \<noteq> None"
  by (simp add: BasicTokenAuth_construct_def BasicTokenAuth_fold map_of_eq_None_iff)

lemma BasicTokenAuth_scopes:
  "map_of (rev (bp_valid_tokens_with_scope ps)) token = Some scopes \<Longrightarrow>
   basic_scopes (BasicTokenAuth_construct ps) token = to_separated_string scopes '' ''"
  by (simp add: basic_scopes_def BasicTokenAuth_construct_def BasicTokenAuth_fold)

text \<open>What the word loop of the claim checker reads is what the constructor joined.\<close>

lemma extract_words_separated:
  "list_all plain_word scopes \<Longrightarrow> extract_words (to_separated_string scopes '' '') = scopes"
proof (induction scopes rule: induct_list012)
  case (3 x y xs)
  have "c_str '' '' = '' ''" by (simp add: c_str_def)
  with 3 show ?case using extract_words_blank [of x "to_separated_string (y # xs) '' ''"] by simp
qed (simp_all add: extract_words_plain)

lemma ScopeContains_run:
  assumes "Context_At (contexts w) ctx ''scope'' = Some (Inr scopes)" and "stack_ok n w" and "ctx < n"
  shows "ClaimChecker_pre_process (ScopeContains v) ctx w =
    Some (Inr (if v \<in> set (extract_words scopes) then Status_OK else PermissionDenied), w)"
proof -
  have "Context_Contains (contexts w) ctx ''scope'' = Some True"
    by (rule Context_reads [OF assms(2,3), of "''scope''"]) (use assms(1) in auto)
  with assms(1) show ?thesis
    by (auto simp: ClaimChecker_pre_process_def ScopeContains_def ClaimInSpaceSeparatedList_def
        bindC_readC bindC_readC_map [where x = True] bindC_ret_left ret_apply list_ex_iff)
qed

text \<open>The scopes that a request has by its token, if the token is one of the list.\<close>

definition granted_scopes :: "BasicParameters \<Rightarrow> (exn + string) option \<Rightarrow> string list option" where
  "granted_scopes ps token_read =
     (case token_read of
        Some (Inr token) \<Rightarrow> map_of (rev (bp_valid_tokens_with_scope ps)) token
      | _ \<Rightarrow> None)"

definition basic_denial :: "BasicParameters \<Rightarrow> (exn + string) option \<Rightarrow> Status" where
  "basic_denial ps token_read =
     (case token_read of
        Some (Inr _) \<Rightarrow> Status_of SC_unauthenticated ''token verification failed: invalid token''
      | _ \<Rightarrow> missing_token (bp_metadata_key ps))"

abbreviation basic_pre_process :: "BasicParameters \<Rightarrow> addr \<Rightarrow> ('u world, Status) comp" where
  "basic_pre_process ps \<equiv> TokenAuth_pre_process (BasicTokenAuth_operations (BasicTokenAuth_construct ps))
     (bp_metadata_key ps) [''scope'']"

lemma basic_pre_process_run:
  assumes "stack_ok n w" and "ctx < n" and "bp_metadata_key ps \<noteq> ''scope''"
  shows "\<exists>md. basic_pre_process ps ctx w =
      Some (Inr (if granted_scopes ps (Context_At (contexts w) ctx (bp_metadata_key ps)) = None
                 then basic_denial ps (Context_At (contexts w) ctx (bp_metadata_key ps)) else Status_OK),
        set_metadata ctx md w) \<and> mm_sorted md \<and>
      (\<forall>k. k \<noteq> ''scope'' \<longrightarrow> mm_find k md = mm_find k (metadata_of ctx w)) \<and>
      mm_find ''scope'' md = Some (case granted_scopes ps (Context_At (contexts w) ctx (bp_metadata_key ps)) of
        None \<Rightarrow> [] | Some scopes \<Rightarrow> to_separated_string scopes '' '')"
proof (rule Context_reads [OF assms(1,2), of "bp_metadata_key ps"])
  assume m: "Context_At (contexts w) ctx (bp_metadata_key ps)
      = Some (Inl (OutOfRange (bp_metadata_key ps @ '' not found in context metadata'')))"
    "Context_Contains (contexts w) ctx (bp_metadata_key ps) = Some False"
  from pre_process_missing [OF assms(1,2) _ m(2), of "[''scope'']"
      "BasicTokenAuth_operations (BasicTokenAuth_construct ps)"] assms(3) m(1)
  show ?thesis by (auto simp: claims_set_def granted_scopes_def basic_denial_def)
next
  fix token
  assume m: "Context_At (contexts w) ctx (bp_metadata_key ps) = Some (Inr token)"
    "Context_Contains (contexts w) ctx (bp_metadata_key ps) = Some True"
  have key: "bp_metadata_key ps \<notin> set [''scope'']" using assms(3) by simp
  from basic_pure.pre_process_run [OF assms(1,2) key m(1), of "BasicTokenAuth_construct ps"] m(1)
  show ?thesis
    by (cases "map_of (rev (bp_valid_tokens_with_scope ps)) token")
      (auto simp: token_verdict_def BasicTokenAuth_valid claims_set_def granted_scopes_def basic_denial_def
        BasicTokenAuth_scopes)
qed

subsection \<open>Properties\<close>

lemma claim_taken_read:
  assumes "stack_ok n w" and "ctx < n" and "contexts w ctx = Some c"
    and "mm_find claim md = claim_taken found required_claims claim (Some [])"
    and "claim \<in> set required_claims"
  shows "Context_At (contexts (set_metadata ctx md w)) ctx claim =
      (if claim \<in> set (takeWhile (\<lambda>c. found c \<noteq> None) required_claims) then Some (Inr (the (found claim)))
       else if find (\<lambda>c. found c = None) required_claims = Some claim then
         (case ctx_parent c of
            None \<Rightarrow> Some (Inl (OutOfRange (claim @ '' not found in context metadata'')))
          | Some p \<Rightarrow> Context_At (contexts w) p claim)
       else Some (Inr []))"
proof -
  have live: "contexts (set_metadata ctx md w) ctx \<noteq> None" using assms(3) by simp
  have "metadata_of ctx (set_metadata ctx md w) = md" using live by simp
  note own = Context_At_own [OF live, unfolded this]
  have "mm_find claim md = None \<Longrightarrow> Context_At (contexts (set_metadata ctx md w)) ctx claim =
      (case ctx_parent c of
          None \<Rightarrow> Some (Inl (OutOfRange (claim @ '' not found in context metadata'')))
        | Some p \<Rightarrow> Context_At (contexts w) p claim)"
    by (rule Context_At_erased [OF assms(1-3)])
  then show ?thesis
    using assms(4,5) own [of claim] set_takeWhileD [of claim "\<lambda>c. found c \<noteq> None" required_claims]
    by (cases "found claim") (auto simp: claim_taken_def)
qed

text \<open>
  Claim C32: what the required claims of a request are behind the token hook. For any subclass that
  decides by the token alone, \<open>pre_process\<close> returns the verdict on the token that the context gave
  before the call, and the metadata of the request has no say in the claims of the context, in each
  case: after success every required claim reads as the value the token holds for it; after a token
  that is not accepted each reads as the empty string. After an accepted token that lacks a claim the
  claims before it read as the token says and those behind it as the empty string, but the lacking
  claim itself is erased: reading it gives whatever the parent of the context has, which may come from
  the metadata of the request; the verdict is then a refusal. All other metadata of the context and
  the state of the application stay.
\<close>

theorem claims_from_token:
  assumes "pure_token_auth ta dec ver ext" and "stack_ok n w" and "ctx < n"
    and "token_metadata_key \<notin> set required_claims"
    and "Context_At (contexts w) ctx token_metadata_key = Some (Inr token)"
    and "contexts w ctx = Some c"
  shows "\<exists>md w'. TokenAuth_pre_process ta token_metadata_key required_claims ctx w
      = Some (Inr (token_verdict dec ver ext required_claims token), w') \<and>
     w' = set_metadata ctx md w \<and> stack_ok n w' \<and>
     (\<forall>k. k \<notin> set required_claims \<longrightarrow> Context_At (contexts w') ctx k = Context_At (contexts w) ctx k) \<and>
     (succeeded (token_verdict dec ver ext required_claims token) \<longrightarrow>
        (\<forall>claim\<in>set required_claims. Context_At (contexts w') ctx claim = Some (Inr (the (ext token claim))))) \<and>
     (\<not> (fst (dec token) \<and> fst (ver token)) \<longrightarrow>
        (\<forall>claim\<in>set required_claims. Context_At (contexts w') ctx claim = Some (Inr []))) \<and>
     (fst (dec token) \<and> fst (ver token) \<longrightarrow>
        (\<forall>claim\<in>set required_claims. Context_At (contexts w') ctx claim =
          (if claim \<in> set (takeWhile (\<lambda>c. ext token c \<noteq> None) required_claims) then Some (Inr (the (ext token claim)))
           else if find (\<lambda>c. ext token c = None) required_claims = Some claim then
             (case ctx_parent c of
                None \<Rightarrow> Some (Inl (OutOfRange (claim @ '' not found in context metadata'')))
              | Some p \<Rightarrow> Context_At (contexts w) p claim)
           else Some (Inr []))))"
proof -
  from pure_token_auth.pre_process_run [OF assms(1-5)] obtain md where md:
    "TokenAuth_pre_process ta token_metadata_key required_claims ctx w
      = Some (Inr (token_verdict dec ver ext required_claims token), set_metadata ctx md w)" "mm_sorted md"
    "\<And>k. k \<notin> set required_claims \<Longrightarrow> mm_find k md = mm_find k (metadata_of ctx w)"
    "succeeded (token_verdict dec ver ext required_claims token) \<Longrightarrow>
        claims_set required_claims (ext token) (metadata_of ctx w) md \<and>
        (\<forall>claim\<in>set required_claims. ext token claim \<noteq> None)"
    "claims_set required_claims (\<lambda>k. if fst (dec token) \<and> fst (ver token)
        then claim_taken (ext token) required_claims k (Some []) else Some []) (metadata_of ctx w) md"
    by blast
  have live: "contexts (set_metadata ctx md w) ctx \<noteq> None" using assms(6) by simp
  have "metadata_of ctx (set_metadata ctx md w) = md" using live by simp
  note own = Context_At_own [OF live, unfolded this]
  have frame: "Context_At (contexts (set_metadata ctx md w)) ctx k = Context_At (contexts w) ctx k"
    if "k \<notin> set required_claims" for k
    using that by (intro Context_At_set_metadata [OF assms(2,3)] md(3))
  have accepted: "Context_At (contexts (set_metadata ctx md w)) ctx claim = Some (Inr (the (ext token claim)))"
    if "claim \<in> set required_claims" "succeeded (token_verdict dec ver ext required_claims token)" for claim
    using md(4) [OF that(2)] that(1) by (intro own) (auto simp: claims_set_def)
  have cleared: "Context_At (contexts (set_metadata ctx md w)) ctx claim = Some (Inr [])"
    if "claim \<in> set required_claims" "\<not> (fst (dec token) \<and> fst (ver token))" for claim
    using md(5) that by (intro own) (auto simp: claims_set_def)
  have lacking: "Context_At (contexts (set_metadata ctx md w)) ctx claim =
      (if claim \<in> set (takeWhile (\<lambda>c. ext token c \<noteq> None) required_claims) then Some (Inr (the (ext token claim)))
       else if find (\<lambda>c. ext token c = None) required_claims = Some claim then
         (case ctx_parent c of
            None \<Rightarrow> Some (Inl (OutOfRange (claim @ '' not found in context metadata'')))
          | Some p \<Rightarrow> Context_At (contexts w) p claim)
       else Some (Inr []))"
    if "claim \<in> set required_claims" "fst (dec token) \<and> fst (ver token)" for claim
    using md(5) that by (intro claim_taken_read [OF assms(2,3,6)]) (auto simp: claims_set_def)
  have ok: "stack_ok n (set_metadata ctx md w)" using md(2) assms(2) by simp
  show ?thesis
    by (intro exI [of _ md] exI [of _ "set_metadata ctx md w"] conjI; (rule md(1) refl ok)?)
      (use frame accepted cleared lacking in blast)+
qed

text \<open>A request whose metadata has a token and a scope of the caller's own making.\<close>

definition forged_world :: "string \<Rightarrow> (string \<times> string) world" where
  "forged_world token = (initial_world ([], []))\<lparr>contexts := initial_contexts
     (2 \<mapsto> \<lparr>ctx_metadata = [(''authorization'', token), (''scope'', ''admin'')], ctx_parent = Some ThreadLocalContext\<rparr>),
     stack_top := 3\<rparr>"

lemma forged_world_ok [simp]: "stack_ok 3 (forged_world token)"
  unfolding stack_ok_def forged_world_def
  by (auto simp: initial_contexts_def GlobalContext_def ThreadLocalContext_def mm_sorted_def split: if_splits)

lemma forged_world_app [simp]: "app (forged_world token) = ([], [])"
  by (simp add: forged_world_def)

lemma forged_world_token: "Context_At (contexts (forged_world token)) 2 ''authorization'' = Some (Inr token)"
  by (simp add: Context_At.simps [of _ 2] forged_world_def)

definition demo_tokens :: BasicParameters where
  "demo_tokens = \<lparr>bp_metadata_key = ''authorization'',
     bp_valid_tokens_with_scope = [(''ro'', [''read'']), (''rw'', [''read'', ''write''])]\<rparr>"

lemma demo_tokens_sel [simp]:
  "bp_metadata_key demo_tokens = ''authorization''"
  "bp_valid_tokens_with_scope demo_tokens = [(''ro'', [''read'']), (''rw'', [''read'', ''write''])]"
  by (simp_all add: demo_tokens_def)

text \<open>An accepted token that has all claims, and one that lacks a claim which the caller forged.\<close>

theorem claims_from_token_witness:
  "(\<exists>w'. basic_pre_process demo_tokens 2 (forged_world ''rw'') = Some (Inr Status_OK, w') \<and>
     Context_At (contexts w') 2 ''scope'' = Some (Inr ''read write'')) \<and>
   (\<exists>w'. TokenAuth_pre_process (BasicTokenAuth_operations (BasicTokenAuth_construct demo_tokens)) ''authorization'' [''scope'', ''role''] 2
        (set_metadata ThreadLocalContext [(''role'', ''admin'')] (forged_world ''rw''))
      = Some (Inr (Status_of SC_unauthenticated ''required claim not available: role''), w') \<and>
     Context_At (contexts w') 2 ''scope'' = Some (Inr ''read write'') \<and>
     Context_At (contexts w') 2 ''role'' = Some (Inr ''admin''))"
proof
  let ?b = "BasicTokenAuth_construct demo_tokens"
  have valid: "''rw'' \<in> all_valid_tokens ?b" by (simp add: BasicTokenAuth_valid)
  have "basic_scopes ?b ''rw'' = to_separated_string [''read'', ''write''] '' ''"
    by (rule BasicTokenAuth_scopes) simp
  then have scopes: "basic_scopes ?b ''rw'' = ''read write''" by (simp add: c_str_def)
  note claims = claims_from_token [OF basic_pure.pure_token_auth_axioms [of ?b]]
  have live: "contexts (forged_world ''rw'') 2
      = Some \<lparr>ctx_metadata = [(''authorization'', ''rw''), (''scope'', ''admin'')], ctx_parent = Some ThreadLocalContext\<rparr>"
    by (simp add: forged_world_def)
  from claims [OF forged_world_ok [of "''rw''"] _ _ forged_world_token [of "''rw''"] live, of "[''scope'']"]
  show "\<exists>w'. basic_pre_process demo_tokens 2 (forged_world ''rw'') = Some (Inr Status_OK, w') \<and>
     Context_At (contexts w') 2 ''scope'' = Some (Inr ''read write'')"
    by (auto simp: token_verdict_def valid scopes)
  let ?w = "set_metadata ThreadLocalContext [(''role'', ''admin'')] (forged_world ''rw'')"
  have w: "stack_ok 3 ?w" "contexts ?w 2 = contexts (forged_world ''rw'') 2"
    "contexts ?w ThreadLocalContext = Some \<lparr>ctx_metadata = [(''role'', ''admin'')], ctx_parent = Some GlobalContext\<rparr>"
    by (simp_all add: mm_sorted_def)
      (simp_all add: set_metadata_def forged_world_def initial_contexts_def ThreadLocalContext_def GlobalContext_def)
  have "Context_At (contexts ?w) 2 ''authorization'' = Some (Inr ''rw'')"
    by (simp add: Context_At.simps [of _ 2] w(2) live)
  from claims [OF w(1) _ _ this, of "[''scope'', ''role'']", unfolded w(2), OF _ _ live]
  show "\<exists>w'. TokenAuth_pre_process (BasicTokenAuth_operations ?b) ''authorization'' [''scope'', ''role''] 2 ?w
      = Some (Inr (Status_of SC_unauthenticated ''required claim not available: role''), w') \<and>
     Context_At (contexts w') 2 ''scope'' = Some (Inr ''read write'') \<and>
     Context_At (contexts w') 2 ''role'' = Some (Inr ''admin'')"
    by (auto simp: token_verdict_def valid scopes w(3) Context_At.simps [of _ ThreadLocalContext])
qed

abbreviation authenticated :: "nat \<Rightarrow> addr \<Rightarrow> 'u \<times> int \<Rightarrow> string list \<Rightarrow> 'u world \<Rightarrow> bool" where
  "authenticated n ctx u scopes w \<equiv> stack_ok n w \<and> app_clock w = u \<and>
     Context_At (contexts w) ctx ''scope'' = Some (Inr (to_separated_string scopes '' ''))"

abbreviation token_given :: "nat \<Rightarrow> addr \<Rightarrow> 'u \<times> int \<Rightarrow> BasicParameters \<Rightarrow> (exn + string) option \<Rightarrow> 'u world \<Rightarrow> bool" where
  "token_given n ctx u ps token w \<equiv>
     stack_ok n w \<and> app_clock w = u \<and> Context_At (contexts w) ctx (bp_metadata_key ps) = token"

lemma hoare_basic_denies:
  assumes "ctx < n" and "bp_metadata_key ps \<noteq> ''scope''" and "granted_scopes ps token = None"
  shows "hoare (token_given n ctx u ps token) (RequestHook_Process name (basic_pre_process ps) post func ctx)
    (\<lambda>r w. r = Inr (basic_denial ps token) \<and> stack_ok n w \<and> app_clock w = u)"
proof (rule hoare_refuse [where n = n])
  show "hoare (token_given n ctx u ps token) (basic_pre_process ps ctx)
      (\<lambda>r w. r = Inr (basic_denial ps token) \<and> stack_ok n w \<and> app_clock w = u)"
  proof (rule hoareI)
    fix w assume "token_given n ctx u ps token w"
    with basic_pre_process_run [of n w ctx ps] assms
    show "\<exists>r w'. basic_pre_process ps ctx w = Some (r, w') \<and> r = Inr (basic_denial ps token) \<and> stack_ok n w' \<and> app_clock w' = u"
      by auto
  qed
  show "\<not> succeeded (basic_denial ps token)" "code (basic_denial ps token) \<noteq> SC_invalid"
    by (simp_all add: basic_denial_def missing_token_def succeeded_def split: option.split sum.split)
qed (simp_all add: log_stable_def)

lemma hoare_basic_admits:
  assumes "ctx < n" and "bp_metadata_key ps \<noteq> ''scope''" and "granted_scopes ps token = Some scopes"
  shows "hoare (token_given n ctx u ps token) (basic_pre_process ps ctx)
    (\<lambda>r w. (\<exists>s. r = Inr s \<and> succeeded s) \<and> authenticated n ctx u scopes w)"
proof (rule hoareI)
  fix w assume w: "token_given n ctx u ps token w"
  obtain md where md: "basic_pre_process ps ctx w = Some (Inr Status_OK, set_metadata ctx md w)" "mm_sorted md"
    "mm_find ''scope'' md = Some (to_separated_string scopes '' '')"
    using basic_pre_process_run [of n w ctx ps] w assms by auto
  have live: "contexts (set_metadata ctx md w) ctx \<noteq> None" using stack_ok_live [of n w ctx] w assms(1) by auto
  then have "Context_At (contexts (set_metadata ctx md w)) ctx ''scope'' = Some (Inr (to_separated_string scopes '' ''))"
    by (rule Context_At_own) (use live md(3) in simp)
  with md w show "\<exists>r w'. basic_pre_process ps ctx w = Some (r, w') \<and> (\<exists>s. r = Inr s \<and> succeeded s)
      \<and> authenticated n ctx u scopes w'" by auto
qed

lemma granted_scopes_words:
  assumes "list_all (\<lambda>(token, scopes). list_all plain_word scopes) (bp_valid_tokens_with_scope ps)"
    and "granted_scopes ps token = Some scopes"
  shows "extract_words (to_separated_string scopes '' '') = scopes"
proof (rule extract_words_separated)
  obtain token' where "map_of (rev (bp_valid_tokens_with_scope ps)) token' = Some scopes"
    using assms(2) by (auto simp: granted_scopes_def split: option.splits sum.splits)
  from map_of_SomeD [OF this] have "(token', scopes) \<in> set (bp_valid_tokens_with_scope ps)" by simp
  with assms(1) show "list_all plain_word scopes" unfolding list_all_iff by fast
qed

lemma hoare_scope_check:
  assumes "ctx < n"
    and func: "hoare (\<lambda>w. stack_ok n w \<and> app_clock w = u) (func ctx) (\<lambda>r w. stack_ok n w \<and> R r (app_clock w))"
    and valid: "\<And>s u'. R (Inr s) u' \<Longrightarrow> code s \<noteq> SC_invalid"
    and words: "extract_words (to_separated_string scopes '' '') = scopes"
  shows "hoare (authenticated n ctx u scopes)
    (RequestHook_Process name (ClaimChecker_pre_process (ScopeContains v)) default_post_process func ctx)
    (\<lambda>r w. stack_ok n w \<and> (if v \<in> set scopes then R r (app_clock w) else r = Inr PermissionDenied \<and> app_clock w = u))"
proof -
  have J: "log_stable n (authenticated n ctx u scopes)" by (simp add: log_stable_def)
  have checked: "ClaimChecker_pre_process (ScopeContains v) ctx w =
      Some (Inr (if v \<in> set scopes then Status_OK else PermissionDenied), w)" if "authenticated n ctx u scopes w" for w
    using ScopeContains_run [of w ctx "to_separated_string scopes '' ''" n v] that assms(1) words by simp
  show ?thesis
  proof (cases "v \<in> set scopes")
    case True
    have "hoare (authenticated n ctx u scopes)
        (RequestHook_Process name (ClaimChecker_pre_process (ScopeContains v)) default_post_process func ctx)
        (\<lambda>r w. stack_ok n w \<and> R r (app_clock w))"
      by (rule hoare_pass_result [where n = n and inside = "\<lambda>w. stack_ok n w \<and> app_clock w = u"], rule J)
        (use checked True in \<open>auto simp: log_stable_def func hoare_def [of "authenticated n ctx u scopes"] dest: valid\<close>)
    then show ?thesis by (rule hoare_weaken) (simp add: True)
  next
    case False
    have "hoare (authenticated n ctx u scopes)
        (RequestHook_Process name (ClaimChecker_pre_process (ScopeContains v)) default_post_process func ctx)
        (\<lambda>r w. r = Inr PermissionDenied \<and> authenticated n ctx u scopes w)"
      by (rule hoare_refuse [OF J J])
        (use checked False in \<open>simp_all add: hoare_def PermissionDenied_def succeeded_def\<close>)
    then show ?thesis by (rule hoare_weaken) (simp add: False)
  qed
qed

text \<open>The two outcomes of the hook for tokens, over any function behind it.\<close>

lemma hoare_basic_guard:
  assumes "ctx < n" and "bp_metadata_key ps \<noteq> ''scope''"
    and inner: "\<And>scopes. granted_scopes ps token = Some scopes \<Longrightarrow>
      hoare (authenticated n ctx u scopes) (func ctx) (\<lambda>r w. stack_ok n w \<and> R scopes r (app_clock w))"
    and valid: "\<And>scopes s u'. granted_scopes ps token = Some scopes \<Longrightarrow> R scopes (Inr s) u' \<Longrightarrow> code s \<noteq> SC_invalid"
  shows "hoare (token_given n ctx u ps token) (RequestHook_Process name (basic_pre_process ps) default_post_process func ctx)
    (\<lambda>r w. stack_ok n w \<and> (case granted_scopes ps token of
         None \<Rightarrow> r = Inr (basic_denial ps token) \<and> app_clock w = u | Some scopes \<Rightarrow> R scopes r (app_clock w)))"
proof (cases "granted_scopes ps token")
  case None
  show ?thesis by (rule hoare_weaken, rule hoare_basic_denies [OF assms(1,2) None]) (simp add: None)
next
  case (Some scopes)
  have "hoare (token_given n ctx u ps token) (RequestHook_Process name (basic_pre_process ps) default_post_process func ctx)
      (\<lambda>r w. stack_ok n w \<and> R scopes r (app_clock w))"
    by (rule hoare_pass_result [where n = n and inside = "authenticated n ctx u scopes"], simp add: log_stable_def,
        simp add: log_stable_def, simp add: log_stable_def, rule hoare_basic_admits [OF assms(1,2) Some],
        rule inner [OF Some]) (auto dest: valid [OF Some])
  then show ?thesis by (simp add: Some)
qed

text \<open>
  Claim C33: who may run a request. Behind the hooks for the list of tokens and for a required
  scope, in this order, a request runs exactly when the token that its context gives is in the
  list and has the scope; its answer is then returned as it is. Otherwise the function is not
  run, the state of the application stays as it was, and the caller is told that the token is
  missing or invalid (\<open>UNAUTHENTICATED\<close>) or that the scope is not his (\<open>PERMISSION_DENIED\<close>).
  A scope that the caller put into the metadata of the request has no effect. With every logger.
\<close>

theorem scope_guards_request:
  assumes "ctx < n" and "bp_metadata_key ps \<noteq> ''scope''" and "code answer \<noteq> SC_invalid"
    and "hoare (stack_ok n) (func ctx) (\<lambda>r w. r = Inr answer \<and> stack_ok n w)"
    and "list_all (\<lambda>(token, scopes). list_all plain_word scopes) (bp_valid_tokens_with_scope ps)"
  shows "hoare (\<lambda>w. stack_ok n w \<and> app w = u \<and> Context_At (contexts w) ctx (bp_metadata_key ps) = token)
    (hook_Process (SetRequestType RT_incoming (BasicTokenAuthRequestHook ps))
      (hook_Process (SetRequestType RT_incoming (ClaimCheckerRequestHook (ScopeContains v))) func) ctx)
    (\<lambda>r w. stack_ok n w \<and>
      (case granted_scopes ps token of
         None \<Rightarrow> r = Inr (basic_denial ps token) \<and> app w = u
       | Some scopes \<Rightarrow> if v \<in> set scopes then r = Inr answer else r = Inr PermissionDenied \<and> app w = u))"
proof -
  let ?inner = "RequestHook_Process ''claim checker'' (ClaimChecker_pre_process (ScopeContains v)) default_post_process func"
  let ?outer = "RequestHook_Process ''basic token authentication'' (basic_pre_process ps) default_post_process ?inner ctx"
  have hooks: "hook_Process (SetRequestType RT_incoming (BasicTokenAuthRequestHook ps))
      (hook_Process (SetRequestType RT_incoming (ClaimCheckerRequestHook (ScopeContains v))) func) ctx = ?outer"
    by (simp add: BasicTokenAuthRequestHook_def TokenAuthRequestHook_def ClaimCheckerRequestHook_def)
  let ?R = "\<lambda>x scopes r y. if v \<in> set scopes then r = Inr answer else r = Inr PermissionDenied \<and> y = x"
  have "hoare (token_given n ctx x ps token) ?outer (\<lambda>r w. stack_ok n w \<and>
      (case granted_scopes ps token of
         None \<Rightarrow> r = Inr (basic_denial ps token) \<and> app_clock w = x | Some scopes \<Rightarrow> ?R x scopes r (app_clock w)))" for x
  proof (rule hoare_basic_guard [OF assms(1,2)])
    fix scopes assume granted: "granted_scopes ps token = Some scopes"
    show "hoare (authenticated n ctx x scopes) (?inner ctx) (\<lambda>r w. stack_ok n w \<and> ?R x scopes r (app_clock w))"
      by (rule hoare_scope_check [where R = "\<lambda>r y. r = Inr answer"], rule assms(1))
        (use assms(3,4) granted_scopes_words [OF assms(5) granted] in \<open>auto simp: hoare_def\<close>)
    show "code s \<noteq> SC_invalid" if "?R x scopes (Inr s) y" for s y
      using that assms(3) by (auto simp: PermissionDenied_def split: if_splits)
  qed
  then show ?thesis
    unfolding hooks hoare_def app_clock_def by (fastforce split: option.splits if_splits)
qed

theorem scope_guards_request_witness:
  "\<exists>w'. hook_Process (SetRequestType RT_incoming (BasicTokenAuthRequestHook demo_tokens))
      (hook_Process (SetRequestType RT_incoming (ClaimCheckerRequestHook (ScopeContains ''write'')))
        (\<lambda>ctx. thenC (modifyC (\<lambda>w. w\<lparr>app := (''changed'', [])\<rparr>)) (ret Status_OK))) 2 (forged_world ''ro'')
    = Some (Inr PermissionDenied, w') \<and> app w' = ([], [])"
proof -
  let ?func = "\<lambda>ctx :: addr. thenC (modifyC (\<lambda>w. w\<lparr>app := (''changed'', [])\<rparr>)) (ret Status_OK)"
  have "hoare (stack_ok 3) (?func 2) (\<lambda>r w. r = Inr Status_OK \<and> stack_ok 3 w)"
    by (simp add: hoare_def thenC_def bindC_def modifyC_def ret_def)
  from scope_guards_request [of 2 3 demo_tokens Status_OK ?func, OF _ _ _ this,
      where u = "([], [])" and v = "''write''" and token = "Some (Inr ''ro'')"]
  have "hoare (\<lambda>w. stack_ok 3 w \<and> app w = ([], []) \<and> Context_At (contexts w) 2 ''authorization'' = Some (Inr ''ro''))
    (hook_Process (SetRequestType RT_incoming (BasicTokenAuthRequestHook demo_tokens))
      (hook_Process (SetRequestType RT_incoming (ClaimCheckerRequestHook (ScopeContains ''write''))) ?func) 2)
    (\<lambda>r w. stack_ok 3 w \<and> r = Inr PermissionDenied \<and> app w = ([], []))"
    by (simp add: granted_scopes_def plain_word_def is_space_def)
  from this [unfolded hoare_def, rule_format, of "forged_world ''ro''"] forged_world_token [of "''ro''"]
  show ?thesis by auto
qed

text \<open>A function that notes the scope it reads from its context and from the thread local context.\<close>

definition note_scopes :: "(string \<times> string) func" where
  "note_scopes ctx =
     bindC (readC (\<lambda>w. Context_At (contexts w) ctx ''scope'')) (\<lambda>own.
     bindC (readC (\<lambda>w. Context_At (contexts w) ThreadLocalContext ''scope'')) (\<lambda>thread_local.
     thenC (modifyC (\<lambda>w. w\<lparr>app := (own, thread_local)\<rparr>)) (ret Status_OK)))"

lemma hoare_basic_keeps_thread_local:
  assumes "ctx < n" and "ThreadLocalContext < ctx" and "bp_metadata_key ps \<noteq> ''scope''"
    and "Context_At h ctx (bp_metadata_key ps) = token" and "granted_scopes ps token = Some scopes"
    and "Context_At h ThreadLocalContext ''scope'' = Some (Inr forged)"
  shows "hoare (\<lambda>w. stack_ok n w \<and> contexts w = h) (basic_pre_process ps ctx)
    (\<lambda>r w. (\<exists>s. r = Inr s \<and> succeeded s) \<and> stack_ok n w \<and>
       Context_At (contexts w) ctx ''scope'' = Some (Inr (to_separated_string scopes '' '')) \<and>
       Context_At (contexts w) ThreadLocalContext ''scope'' = Some (Inr forged))"
proof (rule hoareI)
  fix w assume w: "stack_ok n w \<and> contexts w = h"
  then have ok: "stack_ok n w" and h: "contexts w = h" by simp_all
  obtain md where md: "basic_pre_process ps ctx w = Some (Inr Status_OK, set_metadata ctx md w)" "mm_sorted md"
    "mm_find ''scope'' md = Some (to_separated_string scopes '' '')"
    using basic_pre_process_run [OF ok assms(1,3)] assms(4,5) h by auto
  have live: "contexts (set_metadata ctx md w) ctx \<noteq> None" using stack_ok_live [OF ok assms(1)] by auto
  have "Context_At (contexts (set_metadata ctx md w)) ctx ''scope'' = Some (Inr (to_separated_string scopes '' ''))"
    by (rule Context_At_own [OF live]) (use live md(3) in simp)
  moreover have "Context_At (contexts (set_metadata ctx md w)) ThreadLocalContext ''scope'' = Some (Inr forged)"
    using Context_At_below [OF ok assms(1,2)] assms(6) h by simp
  ultimately show "\<exists>r w'. basic_pre_process ps ctx w = Some (r, w') \<and> (\<exists>s. r = Inr s \<and> succeeded s) \<and> stack_ok n w' \<and>
       Context_At (contexts w') ctx ''scope'' = Some (Inr (to_separated_string scopes '' '')) \<and>
       Context_At (contexts w') ThreadLocalContext ''scope'' = Some (Inr forged)"
    using md(1,2) ok by auto
qed

text \<open>
  Claim C34: the forged claim survives in the thread local context. \<open>RequestHandler::Process\<close>
  copies the metadata of the request into the thread local context before any hook runs, and the
  authentication replaces the claim in the request's own context only. Code that reads the
  scope there, as outgoing requests with a default context do, gets what the caller wrote.
\<close>

theorem forged_claim_in_thread_local:
  assumes "stack_ok n w" and "contexts w (pr_context p) = Some \<lparr>ctx_metadata = md, ctx_parent = Some ThreadLocalContext\<rparr>"
    and "contexts w ThreadLocalContext = Some \<lparr>ctx_metadata = old, ctx_parent = Some GlobalContext\<rparr>"
    and "pr_hooks p = [SetRequestType RT_incoming (BasicTokenAuthRequestHook ps)]"
    and "bp_metadata_key ps \<noteq> ''scope''" and "bp_metadata_key ps \<noteq> ''request''"
    and "mm_find (bp_metadata_key ps) md = Some token" and "granted_scopes ps (Some (Inr token)) = Some scopes"
    and "mm_find ''scope'' md = Some forged"
  shows "\<exists>w'. RequestHandler_Process p note_scopes w = Some (Inr Status_OK, w') \<and>
     app w' = (to_separated_string scopes '' '', forged)"
proof -
  let ?w = "w\<lparr>contexts := (contexts w)(ThreadLocalContext \<mapsto> \<lparr>ctx_metadata = md, ctx_parent = Some GlobalContext\<rparr>)\<rparr>"
  let ?rq = "mm_of_list [(''request'', pr_name p)]"
  let ?w1 = "push_context ?rq (Some (pr_context p)) ?w"
  let ?hook = "RequestHook_Process ''basic token authentication'' (basic_pre_process ps) default_post_process note_scopes n"
  have n: "pr_context p < n" using assms(1,2) stack_ok_dom by blast
  have E: "RequestHandler_Process p note_scopes w = RequestProcessor_Process p note_scopes ?w" and ok: "stack_ok n ?w"
    using handler_enters [OF assms(1,2) _ assms(3)] by simp_all
  have ok1: "stack_ok (Suc n) ?w1" by (rule stack_ok_push [OF ok]) (use n in simp_all)
  have top: "stack_top ?w = n" by (rule stack_ok_top [OF ok])
  have lt: "ThreadLocalContext < n" by (rule stack_ok_ThreadLocal [OF ok])
  have tl: "ThreadLocalContext < pr_context p"
    using assms(1,2) unfolding stack_ok_def by fastforce
  have run: "RequestHandler_Process p note_scopes w =
      (case ?hook ?w1 of None \<Rightarrow> None | Some (r, w') \<Rightarrow> Some (r, pop_context n w'))"
    unfolding E RequestProcessor_Process_def Let_def assms(4)
      with_context_run [OF stack_ok_world [OF ok] stack_ok_parent [OF ok n]] top
    by (simp add: BasicTokenAuthRequestHook_def TokenAuthRequestHook_def)
  let ?I = "\<lambda>w'. stack_ok (Suc n) w' \<and> contexts w' = contexts ?w1"
  let ?J = "\<lambda>w'. stack_ok (Suc n) w' \<and>
    Context_At (contexts w') n ''scope'' = Some (Inr (to_separated_string scopes '' '')) \<and>
    Context_At (contexts w') ThreadLocalContext ''scope'' = Some (Inr forged)"
  let ?K = "\<lambda>w'. stack_ok (Suc n) w' \<and> app w' = (to_separated_string scopes '' '', forged)"
  have token: "Context_At (contexts ?w1) n (bp_metadata_key ps) = Some (Inr token)"
    using assms(2,6,7) top n tl
    by (simp add: Context_At.simps [of _ n] Context_At.simps [of _ "pr_context p"] push_context_def mm_of_list_def)
  have forged: "Context_At (contexts ?w1) ThreadLocalContext ''scope'' = Some (Inr forged)"
    using assms(9) top lt by (simp add: Context_At.simps [of _ ThreadLocalContext] push_context_def)
  note pre = hoare_basic_keeps_thread_local [OF lessI lt assms(5) token assms(8) forged]
  have func: "hoare ?J (note_scopes n) (\<lambda>r w. r = Inr Status_OK \<and> ?K w)"
    by (simp add: hoare_def note_scopes_def bindC_readC comp_simps)
  have "hoare ?I ?hook (\<lambda>r w. r = Inr Status_OK \<and> ?K w)"
    by (rule hoare_pass_answer [where n = "Suc n" and inside = ?J])
      (simp_all add: log_stable_def pre func)
  then obtain w2 where "?hook ?w1 = Some (Inr Status_OK, w2)" "?K w2"
    using ok1 by (auto simp: hoare_def)
  then show ?thesis unfolding run by (auto simp: pop_context_def)
qed

theorem forged_claim_in_thread_local_witness:
  "\<exists>w'. RequestHandler_Process \<lparr>pr_hooks = [SetRequestType RT_incoming (BasicTokenAuthRequestHook demo_tokens)],
       pr_name = ''updateStatus'', pr_type = RT_incoming, pr_context = 2\<rparr> note_scopes (forged_world ''ro'')
     = Some (Inr Status_OK, w') \<and> app w' = (''read'', ''admin'')"
  using forged_claim_in_thread_local [OF forged_world_ok [of "''ro''"], of
      "\<lparr>pr_hooks = [SetRequestType RT_incoming (BasicTokenAuthRequestHook demo_tokens)],
       pr_name = ''updateStatus'', pr_type = RT_incoming, pr_context = 2\<rparr>"
      "[(''authorization'', ''ro''), (''scope'', ''admin'')]" "[]" demo_tokens "''ro''" "[''read'']" "''admin''"]
  by (simp add: forged_world_def initial_contexts_def granted_scopes_def GlobalContext_def ThreadLocalContext_def)

end
