(* ===== verification/Mse_Logging_Hook.thy ===== *)
theory Mse_Logging_Hook
  imports Mse_Exception_Handling
begin

text \<open>
  \<open>observability/logging-request-hook\<close>: the hook that logs the name of a request before it and
  the name and the status behind it. Its \<open>post_process\<close> prints the status code it gets, also the
  placeholder \<open>invalid\<close> that \<open>RequestHook::Process\<close> passes when the request threw.
\<close>

record LoggingParameters =
  loglevel_success :: LogLevel
  loglevel_failure :: LogLevel

definition Logging_Parameters :: LoggingParameters where
  "Logging_Parameters = \<lparr>loglevel_success = LL_trace, loglevel_failure = LL_trace\<rparr>"

fun get_request_verb_pre :: "RequestType \<Rightarrow> string" where
  "get_request_verb_pre RT_incoming = ''handling''"
| "get_request_verb_pre RT_outgoing = ''issuing''"
| "get_request_verb_pre RT_invalid = ''processing''"

fun get_request_verb_post :: "RequestType \<Rightarrow> string" where
  "get_request_verb_post RT_incoming = ''handled''"
| "get_request_verb_post RT_outgoing = ''issued''"
| "get_request_verb_post RT_invalid = ''processed''"

definition Logging_pre_process :: "LoggingParameters \<Rightarrow> RequestType \<Rightarrow> addr \<Rightarrow> ('u world, Status) comp" where
  "Logging_pre_process ps t ctx =
     bindC LogProvider_GetLogger (\<lambda>lg.
     bindC (readC (\<lambda>w. map_option Inr (Context_AtOr (contexts w) ctx ''request'' ''unknown''))) (\<lambda>request.
     thenC (Logger_Write lg ctx (loglevel_success ps) (get_request_verb_pre t @ '' request '' @ request))
           (ret Status_OK)))"

definition Logging_post_process ::
    "LoggingParameters \<Rightarrow> RequestType \<Rightarrow> addr \<Rightarrow> Status \<Rightarrow> ('u world, Status) comp" where
  "Logging_post_process ps t ctx status =
     bindC LogProvider_GetLogger (\<lambda>lg.
     bindC (readC (\<lambda>w. map_option Inr (Context_AtOr (contexts w) ctx ''request'' ''unknown''))) (\<lambda>request.
     bindC (liftE (StatusCode_to_string (code status))) (\<lambda>c.
     thenC (Logger_Write lg ctx (if succeeded status then loglevel_success ps else loglevel_failure ps)
              (''request '' @ request @ '' '' @ get_request_verb_post t @ '' with status '' @ c @
               (if details status = [] then [] else '' ('' @ details status @ '')'')))
           (ret status))))"

definition LoggingRequestHook :: "LoggingParameters \<Rightarrow> 'u hook" where
  "LoggingRequestHook ps = protocol_hook ''logging'' (Logging_pre_process ps) (Logging_post_process ps)"

subsection \<open>What the log statements of the hook do\<close>

lemma provided_Write_run:
  assumes "stack_ok n w" and "ctx < n" and "level \<noteq> LL_invalid"
  obtains out where "bindC LogProvider_GetLogger (\<lambda>lg. Logger_Write lg ctx level message) w
      = Some (Inr (), w\<lparr>console := console w @ out\<rparr>)" "length out \<le> 1"
proof -
  have lg: "Logger_ok (provided_logger w)"
    using assms(1) by (auto simp: stack_ok_def split: option.splits)
  from Logger_Write_run [OF stack_ok_world [OF assms(1)] stack_ok_live [OF assms(1,2)] lg assms(3), of message]
  obtain out where "length out \<le> 1"
    "Logger_Write (provided_logger w) ctx level message w = Some (Inr (), w\<lparr>console := console w @ out\<rparr>)" by blast
  with that show ?thesis by (simp add: LogProvider_GetLogger_def bindC_def getC_def)
qed

lemma AtOr_defined:
  assumes "stack_ok n w" and "ctx < n"
  obtains v where "Context_AtOr (contexts w) ctx k d = Some v"
  using store_ok_reads [OF stack_ok_store [OF assms(1)] stack_ok_live [OF assms], of k d] by blast

lemma Logging_pre_run:
  assumes "stack_ok n w" and "ctx < n" and "loglevel_success ps \<noteq> LL_invalid"
  obtains out where "Logging_pre_process ps t ctx w = Some (Inr Status_OK, w\<lparr>console := console w @ out\<rparr>)"
    "length out \<le> 1"
proof -
  obtain request where r: "Context_AtOr (contexts w) ctx ''request'' ''unknown'' = Some request"
    by (rule AtOr_defined [OF assms(1,2)])
  obtain out where "bindC LogProvider_GetLogger (\<lambda>lg. Logger_Write lg ctx (loglevel_success ps)
      (get_request_verb_pre t @ '' request '' @ request)) w = Some (Inr (), w\<lparr>console := console w @ out\<rparr>)"
    "length out \<le> 1" by (rule provided_Write_run [OF assms])
  with that r show ?thesis
    by (simp add: Logging_pre_process_def LogProvider_GetLogger_def bindC_Inr getC_apply bindC_readC_map
        thenC_Inr ret_apply)
qed

lemma Logging_post_run:
  assumes "stack_ok n w" and "ctx < n" and "loglevel_success ps \<noteq> LL_invalid" and "loglevel_failure ps \<noteq> LL_invalid"
    and "code status \<noteq> SC_invalid"
  obtains out where "Logging_post_process ps t ctx status w = Some (Inr status, w\<lparr>console := console w @ out\<rparr>)"
    "length out \<le> 1"
proof -
  obtain request where r: "Context_AtOr (contexts w) ctx ''request'' ''unknown'' = Some request"
    by (rule AtOr_defined [OF assms(1,2)])
  obtain c where c: "StatusCode_to_string (code status) = Inr c" using StatusCode_to_string_valid [OF assms(5)] ..
  let ?l = "if succeeded status then loglevel_success ps else loglevel_failure ps"
  let ?m = "''request '' @ request @ '' '' @ get_request_verb_post t @ '' with status '' @ c @
               (if details status = [] then [] else '' ('' @ details status @ '')'')"
  have "?l \<noteq> LL_invalid" using assms(3,4) by simp
  then obtain out where "bindC LogProvider_GetLogger (\<lambda>lg. Logger_Write lg ctx ?l ?m) w
      = Some (Inr (), w\<lparr>console := console w @ out\<rparr>)" "length out \<le> 1"
    by (rule provided_Write_run [OF assms(1,2)])
  with that r c show ?thesis
    by (simp add: Logging_post_process_def LogProvider_GetLogger_def bindC_Inr getC_apply bindC_readC_map
        thenC_Inr ret_apply liftE_apply)
qed

text \<open>The placeholder makes it throw, before it writes anything.\<close>

lemma Logging_post_invalid:
  assumes "stack_ok n w" and "ctx < n" and "code status = SC_invalid"
  shows "Logging_post_process ps t ctx status w = Some (Inl invalid_status_exn, w)"
proof -
  obtain request where r: "Context_AtOr (contexts w) ctx ''request'' ''unknown'' = Some request"
    by (rule AtOr_defined [OF assms(1,2)])
  with assms(3) show ?thesis
    by (simp add: Logging_post_process_def LogProvider_GetLogger_def bindC_Inr getC_apply bindC_readC_map
        liftE_apply bindC_Inl invalid_status_exn_def)
qed

lemma Logging_stack_hook:
  assumes "loglevel_success ps \<noteq> LL_invalid" and "loglevel_failure ps \<noteq> LL_invalid"
  shows "stack_hook (LoggingRequestHook ps)"
  unfolding LoggingRequestHook_def
proof (rule protocol_stack_hook; rule keepsI)
  fix n t ctx r and w w' :: "'a world"
  assume a: "ctx < n" "stack_ok n w"
  show "stack_ok n w'" if run: "Logging_pre_process ps t ctx w = Some (r, w')"
    by (rule Logging_pre_run [OF a(2,1) assms(1), of t]) (use run a(2) in auto)
  show "stack_ok n w'" if run: "Logging_post_process ps t ctx s w = Some (r, w')" for s
  proof (cases "code s = SC_invalid")
    case True
    from Logging_post_invalid [OF a(2,1) True, of ps t] run a(2) show ?thesis by simp
  next
    case False
    show ?thesis by (rule Logging_post_run [OF a(2,1) assms False, of t]) (use run a(2) in auto)
  qed
qed

interpretation logging: stack_hook "LoggingRequestHook Logging_Parameters"
  by (rule Logging_stack_hook) (simp_all add: Logging_Parameters_def)

text \<open>
  The hook as a rule: a status of the request is the hook's status; an exception of the request
  becomes that of printing the placeholder.
\<close>

lemma hoare_Logging_pre:
  assumes "ctx < n" and "loglevel_success ps \<noteq> LL_invalid" and "log_stable n P"
  shows "hoare P (Logging_pre_process ps t ctx) (\<lambda>r w. (\<exists>s. r = Inr s \<and> succeeded s) \<and> P w)"
proof (rule hoareI)
  fix w assume w: "P w"
  have ok: "stack_ok n w" using w assms(3) by (simp add: log_stable_def)
  show "\<exists>r w'. Logging_pre_process ps t ctx w = Some (r, w') \<and> (\<exists>s. r = Inr s \<and> succeeded s) \<and> P w'"
    by (rule Logging_pre_run [OF ok assms(1,2), of t]) (use w assms(3) in \<open>auto simp: log_stable_def\<close>)
qed

lemma hoare_Logging_post:
  assumes "ctx < n" and "loglevel_success ps \<noteq> LL_invalid" and "loglevel_failure ps \<noteq> LL_invalid"
    and "log_stable n P" and "code s \<noteq> SC_invalid"
  shows "hoare P (Logging_post_process ps t ctx s) (\<lambda>r w. r = Inr s \<and> P w)"
proof (rule hoareI)
  fix w assume w: "P w"
  have ok: "stack_ok n w" using w assms(4) by (simp add: log_stable_def)
  show "\<exists>r w'. Logging_post_process ps t ctx s w = Some (r, w') \<and> r = Inr s \<and> P w'"
    by (rule Logging_post_run [OF ok assms(1-3,5), of t]) (use w assms(4) in \<open>auto simp: log_stable_def\<close>)
qed

lemma hoare_logging:
  assumes "ctx < n" and "loglevel_success ps \<noteq> LL_invalid"
    and failure: "\<And>s w. Q (Inr s) w \<Longrightarrow> loglevel_failure ps \<noteq> LL_invalid"
    and "log_stable n P" and Q: "\<And>r. log_stable n (Q r)" and "hoare P (func ctx) Q"
    and valid: "\<And>s w. Q (Inr s) w \<Longrightarrow> code s \<noteq> SC_invalid"
  shows "hoare P (hook_Process (SetRequestType t (LoggingRequestHook ps)) func ctx)
    (\<lambda>r w. \<exists>r0. Q r0 w \<and> r = (case r0 of Inl e \<Rightarrow> Inl invalid_status_exn | Inr s \<Rightarrow> Inr s))"
  unfolding LoggingRequestHook_def hook_Process_protocol
proof (rule hoare_pass [where n = n and inside = P and finished = Q])
  let ?after = "\<lambda>r w. \<exists>r0. Q r0 w \<and> r = (case r0 of Inl e \<Rightarrow> Inl invalid_status_exn | Inr s \<Rightarrow> Inr s)"
  show "hoare P (Logging_pre_process ps t ctx) (\<lambda>r w. (\<exists>s. r = Inr s \<and> succeeded s) \<and> P w)"
    by (rule hoare_Logging_pre) (rule assms)+
  show "log_stable n (?after (Inr s))" for s
  proof -
    have "?after (Inr s) w \<longleftrightarrow> Q (Inr s) w" for w
    proof
      assume "?after (Inr s) w"
      then obtain r0 where "Q r0 w" "Inr s = (case r0 of Inl e \<Rightarrow> Inl invalid_status_exn | Inr s \<Rightarrow> Inr s)" by blast
      then show "Q (Inr s) w" by (cases r0) simp_all
    qed (auto intro!: exI [of _ "Inr s"])
    then have "?after (Inr s) = Q (Inr s)" by (rule ext)
    then show ?thesis using Q by simp
  qed
  show "hoare (Q (Inr s)) (Logging_post_process ps t ctx s)
      (\<lambda>r w. (\<forall>s. r = Inr s \<longrightarrow> code s \<noteq> SC_invalid) \<and> ?after r w)" if "code s \<noteq> SC_invalid" for s
  proof (cases "loglevel_failure ps = LL_invalid")
    case True
    with failure show ?thesis by (auto simp: hoare_def)
  next
    case False
    show ?thesis
      by (rule hoare_weaken, rule hoare_Logging_post, rule assms(1), rule assms(2), rule False, rule Q, rule that)
        (use that in \<open>auto intro!: exI [of _ "Inr s"]\<close>)
  qed
  show "hoare (Q (Inl e)) (Logging_post_process ps t ctx (Status_of SC_invalid ''exception during request''))
      (\<lambda>r w. ?after (case r of Inl e' \<Rightarrow> Inl e' | Inr s \<Rightarrow> if code s = SC_invalid then Inl e else Inr s) w)" for e
  proof (rule hoareI)
    fix w assume w: "Q (Inl e) w"
    then have "stack_ok n w" using Q [of "Inl e"] by (simp add: log_stable_def)
    from Logging_post_invalid [OF this assms(1)] w
    show "\<exists>r w'. Logging_post_process ps t ctx (Status_of SC_invalid ''exception during request'') w = Some (r, w') \<and>
      ?after (case r of Inl e' \<Rightarrow> Inl e' | Inr s \<Rightarrow> if code s = SC_invalid then Inl e else Inr s) w'"
      by (auto intro!: exI [of _ "Inl e"])
  qed
qed (rule assms valid | assumption)+

subsection \<open>Properties\<close>

text \<open>
  The logging hook does not change what a request does. With levels that can be
  printed, every logger and any status but the placeholder, the hook returns the status of the
  request, and whatever condition on the state the request establishes and console output does
  not disturb holds behind the hook.
\<close>

theorem logging_is_transparent:
  assumes "ctx < n" and "loglevel_success ps \<noteq> LL_invalid" and "loglevel_failure ps \<noteq> LL_invalid"
    and "log_stable n P" and "log_stable n Q" and "code status \<noteq> SC_invalid"
    and "hoare P (func ctx) (\<lambda>r w. r = Inr status \<and> Q w)"
  shows "hoare P (hook_Process (SetRequestType t (LoggingRequestHook ps)) func ctx) (\<lambda>r w. r = Inr status \<and> Q w)"
  by (rule hoare_weaken, rule hoare_logging [where Q = "\<lambda>r w. r = Inr status \<and> Q w" and n = n])
    (use assms in \<open>auto simp: log_stable_def\<close>)

theorem logging_is_transparent_witness:
  "\<exists>w'. hook_Process (SetRequestType RT_incoming (LoggingRequestHook Logging_Parameters))
      (\<lambda>ctx. thenC (modifyC (\<lambda>w. w\<lparr>app := 7\<rparr>)) (ret (Status_of SC_not_found ''no such ship''))) ThreadLocalContext
      ((initial_world (0 :: nat))\<lparr>log_provider := Some (ConsoleLogger LL_trace LL_warn)\<rparr>)
    = Some (Inr (Status_of SC_not_found ''no such ship''), w') \<and> app w' = 7"
proof -
  let ?w = "(initial_world (0 :: nat))\<lparr>log_provider := Some (ConsoleLogger LL_trace LL_warn)\<rparr>"
  let ?func = "\<lambda>ctx :: addr. thenC (modifyC (\<lambda>w. w\<lparr>app := 7\<rparr>)) (ret (Status_of SC_not_found ''no such ship''))"
  have ok: "stack_ok 2 ?w" using stack_ok_initial [of "0 :: nat"] by (simp add: stack_ok_def)
  have "hoare (stack_ok 2) (hook_Process (SetRequestType RT_incoming (LoggingRequestHook Logging_Parameters))
      ?func ThreadLocalContext)
    (\<lambda>r w. r = Inr (Status_of SC_not_found ''no such ship'') \<and> stack_ok 2 w \<and> app w = 7)"
    by (rule logging_is_transparent [where n = 2])
      (simp_all add: Logging_Parameters_def ThreadLocalContext_def log_stable_def hoare_def thenC_def bindC_def
        modifyC_def ret_def)
  from this ok show ?thesis by (rule hoareE) blast
qed

text \<open>
  The logging hook replaces every exception. When the request throws, \<open>post_process\<close>
  gets the placeholder \<open>invalid\<close>, and printing it throws \<open>std::invalid_argument\<close> before anything
  is written: the exception of the request is lost. Around an outgoing request of a service
  with the default exception handling, every failure so becomes the client error
  \<open>INVALID_ARGUMENT\<close>.
\<close>

theorem logging_replaces_exception:
  assumes "octx < n" and "loglevel_success ps \<noteq> LL_invalid"
    and "hoare (stack_ok n) (func octx) (\<lambda>r w. r = Inl e \<and> stack_ok n w)"
  shows "hoare (stack_ok n) (hook_Process (SetRequestType t (LoggingRequestHook ps)) func octx)
      (\<lambda>r w. r = Inl (InvalidArgument ''invalid status code with id -1'') \<and> stack_ok n w)
    \<and> hoare (stack_ok n) (ExceptionHandlingRequestHook_Process default_exception_handling_mappers
        (\<lambda>ctx. hook_Process (SetRequestType RT_outgoing (LoggingRequestHook ps)) func octx) ctx)
      (\<lambda>r w. r = Inr (Status_of SC_invalid_argument
          ''invalid argument exception: invalid status code with id -1'') \<and> stack_ok n w)"
proof -
  have minus_one: "show_int (- 1) = ''-1''" by code_simp
  have id: "invalid_status_exn = InvalidArgument ''invalid status code with id -1''"
    by (simp add: invalid_status_exn_def minus_one)
  have replaced: "hoare (stack_ok n) (hook_Process (SetRequestType t (LoggingRequestHook ps)) func octx)
      (\<lambda>r w. r = Inl invalid_status_exn \<and> stack_ok n w)" for t
    by (rule hoare_weaken, rule hoare_logging [where Q = "\<lambda>r w. r = Inl e \<and> stack_ok n w" and n = n])
      (use assms in \<open>auto simp: log_stable_def\<close>)
  have "default_handling invalid_status_exn
      = Status_of SC_invalid_argument ''invalid argument exception: invalid status code with id -1''"
    by (simp add: default_handling_def id c_str_def)
  with hoare_default_handling [where func = "\<lambda>ctx. hook_Process (SetRequestType RT_outgoing
      (LoggingRequestHook ps)) func octx", OF replaced [of RT_outgoing]]
  have "hoare (stack_ok n) (ExceptionHandlingRequestHook_Process default_exception_handling_mappers
        (\<lambda>ctx. hook_Process (SetRequestType RT_outgoing (LoggingRequestHook ps)) func octx) ctx)
      (\<lambda>r w. r = Inr (Status_of SC_invalid_argument
          ''invalid argument exception: invalid status code with id -1'') \<and> stack_ok n w)"
    by (auto elim!: hoare_weaken)
  with replaced [of t] show ?thesis unfolding id by simp
qed

theorem logging_replaces_exception_witness:
  "\<exists>w'. hook_Process (SetRequestType RT_outgoing (LoggingRequestHook Logging_Parameters))
      (\<lambda>ctx. throw (RuntimeError ''connection lost'')) ThreadLocalContext (initial_world ())
    = Some (Inl (InvalidArgument ''invalid status code with id -1''), w')"
proof -
  have "hoare (stack_ok 2) (hook_Process (SetRequestType RT_outgoing (LoggingRequestHook Logging_Parameters))
      (\<lambda>ctx. throw (RuntimeError ''connection lost'')) ThreadLocalContext)
    (\<lambda>r w. r = Inl (InvalidArgument ''invalid status code with id -1'') \<and> stack_ok 2 (w :: unit world))"
    by (rule conjunct1 [OF logging_replaces_exception [where e = "RuntimeError ''connection lost''"]])
      (simp_all add: Logging_Parameters_def ThreadLocalContext_def hoare_throw)
  from this stack_ok_initial [of "()"] show ?thesis by (rule hoareE) blast
qed

end
