(* ===== verification/Mse_Status_Converter.thy ===== *)
theory Mse_Status_Converter
  imports Mse_Status "HOL-Library.Signed_Division"
begin

text \<open>
  \<open>utilities/status-converter\<close>: statuses to and from gRPC and HTTP. The gRPC types are template
  parameters: \<open>cast_to\<close> and \<open>cast_from\<close> are the casts of the code type, \<open>mk\<close>, \<open>error_code\<close> and
  \<open>error_message\<close> the constructor and the accessors of the status type. HTTP codes are \<open>int\<close>
  values; \<open>/\<close> truncates, which is \<open>sdiv\<close>.
\<close>

subsection \<open>gRPC\<close>

definition ToGrpcStatusCode :: "(int \<Rightarrow> 'g) \<Rightarrow> StatusCode \<Rightarrow> exn + 'g" where
  "ToGrpcStatusCode cast_to status_code =
     (if status_code = SC_invalid then Inl (InvalidArgument ''cannot convert StatusCode::invalid'')
      else Inr (cast_to (status_code_id status_code)))"

definition FromGrpcStatusCode :: "('g \<Rightarrow> int) \<Rightarrow> 'g \<Rightarrow> exn + StatusCode" where
  "FromGrpcStatusCode cast_from grpc_status_code =
     (let c = cast_from grpc_status_code in
      if c < status_code_id SC_lowest \<or> status_code_id SC_highest < c
      then Inl (OutOfRange (''cannot convert code '' @ show_int c @ ''to StatusCode''))
      else Inr (status_code_of_int c))"

definition ToGrpcStatus :: "(int \<Rightarrow> 'g) \<Rightarrow> ('g \<Rightarrow> string \<Rightarrow> 's) \<Rightarrow> Status \<Rightarrow> exn + 's" where
  "ToGrpcStatus cast_to mk status =
     (case ToGrpcStatusCode cast_to (code status) of
        Inl e \<Rightarrow> Inl e | Inr g \<Rightarrow> Inr (mk g (details status)))"

definition FromGrpcStatus :: "('g \<Rightarrow> int) \<Rightarrow> ('s \<Rightarrow> 'g) \<Rightarrow> ('s \<Rightarrow> string) \<Rightarrow> 's \<Rightarrow> exn + Status" where
  "FromGrpcStatus cast_from error_code error_message grpc_status =
     (case FromGrpcStatusCode cast_from (error_code grpc_status) of
        Inl e \<Rightarrow> Inl e | Inr c \<Rightarrow> Inr (Status_of c (error_message grpc_status)))"

subsection \<open>HTTP\<close>

type_synonym StatusCodeToHttp = "(StatusCode \<times> int) list"
type_synonym HttpToStatusCode = "(int \<times> StatusCode) list \<times> (int \<times> StatusCode) list"

definition DefaultHttpStatusCodeToStatusCode :: HttpToStatusCode where
  "DefaultHttpStatusCodeToStatusCode =
     ([(1, SC_ok), (2, SC_ok), (3, SC_ok), (4, SC_invalid_argument), (5, SC_internal)],
      [(401, SC_unauthenticated), (403, SC_permission_denied), (404, SC_not_found),
       (409, SC_already_exists), (429, SC_resource_exhausted), (501, SC_unimplemented),
       (503, SC_unavailable), (504, SC_deadline_exceeded)])"

definition DefaultStatusCodeToHttpStatusCode :: StatusCodeToHttp where
  "DefaultStatusCodeToHttpStatusCode =
     [(SC_ok, 200), (SC_cancelled, 499), (SC_unknown, 500), (SC_invalid_argument, 400),
      (SC_deadline_exceeded, 504), (SC_not_found, 404), (SC_already_exists, 409),
      (SC_permission_denied, 403), (SC_resource_exhausted, 429), (SC_failed_precondition, 400),
      (SC_aborted, 409), (SC_out_of_range, 400), (SC_unimplemented, 501), (SC_internal, 500),
      (SC_unavailable, 503), (SC_data_loss, 500), (SC_unauthenticated, 401)]"

definition FromHttpStatusCode :: "HttpToStatusCode \<Rightarrow> int \<Rightarrow> exn + StatusCode" where
  "FromHttpStatusCode lut http_status_code =
     (case map_of (snd lut) http_status_code of
        Some c \<Rightarrow> Inr c
      | None \<Rightarrow>
          (case map_of (fst lut) (http_status_code sdiv 100) of
             Some c \<Rightarrow> Inr c
           | None \<Rightarrow> Inl (OutOfRange (''cannot convert http code '' @ show_int http_status_code @ ''to status code''))))"

text \<open>The text of the exception prints the code, which is valid there.\<close>

definition ToHttpStatusCode :: "StatusCodeToHttp \<Rightarrow> StatusCode \<Rightarrow> exn + int" where
  "ToHttpStatusCode lut status_code =
     (if status_code = SC_invalid then Inl (InvalidArgument ''cannot convert StatusCode::invalid'')
      else (case map_of lut status_code of
              Some h \<Rightarrow> Inr h
            | None \<Rightarrow>
                (case StatusCode_to_string status_code of
                   Inl e \<Rightarrow> Inl e
                 | Inr s \<Rightarrow> Inl (OutOfRange (''cannot convert code '' @ s @ ''to http status code'')))))"

subsection \<open>Properties\<close>

text \<open>
  Statuses survive the way over gRPC. With casts that are inverse on the code type
  and a status type that keeps what it is made of, exactly the valid statuses convert, and
  converting back gives the same status; a foreign status converts exactly when its code is
  one of the seventeen, and then converting back gives it again.
\<close>

theorem grpc_status_roundtrip:
  assumes "\<And>i. cast_from (cast_to i) = i" and "\<And>g. cast_to (cast_from g) = g"
    and "\<And>g m. error_code (mk g m) = g" and "\<And>g m. error_message (mk g m) = m"
    and "\<And>s. mk (error_code s) (error_message s) = s"
  shows "(case ToGrpcStatus cast_to mk status of
        Inl e \<Rightarrow> code status = SC_invalid
      | Inr g \<Rightarrow> code status \<noteq> SC_invalid \<and> FromGrpcStatus cast_from error_code error_message g = Inr status)
    \<and> (case FromGrpcStatus cast_from error_code error_message grpc of
        Inl e \<Rightarrow> cast_from (error_code grpc) \<notin> {0..16}
      | Inr s \<Rightarrow> cast_from (error_code grpc) \<in> {0..16} \<and> ToGrpcStatus cast_to mk s = Inr grpc)"
proof
  have "status_code_id c \<in> {0..16}" if "c \<noteq> SC_invalid" for c
    using that by (cases c) simp_all
  then show "case ToGrpcStatus cast_to mk status of
        Inl e \<Rightarrow> code status = SC_invalid
      | Inr g \<Rightarrow> code status \<noteq> SC_invalid \<and> FromGrpcStatus cast_from error_code error_message g = Inr status"
    by (cases status) (auto simp: ToGrpcStatus_def ToGrpcStatusCode_def FromGrpcStatus_def FromGrpcStatusCode_def
        assms Status_of_def Let_def not_less [symmetric])
  have "status_code_of_int i \<noteq> SC_invalid" if "0 \<le> i" "i \<le> 16" for i
    using status_code_id_of_int [OF that] that by auto
  then show "case FromGrpcStatus cast_from error_code error_message grpc of
        Inl e \<Rightarrow> cast_from (error_code grpc) \<notin> {0..16}
      | Inr s \<Rightarrow> cast_from (error_code grpc) \<in> {0..16} \<and> ToGrpcStatus cast_to mk s = Inr grpc"
    by (auto simp: ToGrpcStatus_def ToGrpcStatusCode_def FromGrpcStatus_def FromGrpcStatusCode_def
        assms Let_def status_code_id_of_int)
qed

theorem grpc_status_roundtrip_witness:
  "FromGrpcStatus (\<lambda>i :: int. i) fst snd (16, ''who are you'') = Inr (Status_of SC_unauthenticated ''who are you'')
   \<and> ToGrpcStatus (\<lambda>i :: int. i) Pair (Status_of SC_unauthenticated ''who are you'') = Inr (16, ''who are you'')"
  using grpc_status_roundtrip [of "\<lambda>i. i" "\<lambda>i. i" fst Pair snd "Status_of SC_unauthenticated ''who are you''"
      "(16, ''who are you'')"]
  by (auto simp: ToGrpcStatus_def ToGrpcStatusCode_def split: sum.splits)

text \<open>What is left of a status code after it went over HTTP with the default tables.\<close>

fun http_code_class :: "StatusCode \<Rightarrow> StatusCode" where
  "http_code_class SC_cancelled = SC_invalid_argument"
| "http_code_class SC_unknown = SC_internal"
| "http_code_class SC_failed_precondition = SC_invalid_argument"
| "http_code_class SC_aborted = SC_already_exists"
| "http_code_class SC_out_of_range = SC_invalid_argument"
| "http_code_class SC_data_loss = SC_internal"
| "http_code_class c = c"

lemma default_http_roundtrip:
  "c \<noteq> SC_invalid \<Longrightarrow> \<exists>h. ToHttpStatusCode DefaultStatusCodeToHttpStatusCode c = Inr h \<and>
     FromHttpStatusCode DefaultHttpStatusCodeToStatusCode h = Inr (http_code_class c)"
  by (cases c) (simp_all add: ToHttpStatusCode_def DefaultStatusCodeToHttpStatusCode_def
      FromHttpStatusCode_def DefaultHttpStatusCodeToStatusCode_def signed_divide_int_def)

lemma sdiv_100:
  assumes "0 \<le> h"
  shows "(h :: int) sdiv 100 = h div 100"
  using assms by (simp add: signed_divide_int_def sgn_if)

lemma default_from_http:
  assumes "100 \<le> h" and "h < 600"
  shows "FromHttpStatusCode DefaultHttpStatusCodeToStatusCode h =
     Inr (if h = 401 then SC_unauthenticated else if h = 403 then SC_permission_denied
          else if h = 404 then SC_not_found else if h = 409 then SC_already_exists
          else if h = 429 then SC_resource_exhausted else if h = 501 then SC_unimplemented
          else if h = 503 then SC_unavailable else if h = 504 then SC_deadline_exceeded
          else if h < 400 then SC_ok else if h < 500 then SC_invalid_argument else SC_internal)"
proof -
  have "h div 100 \<in> {1, 2, 3, 4, 5}" using assms by simp presburger
  moreover have "h < 400 \<longleftrightarrow> h div 100 < 4" "h < 500 \<longleftrightarrow> h div 100 < 5" by presburger+
  ultimately show ?thesis
    by (auto simp: FromHttpStatusCode_def DefaultHttpStatusCodeToStatusCode_def sdiv_100 assms(1)
        order_trans [OF _ assms(1)])
qed

lemma from_http_undefined:
  assumes "h < 100 \<or> 600 \<le> h"
  shows "FromHttpStatusCode DefaultHttpStatusCodeToStatusCode h =
    Inl (OutOfRange (''cannot convert http code '' @ show_int h @ ''to status code''))"
proof -
  have "h sdiv 100 \<notin> {1, 2, 3, 4, 5}"
  proof (cases "0 \<le> h")
    case True
    then have "h sdiv 100 = h div 100" by (rule sdiv_100)
    with assms show ?thesis by simp presburger
  next
    case False
    then show ?thesis by (auto simp: signed_divide_int_def sgn_if)
  qed
  then show ?thesis using assms
    by (auto simp: FromHttpStatusCode_def DefaultHttpStatusCodeToStatusCode_def)
qed

text \<open>
  Success and blame survive the way over HTTP with the default tables. Every valid
  code has an HTTP code, which reads back as the code that stands for its class, \<open>OK\<close> for \<open>OK\<close>
  only. Exactly the HTTP codes from 100 to 599 have a status code; it is \<open>OK\<close> exactly below
  400, and what an error converts back to is a client error for a client error and a server
  error for a server error.
\<close>

theorem http_classes_survive:
  assumes "c \<noteq> SC_invalid"
  shows "(\<exists>h. ToHttpStatusCode DefaultStatusCodeToHttpStatusCode c = Inr h \<and>
        FromHttpStatusCode DefaultHttpStatusCodeToStatusCode h = Inr (http_code_class c) \<and>
        (http_code_class c = SC_ok \<longleftrightarrow> c = SC_ok))
    \<and> (case FromHttpStatusCode DefaultHttpStatusCodeToStatusCode h of
         Inl e \<Rightarrow> h \<notin> {100..599}
       | Inr c' \<Rightarrow> h \<in> {100..599} \<and> (c' = SC_ok \<longleftrightarrow> h < 400) \<and>
           (\<exists>h'. ToHttpStatusCode DefaultStatusCodeToHttpStatusCode c' = Inr h' \<and>
              (400 \<le> h \<longrightarrow> h' div 100 = h div 100)))"
proof
  have "http_code_class c = SC_ok \<longleftrightarrow> c = SC_ok" by (cases c) simp_all
  with default_http_roundtrip [OF assms]
  show "\<exists>h. ToHttpStatusCode DefaultStatusCodeToHttpStatusCode c = Inr h \<and>
        FromHttpStatusCode DefaultHttpStatusCodeToStatusCode h = Inr (http_code_class c) \<and>
        (http_code_class c = SC_ok \<longleftrightarrow> c = SC_ok)" by auto
  show "case FromHttpStatusCode DefaultHttpStatusCodeToStatusCode h of
         Inl e \<Rightarrow> h \<notin> {100..599}
       | Inr c' \<Rightarrow> h \<in> {100..599} \<and> (c' = SC_ok \<longleftrightarrow> h < 400) \<and>
           (\<exists>h'. ToHttpStatusCode DefaultStatusCodeToHttpStatusCode c' = Inr h' \<and>
              (400 \<le> h \<longrightarrow> h' div 100 = h div 100))"
  proof (cases "100 \<le> h \<and> h < 600")
    case True
    have "400 \<le> h \<Longrightarrow> h < 500 \<Longrightarrow> h div 100 = 4" "500 \<le> h \<Longrightarrow> h < 600 \<Longrightarrow> h div 100 = 5" by presburger+
    with True show ?thesis
      by (auto simp: default_from_http ToHttpStatusCode_def DefaultStatusCodeToHttpStatusCode_def)
  next
    case False
    then show ?thesis by (auto simp: from_http_undefined not_le not_less)
  qed
qed

theorem http_classes_survive_witness:
  "FromHttpStatusCode DefaultHttpStatusCodeToStatusCode 418 = Inr SC_invalid_argument \<and>
   (\<exists>h. ToHttpStatusCode DefaultStatusCodeToHttpStatusCode SC_data_loss = Inr h \<and>
        FromHttpStatusCode DefaultHttpStatusCodeToStatusCode h = Inr SC_internal)"
  using http_classes_survive [of SC_data_loss 418] by (simp add: default_from_http)

end
