(* ===== verification/Mse_Metadata_Converter.thy ===== *)
theory Mse_Metadata_Converter
  imports Mse_Stack
begin

text \<open>
  \<open>utilities/metadata-converter\<close>: metadata to and from the containers of other libraries. A
  container is the sequence of its pairs in the order of iteration; a container that is made is
  given by its empty value and its \<open>insert\<close>.
\<close>

text \<open>\<open>std::tolower\<close> in the default locale.\<close>

definition tolower_char :: "char \<Rightarrow> char" where
  "tolower_char c = (if CHR ''A'' \<le> c \<and> c \<le> CHR ''Z'' then char_of (of_char c + 32 :: nat) else c)"

definition ToContextMetadata :: "(string \<times> string) list \<Rightarrow> bool \<Rightarrow> metadata" where
  "ToContextMetadata external_metadata keys_to_lower =
     fold (\<lambda>(k, v) md. mm_insert (if keys_to_lower then map tolower_char k else k, v) md) external_metadata []"

definition FromContextMetadata :: "(string \<times> string \<Rightarrow> 'c \<Rightarrow> 'c) \<Rightarrow> 'c \<Rightarrow> metadata \<Rightarrow> 'c" where
  "FromContextMetadata container_insert empty_container md = fold container_insert md empty_container"

primrec ExportMetadata :: "metadata \<Rightarrow> (string \<Rightarrow> string \<Rightarrow> ('w, unit) comp) \<Rightarrow> ('w, unit) comp" where
  "ExportMetadata [] export_fn = ret ()"
| "ExportMetadata (kv # md) export_fn = thenC (export_fn (fst kv) (snd kv)) (ExportMetadata md export_fn)"

text \<open>The overload that calls a member function of an object binds the object first.\<close>

definition ExportMetadata_member ::
    "metadata \<Rightarrow> ('o \<Rightarrow> string \<Rightarrow> string \<Rightarrow> ('w, unit) comp) \<Rightarrow> 'o \<Rightarrow> ('w, unit) comp" where
  "ExportMetadata_member md export_fn export_obj = ExportMetadata md (export_fn export_obj)"

subsection \<open>Properties\<close>

lemma ToContextMetadata_fold:
  "mm_sorted md \<Longrightarrow> mm_sorted (fold (\<lambda>(k, v) md. mm_insert (f k, v) md) ext md) \<and>
   mm_values k (fold (\<lambda>(k, v) md. mm_insert (f k, v) md) ext md)
     = mm_values k md @ map snd (filter (\<lambda>kv. f (fst kv) = k) ext)"
  by (induction ext arbitrary: md) (auto simp: mm_values_insert)

text \<open>
  What a lookup finds in converted metadata. The values of a key are those of the
  external pairs whose key, put into lower case when that is asked for, is this key, in the
  order of the container and with duplicates, and the first of them is what \<open>find\<close> returns.
  Written into a multimap again they are the same metadata.
\<close>

theorem converted_metadata_lookup:
  "mm_values k (ToContextMetadata external_metadata keys_to_lower) =
     map snd (filter (\<lambda>kv. (if keys_to_lower then map tolower_char (fst kv) else fst kv) = k) external_metadata)
   \<and> mm_sorted (ToContextMetadata external_metadata keys_to_lower)
   \<and> FromContextMetadata mm_insert [] (ToContextMetadata external_metadata keys_to_lower)
     = ToContextMetadata external_metadata keys_to_lower"
proof -
  let ?f = "\<lambda>k. if keys_to_lower then map tolower_char k else k"
  let ?md = "ToContextMetadata external_metadata keys_to_lower"
  have found: "mm_sorted ?md" "mm_values k ?md = map snd (filter (\<lambda>kv. ?f (fst kv) = k) external_metadata)"
    using ToContextMetadata_fold [of "[]" ?f external_metadata k]
    by (simp_all add: ToContextMetadata_def mm_values_def)
  have last: "mm_insert x ys = ys @ [x]" if "mm_sorted (ys @ [x])" for x and ys :: metadata
    using that by (induction ys) (auto simp: mm_sorted_def)
  have "fold mm_insert xs ys = ys @ xs" if "mm_sorted (ys @ xs)" for xs ys :: metadata
    using that
  proof (induction xs arbitrary: ys)
    case (Cons x xs)
    have "mm_sorted (ys @ [x])" using Cons.prems by (auto simp: mm_sorted_def sorted_append)
    with Cons show ?case by (simp add: last)
  qed simp
  from this [of "[]" ?md] found show ?thesis by (simp add: FromContextMetadata_def)
qed

text \<open>
  Exporting calls the function for every entry, in order, and stops at the first
  exception: the run is that of the calls in sequence, up to the entry whose call throws.
\<close>

theorem export_calls_in_order:
  "ExportMetadata (md @ md') export_fn w =
     (case ExportMetadata md export_fn w of
        None \<Rightarrow> None
      | Some (Inl e, w') \<Rightarrow> Some (Inl e, w')
      | Some (Inr u, w') \<Rightarrow> ExportMetadata md' export_fn w')
   \<and> ExportMetadata [(k, v)] export_fn w = export_fn k v w"
proof
  show "ExportMetadata (md @ md') export_fn w =
     (case ExportMetadata md export_fn w of
        None \<Rightarrow> None
      | Some (Inl e, w') \<Rightarrow> Some (Inl e, w')
      | Some (Inr u, w') \<Rightarrow> ExportMetadata md' export_fn w')"
    by (induction md arbitrary: w) (auto simp: thenC_def bindC_def ret_apply split: option.split sum.split)
  show "ExportMetadata [(k, v)] export_fn w = export_fn k v w"
    by (auto simp: thenC_def bindC_def ret_apply split: option.split sum.split)
qed

end
