(* ===== verification/Mse_Environment.thy ===== *)
theory Mse_Environment
  imports Mse_Logger
begin

text \<open>
  \<open>utilities/environment\<close>: typed reads of environment variables. The environment of the process
  is a map of C strings; it is not changed here. The template parameter \<open>T\<close> is given by its
  \<open>operator>>\<close>, a function from the stream's text to whether the extraction succeeded, the value,
  and the rest. \<open>std::string\<close> has its own specialisation, which takes the whole value.
\<close>

type_synonym environment = "string \<rightharpoonup> string"

type_synonym 'a extraction = "string \<Rightarrow> (bool \<times> 'a) \<times> string"

definition impl_getenv :: "environment \<Rightarrow> string \<Rightarrow> string option" where
  "impl_getenv env env_var = env (c_str env_var)"

definition getenv_optional_string :: "environment \<Rightarrow> string \<Rightarrow> exn + string option" where
  "getenv_optional_string env env_name = Inr (impl_getenv env env_name)"

definition getenv_optional :: "'a extraction \<Rightarrow> environment \<Rightarrow> string \<Rightarrow> exn + 'a option" where
  "getenv_optional extract env env_name =
     (case getenv_optional_string env env_name of
        Inl e \<Rightarrow> Inl e
      | Inr None \<Rightarrow> Inr None
      | Inr (Some s) \<Rightarrow>
          (let (ok, v) = fst (extract s) in
           if \<not> ok then
             Inl (InvalidArgument (''the value '' @ [CHR 0x27] @ s @ '' of the environment variable ''
               @ [CHR 0x27] @ env_name @ [CHR 0x27] @ '' cannot be converted.''))
           else Inr (Some v)))"

text \<open>The two that are built on it take the instance of \<open>getenv_optional\<close> for their type.\<close>

definition mse_getenv :: "(string \<Rightarrow> exn + 'a option) \<Rightarrow> string \<Rightarrow> exn + 'a" where
  "mse_getenv optional_read env_name =
     (case optional_read env_name of
        Inl e \<Rightarrow> Inl e
      | Inr None \<Rightarrow> Inl (InvalidArgument
          (''environment variable '' @ [CHR 0x27] @ env_name @ [CHR 0x27] @ '' is not set.''))
      | Inr (Some v) \<Rightarrow> Inr v)"

definition getenv_or :: "(string \<Rightarrow> exn + 'a option) \<Rightarrow> string \<Rightarrow> 'a \<Rightarrow> exn + 'a" where
  "getenv_or optional_read env_name default_value =
     (case optional_read env_name of
        Inl e \<Rightarrow> Inl e
      | Inr None \<Rightarrow> Inr default_value
      | Inr (Some v) \<Rightarrow> Inr v)"

definition getenv_or_string :: "environment \<Rightarrow> string \<Rightarrow> string \<Rightarrow> exn + string" where
  "getenv_or_string env env_name default_value =
     getenv_or (getenv_optional_string env) env_name (c_str default_value)"

subsection \<open>Integers\<close>

text \<open>
  \<open>operator>>(std::istream&, int&)\<close>: white space is skipped, then an optional sign and the
  longest run of decimal digits are taken. No digit, or a number that a 32 bit \<open>int\<close> cannot
  hold, sets the fail state.
\<close>

definition extract_int :: "int extraction" where
  "extract_int s =
     (let t = dropWhile is_space s;
          negative = (t \<noteq> [] \<and> hd t = CHR ''-'');
          u = (if t \<noteq> [] \<and> (hd t = CHR ''-'' \<or> hd t = CHR ''+'') then tl t else t);
          ds = takeWhile is_digit u;
          rest = dropWhile is_digit u;
          i = (if negative then - int (digits_value ds) else int (digits_value ds))
      in if ds = [] then ((False, 0), rest)
         else if i < - (2 ^ 31) then ((False, - (2 ^ 31)), rest)
         else if 2 ^ 31 \<le> i then ((False, 2 ^ 31 - 1), rest)
         else ((True, i), rest))"

lemma extract_int_shown:
  assumes "rest = [] \<or> \<not> is_digit (hd rest)"
  shows "extract_int (show_int i @ rest) =
    ((if i < - (2 ^ 31) then (False, - (2 ^ 31)) else if 2 ^ 31 \<le> i then (False, 2 ^ 31 - 1) else (True, i)), rest)"
proof -
  let ?ds = "show_nat (nat \<bar>i\<bar>)"
  have ds: "list_all is_digit ?ds" "digits_value ?ds = nat \<bar>i\<bar>" "?ds \<noteq> []" using show_nat_digits by auto
  note split_digits = takeWhile_digits [OF ds(1) assms]
  obtain d r where dr: "?ds = d # r" using ds(3) by (cases ?ds) auto
  have d: "\<not> is_space d" "d \<noteq> CHR ''-''" "d \<noteq> CHR ''+''"
    using is_digit_not_space [of d] ds(1) dr by auto
  show ?thesis
  proof (cases "i < 0")
    case True
    then have "show_int i = CHR ''-'' # ?ds" by (simp add: show_int_def)
    moreover have "\<not> is_space CHR ''-''" by (simp add: is_space_def)
    ultimately show ?thesis using True ds split_digits by (simp add: extract_int_def Let_def)
  next
    case False
    then have s: "show_int i = ?ds" by (simp add: show_int_def)
    have "dropWhile is_space (?ds @ rest) = ?ds @ rest" "hd (?ds @ rest) = d" using dr d by simp_all
    with s False ds split_digits d show ?thesis by (simp add: extract_int_def Let_def)
  qed
qed

subsection \<open>Properties\<close>

text \<open>
  An \<open>int\<close> variable reads as what \<open>std::to_string\<close> wrote. Every number that a 32 bit
  \<open>int\<close> holds comes back, every other one is refused with \<open>invalid_argument\<close> by all three reads;
  text behind the number is not looked at, so that a value such as \<open>8080/tcp\<close> is accepted.
\<close>

theorem getenv_int_roundtrip:
  assumes "env (c_str env_name) = Some (show_int i @ rest)" and "rest = [] \<or> \<not> is_digit (hd rest)"
  shows "let answer = (if i \<in> {- (2 ^ 31)..<2 ^ 31} then Inr i
          else Inl (InvalidArgument (''the value '' @ [CHR 0x27] @ (show_int i @ rest)
            @ '' of the environment variable '' @ [CHR 0x27] @ env_name @ [CHR 0x27] @ '' cannot be converted.'')))
     in mse_getenv (getenv_optional extract_int env) env_name = answer \<and>
        getenv_or (getenv_optional extract_int env) env_name default_value = answer"
  using assms(1) extract_int_shown [OF assms(2), of i]
  by (auto simp: mse_getenv_def getenv_or_def getenv_optional_def getenv_optional_string_def impl_getenv_def Let_def)

theorem getenv_int_roundtrip_witness:
  "getenv_or (getenv_optional extract_int [''PORT'' \<mapsto> ''8080/tcp'']) ''PORT'' 80 = Inr 8080"
proof -
  have "digit_char 8 = CHR ''8''" "digit_char 0 = CHR ''0''" by code_simp+
  then have "show_int 8080 = ''8080''"
    by (simp add: show_int_def show_nat.simps [of 8080] show_nat.simps [of 808] show_nat.simps [of 80]
        show_nat.simps [of 8])
  moreover have "\<not> is_digit CHR ''/''" by (simp add: is_digit_iff)
  moreover have "c_str ''PORT'' = ''PORT''" by (simp add: c_str_def)
  ultimately show ?thesis
    using getenv_int_roundtrip [of "[''PORT'' \<mapsto> ''8080/tcp'']" "''PORT''" 8080 "''/tcp''" 80]
    by (simp add: Let_def)
qed

end
