(* ===== verification/Mse_Signal_Handler.thy ===== *)
theory Mse_Signal_Handler
  imports Mse_Effects
begin

text \<open>
  \<open>utilities/signal-handler\<close>: signals of the operating system that set a flag per signal, and
  handler objects, each with a thread that polls the flag of its signal. The threads, the
  operating system and the code that makes and destroys handlers interleave: a state machine
  whose events are the atomic actions of the code. \<open>SIG_other\<close> stands for the values of the
  enumeration type without an enumerator; \<open>SIG_SHUTDOWN\<close> is \<open>SIG_TERM\<close>, as it is off Windows.
\<close>

datatype Signal = SIG_INT | SIG_ABRT | SIG_FPE | SIG_SEGV | SIG_ILL | SIG_TERM | SIG_other int

abbreviation SIG_SHUTDOWN :: Signal where "SIG_SHUTDOWN \<equiv> SIG_TERM"

text \<open>
  The callback for a signal and the flag it raises exist once per instance of the class template,
  that is per signal; both are named by the signal.
\<close>

fun getCallback :: "Signal \<Rightarrow> exn + Signal" where
  "getCallback (SIG_other i) = Inl (OutOfRange ''unknown signal'')"
| "getCallback s = Inr s"

fun getSignalRaised :: "Signal \<Rightarrow> exn + Signal" where
  "getSignalRaised (SIG_other i) = Inl (OutOfRange ''unknown signal'')"
| "getSignalRaised s = Inr s"

text \<open>Where the thread of a handler is in the loop of \<open>callOnSignal\<close>.\<close>

datatype place = AtTest | AtCheck | InCallback | AtClear | Sleeping | Finished

record SignalHandler =
  sh_signal :: Signal
  requestDestruction :: bool
  sh_place :: place
  sh_calls :: nat

record process =
  signalRaised :: "Signal \<Rightarrow> bool"
  catches :: "Signal \<Rightarrow> bool"
  handlers :: "nat \<rightharpoonup> SignalHandler"
  killed :: bool

definition initial_process :: process where
  "initial_process =
     \<lparr>signalRaised = (\<lambda>s. False), catches = (\<lambda>s. False), handlers = Map.empty, killed = False\<rparr>"

text \<open>
  One action of the thread, on its handler and the flag of its signal. A callback that returns
  is one action; \<open>sh_calls\<close> counts the invocations of the callback. A finished thread stays.
\<close>

fun callOnSignal_step :: "SignalHandler \<times> bool \<Rightarrow> SignalHandler \<times> bool" where
  "callOnSignal_step (h, raised) =
     (case sh_place h of
        AtTest \<Rightarrow> (h\<lparr>sh_place := if requestDestruction h then Finished else AtCheck\<rparr>, raised)
      | AtCheck \<Rightarrow>
          (if raised then (h\<lparr>sh_place := InCallback, sh_calls := Suc (sh_calls h)\<rparr>, raised)
           else (h\<lparr>sh_place := Sleeping\<rparr>, raised))
      | InCallback \<Rightarrow> (h\<lparr>sh_place := AtClear\<rparr>, raised)
      | AtClear \<Rightarrow> (h\<lparr>sh_place := Sleeping\<rparr>, False)
      | Sleeping \<Rightarrow> (h\<lparr>sh_place := AtTest\<rparr>, raised)
      | Finished \<Rightarrow> (h, raised))"

definition new_SignalHandler :: "Signal \<Rightarrow> SignalHandler" where
  "new_SignalHandler s = \<lparr>sh_signal = s, requestDestruction = False, sh_place = AtTest, sh_calls = 0\<rparr>"

lemma new_SignalHandler_sel [simp]:
  "sh_signal (new_SignalHandler s) = s" "requestDestruction (new_SignalHandler s) = False"
  "sh_place (new_SignalHandler s) = AtTest" "sh_calls (new_SignalHandler s) = 0"
  by (simp_all add: new_SignalHandler_def)

datatype sig_event =
    Construct nat Signal
  | Deliver Signal
  | Run nat
  | CallbackThrows nat
  | Destroy nat
  | Join nat

text \<open>
  \<open>Construct\<close> installs the callback and starts the thread, or throws for an unknown signal; \<open>Deliver\<close> is the system raising a
  signal, which ends the process when no callback is installed; an exception of the callback
  ends the thread; \<open>Destroy\<close> is the destructor's body, \<open>Join\<close> the destructor of the future, which
  waits for the thread.
\<close>

inductive sig_step :: "sig_event \<Rightarrow> process \<Rightarrow> process \<Rightarrow> bool" where
  construct: "\<not> killed p \<Longrightarrow> handlers p i = None \<Longrightarrow> getCallback s = Inr s \<Longrightarrow>
    sig_step (Construct i s) p
      (p\<lparr>catches := (catches p)(s := True), handlers := (handlers p)(i \<mapsto> new_SignalHandler s)\<rparr>)"
| construct_throws: "\<not> killed p \<Longrightarrow> getCallback s = Inl e \<Longrightarrow> sig_step (Construct i s) p p"
| deliver: "\<not> killed p \<Longrightarrow> catches p s \<Longrightarrow>
    sig_step (Deliver s) p (p\<lparr>signalRaised := (signalRaised p)(s := True)\<rparr>)"
| default_action: "\<not> killed p \<Longrightarrow> \<not> catches p s \<Longrightarrow> sig_step (Deliver s) p (p\<lparr>killed := True\<rparr>)"
| run: "\<not> killed p \<Longrightarrow> handlers p i = Some h \<Longrightarrow>
    callOnSignal_step (h, signalRaised p (sh_signal h)) = (h', raised) \<Longrightarrow>
    sig_step (Run i) p
      (p\<lparr>handlers := (handlers p)(i \<mapsto> h'), signalRaised := (signalRaised p)(sh_signal h := raised)\<rparr>)"
| callback_throws: "\<not> killed p \<Longrightarrow> handlers p i = Some h \<Longrightarrow> sh_place h = InCallback \<Longrightarrow>
    sig_step (CallbackThrows i) p (p\<lparr>handlers := (handlers p)(i \<mapsto> h\<lparr>sh_place := Finished\<rparr>)\<rparr>)"
| destroy: "\<not> killed p \<Longrightarrow> handlers p i = Some h \<Longrightarrow>
    sig_step (Destroy i) p
      (p\<lparr>catches := (catches p)(sh_signal h := False),
         handlers := (handlers p)(i \<mapsto> h\<lparr>requestDestruction := True\<rparr>)\<rparr>)"
| join: "\<not> killed p \<Longrightarrow> handlers p i = Some h \<Longrightarrow> requestDestruction h \<Longrightarrow> sh_place h = Finished \<Longrightarrow>
    sig_step (Join i) p (p\<lparr>handlers := (handlers p)(i := None)\<rparr>)"

code_pred (modes: i \<Rightarrow> i \<Rightarrow> o \<Rightarrow> bool) sig_step .

inductive_cases sig_stepE: "sig_step e p p'"

inductive sig_run :: "sig_event list \<Rightarrow> process \<Rightarrow> process \<Rightarrow> bool" where
  stop: "sig_run [] p p"
| step: "sig_step e p p1 \<Longrightarrow> sig_run es p1 p2 \<Longrightarrow> sig_run (e # es) p p2"

inductive_simps sig_run_simps [simp]: "sig_run [] p p'" "sig_run (e # es) p p'"

subsection \<open>One handler of a signal\<close>

text \<open>The handler \<open>i\<close> with its object \<open>h\<close> is the only one for its signal.\<close>

definition sole_handler :: "nat \<Rightarrow> SignalHandler \<Rightarrow> process \<Rightarrow> bool" where
  "sole_handler i h p \<longleftrightarrow> handlers p i = Some h \<and>
     (\<forall>j h'. handlers p j = Some h' \<longrightarrow> sh_signal h' = sh_signal h \<longrightarrow> j = i)"

text \<open>Events that leave it so: no other handler for the signal is made, and it is not joined.\<close>

fun keeps_sole :: "nat \<Rightarrow> Signal \<Rightarrow> sig_event \<Rightarrow> bool" where
  "keeps_sole i s (Construct j s') = (s' \<noteq> s)"
| "keeps_sole i s (Join j) = (j \<noteq> i)"
| "keeps_sole i s e = True"

lemma callOnSignal_frame:
  "callOnSignal_step (h, raised) = (h', raised') \<Longrightarrow>
   sh_signal h' = sh_signal h \<and> requestDestruction h' = requestDestruction h \<and> sh_calls h \<le> sh_calls h'"
  by (auto split: place.splits if_splits)

declare callOnSignal_step.simps [simp del]

lemma sole_handlerD: "sole_handler i h p \<Longrightarrow> handlers p i = Some h"
  by (simp add: sole_handler_def)

lemma sole_handler_distinct:
  "sole_handler i h p \<Longrightarrow> handlers p j = Some h' \<Longrightarrow> j \<noteq> i \<Longrightarrow> sh_signal h' \<noteq> sh_signal h"
  unfolding sole_handler_def by blast

lemma sole_handler_update:
  assumes "sole_handler i h p" and "handlers p j = Some h1" and "handlers p' = (handlers p)(j \<mapsto> h1')"
    and "sh_signal h1' = sh_signal h1"
  shows "sole_handler i (if j = i then h1' else h) p'"
proof (cases "j = i")
  case True
  then have h1: "h1 = h" using sole_handlerD [OF assms(1)] assms(2) by simp
  have sig: "sh_signal h1' = sh_signal h" using assms(4) by (simp add: h1)
  have "handlers p' k = Some h2 \<Longrightarrow> sh_signal h2 = sh_signal h1' \<Longrightarrow> k = i" for k h2
    using sole_handler_distinct [OF assms(1), of k h2] sig by (cases "k = i") (auto simp: assms(3) True)
  moreover have "handlers p' i = Some h1'" by (simp add: assms(3) True)
  ultimately have "sole_handler i h1' p'" unfolding sole_handler_def by blast
  with True show ?thesis by simp
next
  case False
  have sig: "sh_signal h1' \<noteq> sh_signal h" using sole_handler_distinct [OF assms(1,2) False] assms(4) by simp
  have "handlers p' k = Some h2 \<Longrightarrow> sh_signal h2 = sh_signal h \<Longrightarrow> k = i" for k h2
    using sole_handler_distinct [OF assms(1), of k h2] sig by (cases "k = j") (auto simp: assms(3))
  moreover have "handlers p' i = Some h" using sole_handlerD [OF assms(1)] False by (simp add: assms(3))
  ultimately have "sole_handler i h p'" unfolding sole_handler_def by blast
  with False show ?thesis by simp
qed

lemma sole_handler_new:
  assumes "sole_handler i h p" and "handlers p' = (handlers p)(j := h')" and "j \<noteq> i"
    and "\<And>k. h' = Some k \<Longrightarrow> sh_signal k \<noteq> sh_signal h"
  shows "sole_handler i h p'"
proof -
  have "handlers p' k = Some h2 \<Longrightarrow> sh_signal h2 = sh_signal h \<Longrightarrow> k = i" for k h2
    using sole_handler_distinct [OF assms(1), of k h2] assms(4) [of h2] by (cases "k = j") (auto simp: assms(2))
  moreover have "handlers p' i = Some h" using sole_handlerD [OF assms(1)] assms(3) by (simp add: assms(2))
  ultimately show ?thesis unfolding sole_handler_def by blast
qed

text \<open>What a step does to the handler and to the flag of its signal.\<close>

definition own_step :: "sig_event \<Rightarrow> nat \<Rightarrow> SignalHandler \<times> bool \<Rightarrow> SignalHandler \<times> bool" where
  "own_step e i hr =
     (case e of
        Run j \<Rightarrow> if j = i then callOnSignal_step hr else hr
      | CallbackThrows j \<Rightarrow> if j = i \<and> sh_place (fst hr) = InCallback then ((fst hr)\<lparr>sh_place := Finished\<rparr>, snd hr) else hr
      | Destroy j \<Rightarrow> if j = i then ((fst hr)\<lparr>requestDestruction := True\<rparr>, snd hr) else hr
      | Deliver s \<Rightarrow> (fst hr, snd hr \<or> s = sh_signal (fst hr))
      | _ \<Rightarrow> hr)"

lemma sole_handler_step:
  assumes "sig_step e p p'" and "sole_handler i h p" and "keeps_sole i (sh_signal h) e" and "\<not> killed p'"
    and "own_step e i (h, signalRaised p (sh_signal h)) = (h', raised)"
  shows "sole_handler i h' p' \<and> sh_signal h' = sh_signal h \<and> signalRaised p' (sh_signal h) = raised"
proof -
  note own = sole_handlerD [OF assms(2)]
  from assms(1) show ?thesis
  proof cases
    case (construct j s)
    have ne: "j \<noteq> i" using construct(4) own by auto
    have "sole_handler i h p'"
      by (rule sole_handler_new [OF assms(2) _ ne]) (use construct(1,2) assms(3) in auto)
    with construct(1,2) assms(5) show ?thesis by (auto simp: own_step_def)
  next
    case (construct_throws s)
    with assms(2,5) show ?thesis by (auto simp: own_step_def)
  next
    case (deliver s)
    have "sole_handler i h p'" using assms(2) by (simp add: deliver(2) sole_handler_def)
    with deliver(1,2) assms(5) show ?thesis by (auto simp: own_step_def)
  next
    case default_action
    with assms(4) show ?thesis by simp
  next
    case (run j h1 h1' r)
    note frame = callOnSignal_frame [OF run(5)]
    have sole: "sole_handler i (if j = i then h1' else h) p'"
      by (rule sole_handler_update [OF assms(2) run(4)]) (use frame in \<open>simp_all add: run(2)\<close>)
    show ?thesis
    proof (cases "j = i")
      case True
      then have h1: "h1 = h" using run(4) own by simp
      with True run(1,5) assms(5) have "h' = h1'" "raised = r" by (simp_all add: own_step_def)
      with sole True frame h1 show ?thesis by (simp add: run(2))
    next
      case False
      with run(1) assms(5) have "h' = h" "raised = signalRaised p (sh_signal h)" by (auto simp: own_step_def)
      with sole False sole_handler_distinct [OF assms(2) run(4) False] show ?thesis by (simp add: run(2))
    qed
  next
    case (callback_throws j h1)
    have sole: "sole_handler i (if j = i then h1\<lparr>sh_place := Finished\<rparr> else h) p'"
      by (rule sole_handler_update [OF assms(2) callback_throws(4)]) (simp_all add: callback_throws(2))
    have "j = i \<Longrightarrow> h1 = h" using callback_throws(4) own by simp
    with sole callback_throws(1,2,5) assms(5) show ?thesis by (auto simp: own_step_def split: if_splits)
  next
    case (destroy j h1)
    have sole: "sole_handler i (if j = i then h1\<lparr>requestDestruction := True\<rparr> else h) p'"
      by (rule sole_handler_update [OF assms(2) destroy(4)]) (simp_all add: destroy(2))
    have "j = i \<Longrightarrow> h1 = h" using destroy(4) own by simp
    with sole destroy(1,2) assms(5) show ?thesis by (auto simp: own_step_def split: if_splits)
  next
    case (join j h1)
    have ne: "j \<noteq> i" using assms(3) join(1) by simp
    have "sole_handler i h p'" by (rule sole_handler_new [where h' = None, OF assms(2) _ ne]) (simp_all add: join(2))
    with join(1,2) assms(5) show ?thesis by (auto simp: own_step_def)
  qed
qed

text \<open>So a run acts on the pair of the handler and the flag as the fold of its events does.\<close>

lemma sole_handler_run:
  "sig_run es p p' \<Longrightarrow> sole_handler i h p \<Longrightarrow> list_all (keeps_sole i (sh_signal h)) es \<Longrightarrow> \<not> killed p' \<Longrightarrow>
   fold (\<lambda>e. own_step e i) es (h, signalRaised p (sh_signal h)) = (h', raised) \<Longrightarrow>
   sole_handler i h' p' \<and> sh_signal h' = sh_signal h \<and> signalRaised p' (sh_signal h) = raised"
proof (induction arbitrary: h rule: sig_run.induct)
  case (stop p)
  then show ?case by auto
next
  case (step e p p1 es p2)
  have alive: "\<not> killed p1"
  proof
    assume "killed p1"
    have "sig_run es q q' \<Longrightarrow> killed q \<Longrightarrow> killed q'" for es q q'
      by (induction rule: sig_run.induct) (auto elim: sig_stepE)
    with step.hyps(2) \<open>killed p1\<close> step.prems(3) show False by blast
  qed
  obtain h1 r1 where own: "own_step e i (h, signalRaised p (sh_signal h)) = (h1, r1)" by fastforce
  have one: "sole_handler i h1 p1 \<and> sh_signal h1 = sh_signal h \<and> signalRaised p1 (sh_signal h) = r1"
    by (rule sole_handler_step [OF step.hyps(1) step.prems(1) _ alive own]) (use step.prems(2) in simp)
  with step.IH [of h1] step.prems own show ?case by simp
qed

subsection \<open>Properties\<close>

lemma own_step_frame:
  "sh_signal (fst (own_step e i hr)) = sh_signal (fst hr) \<and> sh_calls (fst hr) \<le> sh_calls (fst (own_step e i hr))"
  using callOnSignal_frame [of "fst hr" "snd hr" "fst (callOnSignal_step hr)" "snd (callOnSignal_step hr)"]
  by (auto simp: own_step_def split: sig_event.split)

lemma own_run_calls: "sh_calls (fst hr) \<le> sh_calls (fst (fold (\<lambda>e. own_step e i) es hr))"
proof (induction es arbitrary: hr)
  case (Cons e es)
  have "sh_calls (fst hr) \<le> sh_calls (fst (own_step e i hr))" using own_step_frame by blast
  also note Cons.IH [of "own_step e i hr"]
  finally show ?case by simp
qed simp

fun steps_to_call :: "place \<Rightarrow> nat" where
  "steps_to_call AtCheck = 1"
| "steps_to_call AtTest = 2"
| "steps_to_call _ = 3"

lemma answered:
  "sh_place h \<in> {AtTest, AtCheck, Sleeping} \<Longrightarrow> \<not> requestDestruction h \<Longrightarrow> Destroy i \<notin> set es \<Longrightarrow>
   steps_to_call (sh_place h) \<le> count_list es (Run i) \<Longrightarrow>
   sh_calls h < sh_calls (fst (fold (\<lambda>e. own_step e i) es (h, True)))"
proof (induction es arbitrary: h)
  case Nil
  then show ?case by auto
next
  case (Cons e es)
  show ?case
  proof (cases "e = Run i")
    case False
    with Cons.prems have "own_step e i (h, True) = (h, True)"
      by (auto simp: own_step_def split: sig_event.split)
    with Cons.IH [of h] Cons.prems False show ?thesis by simp
  next
    case True
    show ?thesis
    proof (cases "sh_place h = AtCheck")
      case check: True
      with True have step: "own_step e i (h, True) = (h\<lparr>sh_place := InCallback, sh_calls := Suc (sh_calls h)\<rparr>, True)"
        by (simp add: own_step_def callOnSignal_step.simps)
      show ?thesis
        using own_run_calls [of "(h\<lparr>sh_place := InCallback, sh_calls := Suc (sh_calls h)\<rparr>, True)" i es]
        by (simp add: step)
    next
      case wait: False
      let ?q = "if sh_place h = AtTest then AtCheck else AtTest"
      have step: "own_step e i (h, True) = (h\<lparr>sh_place := ?q\<rparr>, True)"
        using True Cons.prems(1,2) wait by (auto simp: own_step_def callOnSignal_step.simps)
      have "sh_calls (h\<lparr>sh_place := ?q\<rparr>) < sh_calls (fst (fold (\<lambda>e. own_step e i) es (h\<lparr>sh_place := ?q\<rparr>, True)))"
        by (rule Cons.IH) (use Cons.prems True wait in auto)
      then show ?thesis by (simp add: step)
    qed
  qed
qed

lemma thread_progress:
  assumes "\<not> killed p" and "handlers p i = Some h"
  shows "\<exists>p' h'. sig_step (Run i) p p' \<and> \<not> killed p' \<and> handlers p' i = Some h'"
proof -
  obtain h' r where "callOnSignal_step (h, signalRaised p (sh_signal h)) = (h', r)" by fastforce
  from sig_step.run [OF assms this] assms(1) show ?thesis by fastforce
qed

definition shutdown_process :: process where
  "shutdown_process =
     \<lparr>signalRaised = (\<lambda>s. s = SIG_TERM), catches = (\<lambda>s. s = SIG_TERM),
      handlers = [0 \<mapsto> new_SignalHandler SIG_TERM], killed = False\<rparr>"

text \<open>A raised flag that the thread will look at counts as one call to come.\<close>

definition calls_to_come :: "SignalHandler \<times> bool \<Rightarrow> nat" where
  "calls_to_come hr = (if snd hr \<and> sh_place (fst hr) \<in> {AtTest, AtCheck, Sleeping} then 1 else 0)"

lemma own_step_bound:
  "sh_calls (fst (own_step e i hr)) + calls_to_come (own_step e i hr)
   \<le> sh_calls (fst hr) + calls_to_come hr + (if e = Deliver (sh_signal (fst hr)) then 1 else 0)"
  by (cases hr) (auto simp: own_step_def calls_to_come_def callOnSignal_step.simps
      split: sig_event.split place.split)

lemma own_run_bound:
  "sh_calls (fst (fold (\<lambda>e. own_step e i) es hr))
   \<le> sh_calls (fst hr) + calls_to_come hr + count_list es (Deliver (sh_signal (fst hr)))"
proof (induction es arbitrary: hr)
  case (Cons e es)
  have "sh_calls (fst (fold (\<lambda>e. own_step e i) es (own_step e i hr)))
      \<le> sh_calls (fst (own_step e i hr)) + calls_to_come (own_step e i hr)
         + count_list es (Deliver (sh_signal (fst (own_step e i hr))))" by (rule Cons.IH)
  then show ?case using own_step_bound [of e i hr] own_step_frame [of e i hr]
    by (auto split: if_splits)
qed simp

text \<open>
  Claim C37: exactly which signals are answered. A signal is raised, and its handler is the only one
  for the signal and is not being destroyed; the threads, the system and other handlers interleave in
  any way, and the thread of the handler makes at least three actions. When the signal was raised
  while the thread was at the test of its loop, at the check of the flag or asleep, the callback has
  then been invoked; and when no further signal came, it was invoked exactly once. A signal that was
  raised while the thread was in the callback, or at the line behind it that clears the flag, or had
  ended by an exception of the callback, is never answered by itself.
\<close>

theorem signal_is_answered:
  assumes "sig_run (Deliver (sh_signal h) # es) p p'" and "sole_handler i h p" and "list_all (keeps_sole i (sh_signal h)) es"
    and "\<not> killed p'" and "\<not> requestDestruction h" and "Destroy i \<notin> set es" and "3 \<le> count_list es (Run i)"
  shows "\<exists>h'. handlers p' i = Some h' \<and>
     (sh_place h \<in> {AtTest, AtCheck, Sleeping} \<longrightarrow> sh_calls h < sh_calls h') \<and>
     (Deliver (sh_signal h) \<notin> set es \<longrightarrow>
        sh_calls h' = sh_calls h + (if sh_place h \<in> {AtTest, AtCheck, Sleeping} then 1 else 0))"
proof -
  let ?es = "Deliver (sh_signal h) # es"
  obtain h' r where f: "fold (\<lambda>e. own_step e i) ?es (h, signalRaised p (sh_signal h)) = (h', r)" by fastforce
  then have raised: "fold (\<lambda>e. own_step e i) es (h, True) = (h', r)" by (simp add: own_step_def)
  have "steps_to_call (sh_place h) \<le> count_list es (Run i)" using assms(7) by (cases "sh_place h") simp_all
  then have live: "sh_calls h < sh_calls h'" if "sh_place h \<in> {AtTest, AtCheck, Sleeping}"
    using answered [OF that assms(5,6)] raised by simp
  have "sh_calls h' \<le> sh_calls h + (if sh_place h \<in> {AtTest, AtCheck, Sleeping} then 1 else 0)"
    if "Deliver (sh_signal h) \<notin> set es"
    using own_run_bound [of i es "(h, True)"] that by (simp add: raised calls_to_come_def count_notin)
  moreover have "sh_calls h \<le> sh_calls h'" using own_run_calls [of "(h, True)" i es] by (simp add: raised)
  moreover have "list_all (keeps_sole i (sh_signal h)) ?es" using assms(3) by simp
  ultimately show ?thesis
    using sole_handler_run [OF assms(1,2) _ assms(4) f] live by (auto dest!: sole_handlerD)
qed

theorem signal_is_answered_witness:
  "\<exists>p' h'. sig_run [Deliver SIG_TERM, Run 0, Run 0, Run 0] shutdown_process p' \<and> handlers p' 0 = Some h' \<and> sh_calls h' = 1"
proof -
  have s: "sig_step (Deliver SIG_TERM) shutdown_process shutdown_process"
    using sig_step.deliver [of shutdown_process SIG_TERM] by (simp add: shutdown_process_def fun_upd_idem)
  have "\<not> killed shutdown_process" "handlers shutdown_process 0 = Some (new_SignalHandler SIG_TERM)"
    by (simp_all add: shutdown_process_def)
  then obtain p1 h1 where 1: "sig_step (Run 0) shutdown_process p1" "\<not> killed p1" "handlers p1 0 = Some h1"
    using thread_progress by blast
  from thread_progress [OF 1(2,3)] obtain p2 h2 where
    2: "sig_step (Run 0) p1 p2" "\<not> killed p2" "handlers p2 0 = Some h2" by blast
  from thread_progress [OF 2(2,3)] obtain p3 h3 where
    3: "sig_step (Run 0) p2 p3" "\<not> killed p3" "handlers p3 0 = Some h3" by blast
  have run: "sig_run (Deliver (sh_signal (new_SignalHandler SIG_TERM)) # [Run 0, Run 0, Run 0]) shutdown_process p3"
    using s 1(1) 2(1) 3(1) by auto
  have "sole_handler 0 (new_SignalHandler SIG_TERM) shutdown_process"
    by (simp add: sole_handler_def shutdown_process_def)
  from signal_is_answered [OF run this _ 3(2)] run show ?thesis by auto
qed

text \<open>
  Claim C38: no signal is answered twice. In every interleaving the only handler of a signal
  invokes its callback at most as often as the signal was raised, one more when the flag was
  already raised at the start.
\<close>

theorem calls_bounded_by_signals:
  assumes "sig_run es p p'" and "sole_handler i h p" and "list_all (keeps_sole i (sh_signal h)) es"
    and "\<not> killed p'"
  shows "\<exists>h'. handlers p' i = Some h' \<and> sh_calls h' \<le> sh_calls h + count_list es (Deliver (sh_signal h))
     + (if signalRaised p (sh_signal h) then 1 else 0)"
proof -
  obtain h' r where f: "fold (\<lambda>e. own_step e i) es (h, signalRaised p (sh_signal h)) = (h', r)" by fastforce
  have "calls_to_come (h, signalRaised p (sh_signal h)) \<le> (if signalRaised p (sh_signal h) then 1 else 0)"
    by (simp add: calls_to_come_def)
  with own_run_bound [of i es "(h, signalRaised p (sh_signal h))"] f
  have "sh_calls h' \<le> sh_calls h + count_list es (Deliver (sh_signal h))
     + (if signalRaised p (sh_signal h) then 1 else 0)" by (auto split: if_splits)
  with sole_handler_run [OF assms f] show ?thesis by (auto dest: sole_handlerD)
qed

theorem calls_bounded_by_signals_witness:
  "\<exists>p' h'. sig_run [Run 0, Run 0] shutdown_process p' \<and> handlers p' 0 = Some h' \<and> sh_calls h' \<le> 1"
proof -
  have "\<not> killed shutdown_process" "handlers shutdown_process 0 = Some (new_SignalHandler SIG_TERM)"
    by (simp_all add: shutdown_process_def)
  then obtain p1 h1 where 1: "sig_step (Run 0) shutdown_process p1" "\<not> killed p1" "handlers p1 0 = Some h1"
    using thread_progress by blast
  from thread_progress [OF 1(2,3)] obtain p2 h2 where
    2: "sig_step (Run 0) p1 p2" "\<not> killed p2" "handlers p2 0 = Some h2" by blast
  have run: "sig_run [Run 0, Run 0] shutdown_process p2" using 1(1) 2(1) by auto
  have "sole_handler 0 (new_SignalHandler SIG_TERM) shutdown_process"
    by (simp add: sole_handler_def shutdown_process_def)
  from calls_bounded_by_signals [OF run this _ 2(2)] run show ?thesis by (auto simp: shutdown_process_def)
qed

lemma quiet_run:
  "Deliver (sh_signal (fst hr)) \<notin> set es \<Longrightarrow> \<not> snd hr \<Longrightarrow>
   sh_calls (fst (fold (\<lambda>e. own_step e i) es hr)) = sh_calls (fst hr)"
  using own_run_bound [of i es hr] own_run_calls [of hr i es]
  by (simp add: calls_to_come_def count_notin)

text \<open>
  A signal that arrives while the callback runs is lost. The thread clears the flag
  behind the callback, so the raised flag is dropped, and without a further signal the callback
  is never invoked again, however long the thread goes on.
\<close>

theorem signal_during_callback_lost:
  assumes "sig_run ([Deliver (sh_signal h), Run i, Run i] @ es) p p'" and "sole_handler i h p"
    and "list_all (keeps_sole i (sh_signal h)) es" and "\<not> killed p'" and "sh_place h = InCallback"
    and "Deliver (sh_signal h) \<notin> set es"
  shows "\<exists>h'. handlers p' i = Some h' \<and> sh_calls h' = sh_calls h"
proof -
  let ?es = "[Deliver (sh_signal h), Run i, Run i] @ es"
  obtain h' r where f: "fold (\<lambda>e. own_step e i) ?es (h, signalRaised p (sh_signal h)) = (h', r)" by fastforce
  have "fold (\<lambda>e. own_step e i) ?es (h, signalRaised p (sh_signal h))
      = fold (\<lambda>e. own_step e i) es (h\<lparr>sh_place := Sleeping\<rparr>, False)"
    using assms(5) by (simp add: own_step_def callOnSignal_step.simps)
  from trans [OF this [symmetric] f] quiet_run [of "(h\<lparr>sh_place := Sleeping\<rparr>, False)" es i] assms(6)
  have "sh_calls h' = sh_calls h" by simp
  moreover have "list_all (keeps_sole i (sh_signal h)) ?es" using assms(3) by simp
  ultimately show ?thesis using sole_handler_run [OF assms(1,2) _ assms(4) f] by (auto dest: sole_handlerD)
qed

definition busy_process :: process where
  "busy_process = shutdown_process
     \<lparr>handlers := [0 \<mapsto> (new_SignalHandler SIG_TERM)\<lparr>sh_place := InCallback, sh_calls := 1\<rparr>]\<rparr>"

theorem signal_during_callback_lost_witness:
  "\<exists>p' h'. sig_run [Deliver SIG_TERM, Run 0, Run 0, Run 0] busy_process p' \<and>
     handlers p' 0 = Some h' \<and> sh_calls h' = 1"
proof -
  let ?h = "(new_SignalHandler SIG_TERM)\<lparr>sh_place := InCallback, sh_calls := 1\<rparr>"
  let ?p0 = "busy_process\<lparr>signalRaised := (signalRaised busy_process)(SIG_TERM := True)\<rparr>"
  have 0: "sig_step (Deliver SIG_TERM) busy_process ?p0"
    by (rule sig_step.deliver) (simp_all add: busy_process_def shutdown_process_def)
  have "\<not> killed ?p0" "handlers ?p0 0 = Some ?h" by (simp_all add: busy_process_def shutdown_process_def)
  then obtain p1 h1 where 1: "sig_step (Run 0) ?p0 p1" "\<not> killed p1" "handlers p1 0 = Some h1"
    using thread_progress by blast
  from thread_progress [OF 1(2,3)] obtain p2 h2 where
    2: "sig_step (Run 0) p1 p2" "\<not> killed p2" "handlers p2 0 = Some h2" by blast
  from thread_progress [OF 2(2,3)] obtain p3 h3 where
    3: "sig_step (Run 0) p2 p3" "\<not> killed p3" "handlers p3 0 = Some h3" by blast
  have run: "sig_run [Deliver SIG_TERM, Run 0, Run 0, Run 0] busy_process p3" using 0 1(1) 2(1) 3(1) by auto
  have "sole_handler 0 ?h busy_process" by (simp add: sole_handler_def busy_process_def)
  from signal_during_callback_lost [of ?h 0 "[Run 0]", OF _ this _ 3(2)] run show ?thesis by auto
qed

text \<open>
  A flag outlives its handler. A signal that is raised when the destructor begins is
  not answered, its flag stays, and the next handler that is made for the signal invokes its
  callback although no signal was raised in its lifetime.
\<close>

theorem stale_signal_fires:
  "\<exists>p h. sig_run [Construct 0 SIG_TERM, Deliver SIG_TERM, Destroy 0, Run 0, Join 0,
        Construct 1 SIG_TERM, Run 1, Run 1] initial_process p
     \<and> handlers p 1 = Some h \<and> sh_calls h = 1 \<and> handlers p 0 = None"
proof -
  let ?h = "new_SignalHandler SIG_TERM"
  let ?d = "?h\<lparr>requestDestruction := True\<rparr>"
  let ?state = "\<lambda>raised caught hs. \<lparr>signalRaised = (\<lambda>s. False)(SIG_TERM := raised),
      catches = (\<lambda>s. False)(SIG_TERM := caught), handlers = hs, killed = False\<rparr>"
  have run: "sig_step (Run i) (?state r c hs) (?state r' c (hs(i \<mapsto> h')))"
    if "hs i = Some h" "sh_signal h = SIG_TERM" "callOnSignal_step (h, r) = (h', r')" for i r r' c hs h h'
    using sig_step.run [of "?state r c hs" i h h' r'] that by simp
  have "sig_step (Construct 0 SIG_TERM) initial_process (?state False True [0 \<mapsto> ?h])"
    using sig_step.construct [of initial_process 0 SIG_TERM] by (simp add: initial_process_def fun_upd_idem)
  moreover have "sig_step (Deliver SIG_TERM) (?state False True [0 \<mapsto> ?h]) (?state True True [0 \<mapsto> ?h])"
    using sig_step.deliver [of "?state False True [0 \<mapsto> ?h]" SIG_TERM] by simp
  moreover have "sig_step (Destroy 0) (?state True True [0 \<mapsto> ?h]) (?state True False [0 \<mapsto> ?d])"
    using sig_step.destroy [of "?state True True [0 \<mapsto> ?h]" 0 ?h] by simp
  moreover have "sig_step (Run 0) (?state True False [0 \<mapsto> ?d]) (?state True False [0 \<mapsto> ?d\<lparr>sh_place := Finished\<rparr>])"
    using run [of "[0 \<mapsto> ?d]" 0 ?d] by (simp add: callOnSignal_step.simps)
  moreover have "sig_step (Join 0) (?state True False [0 \<mapsto> ?d\<lparr>sh_place := Finished\<rparr>]) (?state True False Map.empty)"
    using sig_step.join [of "?state True False [0 \<mapsto> ?d\<lparr>sh_place := Finished\<rparr>]" 0 "?d\<lparr>sh_place := Finished\<rparr>"]
    by simp
  moreover have "sig_step (Construct 1 SIG_TERM) (?state True False Map.empty) (?state True True [1 \<mapsto> ?h])"
    using sig_step.construct [of "?state True False Map.empty" 1 SIG_TERM] by simp
  moreover have "sig_step (Run 1) (?state True True [1 \<mapsto> ?h]) (?state True True [1 \<mapsto> ?h\<lparr>sh_place := AtCheck\<rparr>])"
    using run [of "[1 \<mapsto> ?h]" 1 ?h] by (simp add: callOnSignal_step.simps)
  moreover have "sig_step (Run 1) (?state True True [1 \<mapsto> ?h\<lparr>sh_place := AtCheck\<rparr>])
      (?state True True [1 \<mapsto> ?h\<lparr>sh_place := InCallback, sh_calls := 1\<rparr>])"
    using run [of "[1 \<mapsto> ?h\<lparr>sh_place := AtCheck\<rparr>]" 1 "?h\<lparr>sh_place := AtCheck\<rparr>"]
    by (simp add: callOnSignal_step.simps)
  ultimately have "sig_run [Construct 0 SIG_TERM, Deliver SIG_TERM, Destroy 0, Run 0, Join 0,
      Construct 1 SIG_TERM, Run 1, Run 1] initial_process
      (?state True True [1 \<mapsto> ?h\<lparr>sh_place := InCallback, sh_calls := 1\<rparr>])"
    unfolding sig_run_simps by blast
  then show ?thesis
    by (intro exI [of _ "?state True True [1 \<mapsto> ?h\<lparr>sh_place := InCallback, sh_calls := 1\<rparr>]"]
        exI [of _ "?h\<lparr>sh_place := InCallback, sh_calls := 1\<rparr>"]) simp
qed

end
