(* ===== verification/Mse_Shutdown.thy ===== *)
theory Mse_Shutdown
  imports Mse_Hook_Rules Mse_Signal_Handler
begin

text \<open>
  \<open>cross-cutting-concerns/graceful-shutdown\<close> and \<open>handler\<close>: the singleton with the named callbacks
  for a shutdown, and the handlers, which register their \<open>Stop\<close> under their name while they
  live. Function objects are kept by name (\<open>'c\<close>; for a handler it is its address), and \<open>call\<close>
  is what calling one does. The singleton is the first component of the application state.
\<close>

subsection \<open>The registry\<close>

record 'c GracefulShutdown =
  callbacks :: "string \<rightharpoonup> 'c"
  isShutdownRequested :: bool

definition initial_shutdown :: "'c GracefulShutdown" where
  "initial_shutdown = \<lparr>callbacks = Map.empty, isShutdownRequested = False\<rparr>"

definition GracefulShutdown_Register :: "string \<Rightarrow> 'c \<Rightarrow> ('c GracefulShutdown, unit) comp" where
  "GracefulShutdown_Register cb_id shutdown_callback =
     bindC (getC (\<lambda>s. callbacks s cb_id)) (\<lambda>old.
       if old \<noteq> None then
         throw (RuntimeError (''unable to register shutdown callback for '' @ cb_id @ '' : id already exists.''))
       else modifyC (\<lambda>s. s\<lparr>callbacks := (callbacks s)(cb_id \<mapsto> shutdown_callback)\<rparr>))"

definition GracefulShutdown_UnRegister :: "string \<Rightarrow> ('c GracefulShutdown, unit) comp" where
  "GracefulShutdown_UnRegister cb_id = modifyC (\<lambda>s. s\<lparr>callbacks := (callbacks s)(cb_id := None)\<rparr>)"

definition GracefulShutdown_IsShutdownRequested :: "('c GracefulShutdown, bool) comp" where
  "GracefulShutdown_IsShutdownRequested = getC isShutdownRequested"

subsection \<open>Requesting a shutdown\<close>

type_synonym ('c, 'u) shutdown_world = "('c GracefulShutdown \<times> 'u) world"

definition shutdown_log :: "int \<Rightarrow> LogLevel \<Rightarrow> string \<Rightarrow> ('u world, unit) comp" where
  "shutdown_log line level message = mse_log ''graceful-shutdown.cpp'' ''RequestShutdown'' line level message"

text \<open>
  The loop over the map visits its keys in the order the implementation of \<open>unordered_map\<close>
  chose, given as \<open>order\<close>. A callback that removes an element which the loop has still to visit
  leaves the iterator dangling.
\<close>

primrec inform_callbacks ::
    "('c \<Rightarrow> (('c, 'u) shutdown_world, unit) comp) \<Rightarrow> string list \<Rightarrow> (('c, 'u) shutdown_world, unit) comp" where
  "inform_callbacks call [] = ret ()"
| "inform_callbacks call (cb_id # order) =
     bindC (getC (\<lambda>w. callbacks (fst (app w)) cb_id)) (\<lambda>cb.
       case cb of
         None \<Rightarrow> undefined_behaviour
       | Some c \<Rightarrow>
           thenC (shutdown_log 45 LL_trace (''informing '' @ cb_id @ '' about shutdown.''))
           (thenC (call c) (inform_callbacks call order)))"

definition RequestShutdown ::
    "('c \<Rightarrow> (('c, 'u) shutdown_world, unit) comp) \<Rightarrow> string list \<Rightarrow> (('c, 'u) shutdown_world, unit) comp" where
  "RequestShutdown call order =
     thenC (shutdown_log 41 LL_info ''shutting down service...'')
     (thenC (modifyC (\<lambda>w. w\<lparr>app := ((fst (app w))\<lparr>isShutdownRequested := True\<rparr>, snd (app w))\<rparr>))
     (thenC (inform_callbacks call order)
            (shutdown_log 48 LL_info ''...all registered components informed about shutdown.'')))"

text \<open>\<open>GracefulShutdownOnSignal\<close> makes a signal handler whose callback is \<open>RequestShutdown\<close>.\<close>

definition GracefulShutdownOnSignal :: "nat \<Rightarrow> Signal \<Rightarrow> sig_event" where
  "GracefulShutdownOnSignal signalHandler signal = Construct signalHandler signal"

subsection \<open>Handlers\<close>

text \<open>\<open>live\<close>: the name of each living handler by its address. A constructor that throws makes none.\<close>

definition Handler_construct ::
    "nat \<Rightarrow> string \<Rightarrow> (nat GracefulShutdown \<times> (nat \<rightharpoonup> string), unit) comp" where
  "Handler_construct this name =
     thenC (zoomC fst (\<lambda>s (_, live). (s, live)) (GracefulShutdown_Register name this))
           (modifyC (\<lambda>(s, live). (s, live(this \<mapsto> name))))"

definition Handler_destroy :: "nat \<Rightarrow> (nat GracefulShutdown \<times> (nat \<rightharpoonup> string), unit) comp" where
  "Handler_destroy this =
     bindC (getC (\<lambda>(s, live). live this)) (\<lambda>name.
       case name of
         None \<Rightarrow> undefined_behaviour
       | Some name \<Rightarrow>
           thenC (zoomC fst (\<lambda>s (_, live). (s, live)) (GracefulShutdown_UnRegister name))
                 (modifyC (\<lambda>(s, live). (s, live(this := None)))))"

text \<open>The states that making and deleting handlers leads to; a new object is at a free address.\<close>

inductive handlers_reachable :: "nat GracefulShutdown \<times> (nat \<rightharpoonup> string) \<Rightarrow> bool" where
  start: "handlers_reachable (initial_shutdown, Map.empty)"
| make: "handlers_reachable (s, live) \<Longrightarrow> live this = None \<Longrightarrow>
    Handler_construct this name (s, live) = Some (r, s') \<Longrightarrow> handlers_reachable s'"
| delete: "handlers_reachable s \<Longrightarrow> Handler_destroy this s = Some (r, s') \<Longrightarrow> handlers_reachable s'"

subsection \<open>Properties\<close>

lemma Handler_construct_run:
  "Handler_construct this name (s, live) = Some
     (if callbacks s name \<noteq> None
      then (Inl (RuntimeError (''unable to register shutdown callback for '' @ name @ '' : id already exists.'')), (s, live))
      else (Inr (), (s\<lparr>callbacks := (callbacks s)(name \<mapsto> this)\<rparr>, live(this \<mapsto> name))))"
  by (simp add: Handler_construct_def GracefulShutdown_Register_def zoomC_def comp_simps thenC_def bindC_def)

lemma Handler_destroy_run:
  "live this = Some name \<Longrightarrow> Handler_destroy this (s, live) =
     Some (Inr (), (s\<lparr>callbacks := (callbacks s)(name := None)\<rparr>, live(this := None)))"
  by (simp add: Handler_destroy_def GracefulShutdown_UnRegister_def zoomC_def comp_simps)

lemma Handler_destroy_live:
  "Handler_destroy this (s, live) = Some (r, s') \<Longrightarrow> \<exists>name. live this = Some name"
  by (cases "live this") (simp_all add: Handler_destroy_def comp_simps)

text \<open>
  Claim C39: while handlers are made and deleted in any order, the registry has exactly the
  handlers that live, each under its own name: a shutdown reaches every living handler and
  never one that is gone, and a second handler of a name is refused.
\<close>

theorem registry_is_live_handlers:
  assumes "handlers_reachable (s, live)"
  shows "callbacks s name = Some this \<longleftrightarrow> live this = Some name"
  using assms
proof (induction "(s, live)" arbitrary: s live name this rule: handlers_reachable.induct)
  case start
  then show ?case by (simp add: initial_shutdown_def)
next
  case (make s0 live0 this0 name0 r s1)
  then show ?case by (auto simp: Handler_construct_run split: if_splits)
next
  case (delete s0 this0 r s1)
  obtain s2 live2 where s0: "s0 = (s2, live2)" by (cases s0)
  with delete(3) obtain name0 where n: "live2 this0 = Some name0" using Handler_destroy_live by blast
  from delete(2) s0 have ih: "\<And>name this. callbacks s2 name = Some this \<longleftrightarrow> live2 this = Some name" by blast
  from delete(3) s0 n have "s1 = s2\<lparr>callbacks := (callbacks s2)(name0 := None)\<rparr>" "live = live2(this0 := None)"
    by (simp_all add: Handler_destroy_run)
  moreover have "live2 this = Some name0 \<longleftrightarrow> this = this0"
  proof
    assume "live2 this = Some name0"
    with ih have "callbacks s2 name0 = Some this" by blast
    moreover from n ih have "callbacks s2 name0 = Some this0" by blast
    ultimately show "this = this0" by simp
  qed (simp add: n)
  ultimately show ?case using ih [of name this] n by (cases "this = this0"; cases "name = name0") simp_all
qed

theorem registry_is_live_handlers_witness:
  "\<exists>s. handlers_reachable (s, [7 \<mapsto> ''http'']) \<and> callbacks s ''http'' = Some 7"
proof -
  have "handlers_reachable (initial_shutdown\<lparr>callbacks := (callbacks initial_shutdown)(''http'' \<mapsto> 7)\<rparr>, [7 \<mapsto> ''http''])"
    by (rule handlers_reachable.make [OF handlers_reachable.start, of 7 "''http''" "Inr ()"])
      (simp_all add: Handler_construct_run initial_shutdown_def)
  with registry_is_live_handlers [OF this, of "''http''" 7] show ?thesis by auto
qed


subsection \<open>A shutdown\<close>

text \<open>
  The calls of a shutdown on callbacks of which the \<open>bad\<close> ones throw: in order, up to and with
  the first bad one, whose exception is the outcome. \<open>callback_does\<close> is what such a callback
  does: it notes its call behind the earlier ones and leaves the registry as it is.
\<close>

primrec informed :: "('c \<Rightarrow> bool) \<Rightarrow> 'c list \<Rightarrow> 'c list" where
  "informed bad [] = []"
| "informed bad (c # cs) = c # (if bad c then [] else informed bad cs)"

primrec shutdown_outcome :: "('c \<Rightarrow> exn option) \<Rightarrow> 'c list \<Rightarrow> exn + unit" where
  "shutdown_outcome err [] = Inr ()"
| "shutdown_outcome err (c # cs) = (case err c of Some e \<Rightarrow> Inl e | None \<Rightarrow> shutdown_outcome err cs)"

definition callback_does ::
    "('c \<Rightarrow> exn option) \<Rightarrow> nat \<Rightarrow> ('c \<Rightarrow> (('c, 'c list) shutdown_world, unit) comp) \<Rightarrow> bool" where
  "callback_does err n call \<longleftrightarrow> (\<forall>c m u. hoare (\<lambda>w. stack_ok n w \<and> app w = (m, u)) (call c)
     (\<lambda>r w. r = (case err c of Some e \<Rightarrow> Inl e | None \<Rightarrow> Inr ()) \<and> stack_ok n w \<and> app w = (m, u @ [c])))"

lemma hoare_shutdown_log:
  assumes "level \<noteq> LL_invalid"
  shows "hoare (\<lambda>w. stack_ok n w \<and> app w = x) (shutdown_log line level message)
    (\<lambda>r w. r = Inr () \<and> stack_ok n w \<and> app w = x)"
proof (rule hoareI)
  fix w :: "'a world" assume w: "stack_ok n w \<and> app w = x"
  from w have "world_ok w" by (blast intro: stack_ok_world)
  from mse_log_run [OF this assms] obtain out where
    "shutdown_log line level message w = Some (Inr (), w\<lparr>console := console w @ out\<rparr>)"
    unfolding shutdown_log_def by blast
  with w show "\<exists>r w'. shutdown_log line level message w = Some (r, w') \<and> r = Inr () \<and> stack_ok n w' \<and> app w' = x"
    by simp
qed

lemma hoare_inform_callbacks:
  assumes "callback_does err n call" and "set order \<subseteq> dom (callbacks m)"
  shows "hoare (\<lambda>w. stack_ok n w \<and> app w = (m, u)) (inform_callbacks call order)
    (\<lambda>r w. r = shutdown_outcome err (map (the \<circ> callbacks m) order) \<and> stack_ok n w
       \<and> app w = (m, u @ informed (\<lambda>c. err c \<noteq> None) (map (the \<circ> callbacks m) order)))"
  using assms(2)
proof (induction order arbitrary: u)
  case Nil
  show ?case by (simp add: hoare_ret)
next
  case (Cons i order)
  then obtain c where c: "callbacks m i = Some c" by auto
  have tl: "hoare (\<lambda>w. stack_ok n w \<and> app w = (m, u')) (inform_callbacks call order)
    (\<lambda>r w. r = shutdown_outcome err (map (the \<circ> callbacks m) order) \<and> stack_ok n w
       \<and> app w = (m, u' @ informed (\<lambda>c. err c \<noteq> None) (map (the \<circ> callbacks m) order)))" for u'
    by (rule Cons.IH) (use Cons.prems in simp)
  have one: "hoare (\<lambda>w. stack_ok n w \<and> app w = (m, u)) (call c)
     (\<lambda>r w. r = (case err c of Some e \<Rightarrow> Inl e | None \<Rightarrow> Inr ()) \<and> stack_ok n w \<and> app w = (m, u @ [c]))"
    using assms(1) by (simp add: callback_does_def)
  have both: "hoare (\<lambda>w. stack_ok n w \<and> app w = (m, u)) (thenC (call c) (inform_callbacks call order))
    (\<lambda>r w. r = shutdown_outcome err (c # map (the \<circ> callbacks m) order) \<and> stack_ok n w
       \<and> app w = (m, u @ informed (\<lambda>c. err c \<noteq> None) (c # map (the \<circ> callbacks m) order)))"
  proof (rule hoare_thenC [OF one])
    show "hoare (\<lambda>w. Inr x = (case err c of Some e \<Rightarrow> Inl e | None \<Rightarrow> Inr ()) \<and> stack_ok n w \<and> app w = (m, u @ [c]))
      (inform_callbacks call order)
      (\<lambda>r w. r = shutdown_outcome err (c # map (the \<circ> callbacks m) order) \<and> stack_ok n w
       \<and> app w = (m, u @ informed (\<lambda>c. err c \<noteq> None) (c # map (the \<circ> callbacks m) order)))" for x
      using tl [of "u @ [c]"] by (cases "err c") (simp_all add: hoare_def)
  qed (auto split: option.splits)
  have log: "hoare (\<lambda>w. stack_ok n w \<and> app w = (m, u))
      (thenC (shutdown_log 45 LL_trace (''informing '' @ i @ '' about shutdown.''))
        (thenC (call c) (inform_callbacks call order)))
    (\<lambda>r w. r = shutdown_outcome err (c # map (the \<circ> callbacks m) order) \<and> stack_ok n w
       \<and> app w = (m, u @ informed (\<lambda>c. err c \<noteq> None) (c # map (the \<circ> callbacks m) order)))"
    by (rule hoare_thenC [OF hoare_shutdown_log hoare_strengthen [OF both]]) simp_all
  show ?case
  proof (rule hoareI)
    fix w assume w: "stack_ok n w \<and> app w = (m, u)"
    from c w have step: "inform_callbacks call (i # order) w =
      thenC (shutdown_log 45 LL_trace (''informing '' @ i @ '' about shutdown.''))
        (thenC (call c) (inform_callbacks call order)) w"
      by (simp add: bindC_def getC_def)
    have all: "map (the \<circ> callbacks m) (i # order) = c # map (the \<circ> callbacks m) order" by (simp add: c)
    show "\<exists>r w'. inform_callbacks call (i # order) w = Some (r, w')
      \<and> r = shutdown_outcome err (map (the \<circ> callbacks m) (i # order)) \<and> stack_ok n w'
      \<and> app w' = (m, u @ informed (\<lambda>c. err c \<noteq> None) (map (the \<circ> callbacks m) (i # order)))"
      unfolding step all by (rule hoareE [OF log w]) blast
  qed
qed


text \<open>
  Claim C40: \<open>RequestShutdown\<close> raises the flag and then calls each registered callback once, in the
  order of the map, up to the first one that throws: its exception leaves \<open>RequestShutdown\<close>, and
  the callbacks behind it are not told of the shutdown. Without such a callback all are.
\<close>

theorem shutdown_informs_in_order:
  assumes "callback_does err n call" and "set order \<subseteq> dom (callbacks m)"
    and "stack_ok n w" and "app w = (m, [])"
  shows "\<exists>w'. RequestShutdown call order w = Some (shutdown_outcome err (map (the \<circ> callbacks m) order), w')
    \<and> stack_ok n w'
    \<and> app w' = (m\<lparr>isShutdownRequested := True\<rparr>, informed (\<lambda>c. err c \<noteq> None) (map (the \<circ> callbacks m) order))"
proof -
  let ?m = "m\<lparr>isShutdownRequested := True\<rparr>"
  let ?cs = "map (the \<circ> callbacks m) order"
  let ?told = "\<lambda>w. stack_ok n w \<and> app w = (?m, informed (\<lambda>c. err c \<noteq> None) ?cs)"
  have flag: "hoare (\<lambda>w. stack_ok n w \<and> app w = (m, []))
      (modifyC (\<lambda>w. w\<lparr>app := ((fst (app w))\<lparr>isShutdownRequested := True\<rparr>, snd (app w))\<rparr>))
      (\<lambda>r w. r = Inr () \<and> stack_ok n w \<and> app w = (?m, []))"
    by (simp add: hoare_def modifyC_apply)
  have "set order \<subseteq> dom (callbacks ?m)" using assms(2) by simp
  from hoare_inform_callbacks [OF assms(1) this, of "[]"]
  have inform: "hoare (\<lambda>w. stack_ok n w \<and> app w = (?m, [])) (inform_callbacks call order)
      (\<lambda>r w. r = shutdown_outcome err ?cs \<and> ?told w)" by simp
  have last: "hoare (\<lambda>w. Inr x = shutdown_outcome err ?cs \<and> ?told w)
      (shutdown_log 48 LL_info ''...all registered components informed about shutdown.'')
      (\<lambda>r w. r = shutdown_outcome err ?cs \<and> ?told w)" for x
  proof (cases "Inr () = shutdown_outcome err ?cs")
    case True
    show ?thesis unfolding True [symmetric]
      by (rule hoare_weaken [OF hoare_strengthen [OF hoare_shutdown_log [where n = n]]]) auto
  qed (simp add: hoare_def)
  have "hoare (\<lambda>w. stack_ok n w \<and> app w = (m, [])) (RequestShutdown call order)
      (\<lambda>r w. r = shutdown_outcome err ?cs \<and> ?told w)"
    unfolding RequestShutdown_def
    by (rule hoare_thenC [OF hoare_shutdown_log hoare_strengthen [OF hoare_thenC [OF flag
          hoare_strengthen [OF hoare_thenC [OF inform last]]]]]) simp_all
  moreover have "stack_ok n w \<and> app w = (m, [])" using assms(3,4) by simp
  ultimately show ?thesis by (rule hoareE) blast
qed

text \<open>A service whose server fails to stop: the client is never told.\<close>

definition example_stop :: "nat \<Rightarrow> ((nat, nat list) shutdown_world, unit) comp" where
  "example_stop c =
     thenC (modifyC (\<lambda>w. w\<lparr>app := (fst (app w), snd (app w) @ [c])\<rparr>))
       (if c = 8 then throw (RuntimeError ''stop'') else ret ())"

theorem shutdown_informs_in_order_witness:
  "\<exists>w'. RequestShutdown example_stop [''grpc'', ''http'', ''client'']
      (initial_world (\<lparr>callbacks = [''grpc'' \<mapsto> 7, ''http'' \<mapsto> 8, ''client'' \<mapsto> 9], isShutdownRequested = False\<rparr>, []))
      = Some (Inl (RuntimeError ''stop''), w')
    \<and> snd (app w') = [7, 8]"
proof -
  let ?m = "\<lparr>callbacks = [''grpc'' \<mapsto> 7::nat, ''http'' \<mapsto> 8, ''client'' \<mapsto> 9], isShutdownRequested = False\<rparr>"
  have "callback_does (\<lambda>c. if c = 8 then Some (RuntimeError ''stop'') else None) 2 example_stop"
    by (simp add: callback_does_def example_stop_def hoare_def comp_simps)
  from shutdown_informs_in_order [OF this, of "[''grpc'', ''http'', ''client'']" ?m "initial_world (?m, [])"]
  show ?thesis by auto
qed

end
