(* ===== verification/Mse_Regex.thy ===== *)
theory Mse_Regex
  imports Mse_Prelude
begin

text \<open>
  \<open>std::regex_match\<close> for the expressions of the code: a backtracking matcher of ECMAScript
  expressions built from character classes, literal text, greedy repetitions of a class,
  optional parts and capture groups. The matcher takes the first way that matches the whole
  string: a repetition tries the longest run first, an optional part is tried before it is left out.
\<close>

datatype regex =
    Chars "char \<Rightarrow> bool"
  | Text string
  | Many "char \<Rightarrow> bool"
  | Concat regex regex
  | Maybe regex
  | Group nat regex

abbreviation At_least_one :: "(char \<Rightarrow> bool) \<Rightarrow> regex" where
  "At_least_one p \<equiv> Concat (Chars p) (Many p)"

text \<open>The class of the dot: every character but the line terminators.\<close>

definition regex_dot :: "char \<Rightarrow> bool" where
  "regex_dot c \<longleftrightarrow> c \<noteq> CHR 0x0A \<and> c \<noteq> CHR 0x0D"

type_synonym captures = "nat \<rightharpoonup> string"

subsection \<open>The matcher\<close>

text \<open>The continuation \<open>k\<close> is the match of what follows, on the rest of the string.\<close>

primrec run_many ::
    "(char \<Rightarrow> bool) \<Rightarrow> (string \<Rightarrow> captures \<Rightarrow> captures option) \<Rightarrow> string \<Rightarrow> captures \<Rightarrow> captures option" where
  "run_many p k [] cs = k [] cs"
| "run_many p k (c # s) cs =
     (if p c then (case run_many p k s cs of Some out \<Rightarrow> Some out | None \<Rightarrow> k (c # s) cs) else k (c # s) cs)"

primrec regex_run ::
    "regex \<Rightarrow> (string \<Rightarrow> captures \<Rightarrow> captures option) \<Rightarrow> string \<Rightarrow> captures \<Rightarrow> captures option" where
  "regex_run (Chars p) k s cs = (case s of [] \<Rightarrow> None | c # s' \<Rightarrow> if p c then k s' cs else None)"
| "regex_run (Text t) k s cs = (if take (length t) s = t then k (drop (length t) s) cs else None)"
| "regex_run (Many p) k s cs = run_many p k s cs"
| "regex_run (Concat a b) k s cs = regex_run a (regex_run b k) s cs"
| "regex_run (Maybe a) k s cs = (case regex_run a k s cs of Some out \<Rightarrow> Some out | None \<Rightarrow> k s cs)"
| "regex_run (Group n a) k s cs =
     regex_run a (\<lambda>s' cs'. k s' (cs'(n \<mapsto> take (length s - length s') s))) s cs"

definition at_end :: "string \<Rightarrow> captures \<Rightarrow> captures option" where
  "at_end s cs = (if s = [] then Some cs else None)"

definition regex_match :: "regex \<Rightarrow> string \<Rightarrow> captures option" where
  "regex_match r s = regex_run r at_end s Map.empty"

text \<open>A sub match as a string: that of a group that took no part is empty.\<close>

definition sub_match :: "captures \<Rightarrow> nat \<Rightarrow> string" where
  "sub_match cs n = (case cs n of Some s \<Rightarrow> s | None \<Rightarrow> [])"

subsection \<open>The language\<close>

text \<open>\<open>regex_matches r x cs cs'\<close>: the text \<open>x\<close> matches, and its captures take \<open>cs\<close> to \<open>cs'\<close>.\<close>

inductive regex_matches :: "regex \<Rightarrow> string \<Rightarrow> captures \<Rightarrow> captures \<Rightarrow> bool" where
  chars: "p c \<Longrightarrow> regex_matches (Chars p) [c] cs cs"
| literal: "regex_matches (Text t) t cs cs"
| many: "list_all p x \<Longrightarrow> regex_matches (Many p) x cs cs"
| concat: "regex_matches a x cs cs1 \<Longrightarrow> regex_matches b y cs1 cs2 \<Longrightarrow> regex_matches (Concat a b) (x @ y) cs cs2"
| left_out: "regex_matches (Maybe a) [] cs cs"
| taken: "regex_matches a x cs cs1 \<Longrightarrow> regex_matches (Maybe a) x cs cs1"
| group: "regex_matches a x cs cs1 \<Longrightarrow> regex_matches (Group n a) x cs (cs1(n \<mapsto> x))"

inductive_cases regex_matchesE:
  "regex_matches (Chars p) x cs cs'"
  "regex_matches (Text t) x cs cs'"
  "regex_matches (Many p) x cs cs'"
  "regex_matches (Concat a b) x cs cs'"
  "regex_matches (Maybe a) x cs cs'"
  "regex_matches (Group n a) x cs cs'"

lemma run_many_sound:
  "run_many p k s cs = Some out \<Longrightarrow> \<exists>x y. s = x @ y \<and> list_all p x \<and> k y cs = Some out"
proof (induction s)
  case (Cons c s)
  show ?case
  proof (cases "p c \<and> run_many p k s cs \<noteq> None")
    case True
    with Cons obtain x y where "s = x @ y" "list_all p x" "k y cs = Some out" by auto
    with True show ?thesis by (intro exI [of _ "c # x"] exI [of _ y]) simp
  next
    case False
    with Cons.prems have "k (c # s) cs = Some out" by (auto split: if_splits)
    then show ?thesis by (intro exI [of _ "[]"] exI [of _ "c # s"]) simp
  qed
qed simp

lemma run_many_complete: "list_all p x \<Longrightarrow> k y cs \<noteq> None \<Longrightarrow> run_many p k (x @ y) cs \<noteq> None"
proof (induction x)
  case Nil
  then show ?case by (cases y) (auto split: option.split)
qed (auto split: option.split)

text \<open>The matcher finds matches only, and finds one when there is one.\<close>

theorem regex_run_sound:
  "regex_run r k s cs = Some out \<Longrightarrow> \<exists>x y cs'. s = x @ y \<and> regex_matches r x cs cs' \<and> k y cs' = Some out"
proof (induction r arbitrary: k s cs)
  case (Chars p)
  then obtain c s' where "s = [c] @ s'" "p c" "k s' cs = Some out" by (auto split: list.splits if_splits)
  then show ?case by (blast intro: regex_matches.chars)
next
  case (Text t)
  then have "s = t @ drop (length t) s" "k (drop (length t) s) cs = Some out"
    by (auto split: if_splits) (metis append_take_drop_id)
  then show ?case by (blast intro: regex_matches.literal)
next
  case (Many p)
  then show ?case using run_many_sound [of p k s cs out] by (auto intro: regex_matches.many)
next
  case (Concat a b)
  from Concat.prems have "regex_run a (regex_run b k) s cs = Some out" by simp
  from Concat.IH(1) [OF this] obtain x z cs1 where
    1: "s = x @ z" "regex_matches a x cs cs1" "regex_run b k z cs1 = Some out" by blast
  from Concat.IH(2) [OF 1(3)] obtain y rest cs2 where
    "z = y @ rest" "regex_matches b y cs1 cs2" "k rest cs2 = Some out" by blast
  with 1 have "s = (x @ y) @ rest \<and> regex_matches (Concat a b) (x @ y) cs cs2 \<and> k rest cs2 = Some out"
    by (auto intro: regex_matches.concat)
  then show ?case by blast
next
  case (Maybe a)
  show ?case
  proof (cases "regex_run a k s cs")
    case None
    with Maybe.prems have "s = [] @ s \<and> regex_matches (Maybe a) [] cs cs \<and> k s cs = Some out"
      by (auto intro: regex_matches.left_out)
    then show ?thesis by blast
  next
    case (Some out')
    with Maybe.prems have "regex_run a k s cs = Some out" by simp
    from Maybe.IH [OF this] show ?thesis by (blast intro: regex_matches.taken)
  qed
next
  case (Group n a)
  let ?k = "\<lambda>s' cs'. k s' (cs'(n \<mapsto> take (length s - length s') s))"
  from Group.prems have "regex_run a ?k s cs = Some out" by simp
  from Group.IH [OF this] obtain x y cs1 where
    m: "s = x @ y" "regex_matches a x cs cs1" "?k y cs1 = Some out" by blast
  from m(1,3) have "k y (cs1(n \<mapsto> x)) = Some out" by simp
  with m(1,2) show ?case by (blast intro: regex_matches.group)
qed

theorem regex_run_complete:
  "regex_matches r x cs cs' \<Longrightarrow> k y cs' \<noteq> None \<Longrightarrow> regex_run r k (x @ y) cs \<noteq> None"
proof (induction arbitrary: k y rule: regex_matches.induct)
  case (many p x cs)
  then show ?case using run_many_complete [of p x k y cs] by simp
next
  case (concat a x cs cs1 b y' cs2)
  have "regex_run b k (y' @ y) cs1 \<noteq> None" by (rule concat.IH(2)) (rule concat.prems)
  then show ?case using concat.IH(1) [where k = "regex_run b k" and y = "y' @ y"] by simp
next
  case (taken a x cs cs1)
  have "regex_run a k (x @ y) cs \<noteq> None" by (rule taken.IH) (rule taken.prems)
  then show ?case by auto
qed (auto split: option.split)

lemma regex_match_sound: "regex_match r s = Some cs \<Longrightarrow> regex_matches r s Map.empty cs"
  unfolding regex_match_def by (drule regex_run_sound) (auto simp: at_end_def split: if_splits)

lemma regex_match_decides: "regex_match r s \<noteq> None \<longleftrightarrow> (\<exists>cs. regex_matches r s Map.empty cs)"
proof
  assume "regex_match r s \<noteq> None"
  then show "\<exists>cs. regex_matches r s Map.empty cs" using regex_match_sound by blast
next
  assume "\<exists>cs. regex_matches r s Map.empty cs"
  then obtain cs where "regex_matches r s Map.empty cs" by blast
  from regex_run_complete [OF this, of at_end "[]"] show "regex_match r s \<noteq> None"
    by (simp add: regex_match_def at_end_def)
qed

subsection \<open>Which match is found\<close>

lemma run_many_None: "(\<And>x y. s = x @ y \<Longrightarrow> k y cs = None) \<Longrightarrow> run_many p k s cs = None"
  using run_many_sound [of p k s cs] by (cases "run_many p k s cs") auto

text \<open>A repetition stops where nothing longer leads to a match.\<close>

lemma run_many_stops:
  assumes "list_all p x" and "k y cs = Some out"
    and "\<And>u v. y = u @ v \<Longrightarrow> u \<noteq> [] \<Longrightarrow> list_all p u \<Longrightarrow> k v cs = None"
  shows "run_many p k (x @ y) cs = Some out"
  using assms(1)
proof (induction x)
  case Nil
  have "run_many p k y cs = Some out"
  proof (cases y)
    case (Cons c s)
    have "run_many p k s cs = None" if "p c"
    proof (rule ccontr)
      assume "run_many p k s cs \<noteq> None"
      then obtain out' where "run_many p k s cs = Some out'" by blast
      from run_many_sound [OF this] obtain u v where "s = u @ v" "list_all p u" "k v cs = Some out'" by blast
      with assms(3) [of "c # u" v] Cons that show False by simp
    qed
    with assms(2) Cons show ?thesis by simp
  qed (use assms(2) in simp)
  then show ?case by simp
qed simp

lemma run_many_longest:
  assumes "list_all p x" and "y = [] \<or> \<not> p (hd y)" and "k y cs = Some out"
  shows "run_many p k (x @ y) cs = Some out"
proof (rule run_many_stops, rule assms(1), rule assms(3))
  fix u v assume "y = u @ v" "u \<noteq> []" "list_all p u"
  with assms(2) show "k v cs = None" by (cases u) simp_all
qed

lemma take_prefix [simp]: "take (length (x @ y) - length y) (x @ y) = x"
  by simp

end
