(* ===== verification/Mse_Url.thy ===== *)
theory Mse_Url
  imports Mse_Effects Mse_Regex "HOL-Library.Word" "HOL-Library.Sublist"
begin

text \<open>
  \<open>utilities/url\<close>: printing a URL from its components, parsing one with a regular expression of 14
  groups (\<open>Mse_Regex\<close>), and its port.
\<close>

record Url =
  url_scheme :: string
  url_userinfo :: string
  url_host :: string
  url_port :: string
  url_path :: string
  url_query :: string
  url_fragment :: string

definition empty_Url :: Url where
  "empty_Url = \<lparr>url_scheme = [], url_userinfo = [], url_host = [], url_port = [], url_path = [],
     url_query = [], url_fragment = []\<rparr>"

definition GetConnectionString :: "Url \<Rightarrow> string" where
  "GetConnectionString u =
     (let connection_string = url_host u;
          connection_string =
            (if url_userinfo u \<noteq> [] then url_userinfo u @ ''@'' @ connection_string else connection_string);
          connection_string =
            (if url_scheme u \<noteq> [] then url_scheme u @ ''://'' @ connection_string else connection_string)
      in if url_port u \<noteq> [] then connection_string @ '':'' @ url_port u else connection_string)"

definition GetWholePath :: "Url \<Rightarrow> string" where
  "GetWholePath u =
     (let whole_path = ''/'';
          whole_path = (if url_path u \<noteq> [] then whole_path @ url_path u else whole_path);
          whole_path = (if url_query u \<noteq> [] then whole_path @ ''?'' @ url_query u else whole_path)
      in if url_fragment u \<noteq> [] then whole_path @ ''#'' @ url_fragment u else whole_path)"

definition GetString :: "Url \<Rightarrow> string" where
  "GetString u = GetConnectionString u @ GetWholePath u"

text \<open>
  \<open>std::stoi\<close>: a text without a number is an invalid argument, and what does not fit an \<open>int\<close> is out
  of range. Its result converts to 32 unsigned bits.
\<close>

definition stoi :: "string \<Rightarrow> exn + int" where
  "stoi s =
     (case leading_int (c_str s) of
        None \<Rightarrow> Inl (InvalidArgument ''stoi'')
      | Some i \<Rightarrow> if i < - (2 ^ 31) \<or> 2 ^ 31 \<le> i then Inl (OutOfRange ''stoi'') else Inr i)"

definition GetPort :: "Url \<Rightarrow> exn + 32 word option" where
  "GetPort u =
     (if url_port u = [] then Inr None
      else case stoi (url_port u) of Inl e \<Rightarrow> Inl e | Inr i \<Rightarrow> Inr (Some (word_of_int i)))"

subsection \<open>Parsing\<close>

text \<open>
  The expression \<^verbatim>\<open>((.*)(:\/\/))?((.+)@)?([^\/\?#:]+)(\:(\d+))?(\/([^\?#]*))?(\?([^#]+))?(#(.+))?\<close>,
  part by part.
\<close>

definition host_char :: "char \<Rightarrow> bool" where
  "host_char c \<longleftrightarrow> c \<noteq> CHR ''/'' \<and> c \<noteq> CHR ''?'' \<and> c \<noteq> CHR ''#'' \<and> c \<noteq> CHR '':''"

definition path_char :: "char \<Rightarrow> bool" where
  "path_char c \<longleftrightarrow> c \<noteq> CHR ''?'' \<and> c \<noteq> CHR ''#''"

definition query_char :: "char \<Rightarrow> bool" where
  "query_char c \<longleftrightarrow> c \<noteq> CHR ''#''"

definition scheme_regex :: regex where
  "scheme_regex = Maybe (Group 1 (Concat (Group 2 (Many regex_dot)) (Group 3 (Text ''://''))))"

definition userinfo_regex :: regex where
  "userinfo_regex = Maybe (Group 4 (Concat (Group 5 (At_least_one regex_dot)) (Text ''@'')))"

definition host_regex :: regex where
  "host_regex = Group 6 (At_least_one host_char)"

definition port_regex :: regex where
  "port_regex = Maybe (Group 7 (Concat (Text '':'') (Group 8 (At_least_one is_digit))))"

definition path_regex :: regex where
  "path_regex = Maybe (Group 9 (Concat (Text ''/'') (Group 10 (Many path_char))))"

definition query_regex :: regex where
  "query_regex = Maybe (Group 11 (Concat (Text ''?'') (Group 12 (At_least_one query_char))))"

definition fragment_regex :: regex where
  "fragment_regex = Maybe (Group 13 (Concat (Text ''#'') (Group 14 (At_least_one regex_dot))))"

definition url_regex :: regex where
  "url_regex = Concat scheme_regex (Concat userinfo_regex (Concat host_regex (Concat port_regex
     (Concat path_regex (Concat query_regex fragment_regex)))))"

text \<open>A match has all 15 sub matches, no match none; the parameter \<open>url\<close> is part of the result.\<close>

definition ToUrl_into :: "string \<Rightarrow> bool \<times> Url" where
  "ToUrl_into url_str =
     (case regex_match url_regex url_str of
        None \<Rightarrow> (False, empty_Url)
      | Some match \<Rightarrow> (True,
          \<lparr>url_scheme = sub_match match 2, url_userinfo = sub_match match 5, url_host = sub_match match 6,
           url_port = sub_match match 8, url_path = sub_match match 10, url_query = sub_match match 12,
           url_fragment = sub_match match 14\<rparr>))"

definition ToUrl :: "string \<Rightarrow> exn + Url" where
  "ToUrl url_str =
     (let (parsed, url) = ToUrl_into url_str
      in if \<not> parsed then Inl (InvalidArgument ''invalid url format'') else Inr url)"


subsection \<open>What the expression finds in a printed URL\<close>

lemma Maybe_taken: "regex_run a k s cs = Some out \<Longrightarrow> regex_run (Maybe a) k s cs = Some out"
  by simp

lemma Maybe_left_out: "regex_run a k s cs = None \<Longrightarrow> k s cs = Some out \<Longrightarrow> regex_run (Maybe a) k s cs = Some out"
  by simp

text \<open>A component with its mark in front, which is absent when the component is empty.\<close>

definition marked :: "char \<Rightarrow> string \<Rightarrow> string" where
  "marked c x = (if x = [] then [] else c # x)"

definition captured :: "nat \<Rightarrow> nat \<Rightarrow> string \<Rightarrow> string \<Rightarrow> captures \<Rightarrow> captures" where
  "captured g h whole x cs = (if x = [] then cs else cs(h \<mapsto> x, g \<mapsto> whole))"

lemma sub_match_captured [simp]:
  "n \<noteq> g \<Longrightarrow> n \<noteq> h \<Longrightarrow> sub_match (captured g h whole x cs) n = sub_match cs n"
  "h \<noteq> g \<Longrightarrow> sub_match cs h = [] \<Longrightarrow> sub_match (captured g h whole x cs) h = x"
  by (auto simp: captured_def sub_match_def)

lemma At_least_one_longest:
  assumes "x \<noteq> []" and "list_all p x" and "y = [] \<or> \<not> p (hd y)" and "k y cs = Some out"
  shows "regex_run (At_least_one p) k (x @ y) cs = Some out"
proof -
  obtain c x' where x: "x = c # x'" using assms(1) by (cases x) auto
  have "run_many p k (x' @ y) cs = Some out"
    by (rule run_many_longest, use assms(2) x in simp, rule assms(3), rule assms(4))
  then show ?thesis using assms(2) x by simp
qed

lemma marked_part:
  assumes "list_all p x" and "y = [] \<or> \<not> p (hd y)" and "x = [] \<longrightarrow> y = [] \<or> hd y \<noteq> c"
    and "k y (captured g h (c # x) x cs) = Some out"
  shows "regex_run (Maybe (Group g (Concat (Text [c]) (Group h (At_least_one p))))) k (marked c x @ y) cs = Some out"
proof (cases "x = []")
  case True
  with assms(3,4) show ?thesis
    by (intro Maybe_left_out) (cases y; simp add: marked_def captured_def)+
next
  case False
  let ?k = "\<lambda>s' cs'. k s' (cs'(h \<mapsto> take (length (x @ y) - length s') (x @ y),
      g \<mapsto> take (length (c # x @ y) - length s') (c # x @ y)))"
  have "take (length (c # x @ y) - length y) (c # x @ y) = c # x" using take_prefix [of "c # x" y] by simp
  then have "?k y cs = Some out" using assms(4) False by (simp add: captured_def)
  with At_least_one_longest [OF False assms(1,2), of ?k cs out]
  show ?thesis by (intro Maybe_taken) (simp add: marked_def False)
qed

lemma host_part:
  assumes "x \<noteq> []" and "list_all host_char x" and "y = [] \<or> \<not> host_char (hd y)" and "k y (cs(6 \<mapsto> x)) = Some out"
  shows "regex_run host_regex k (x @ y) cs = Some out"
proof -
  let ?k = "\<lambda>s' cs'. k s' (cs'(6 \<mapsto> take (length (x @ y) - length s') (x @ y)))"
  have "?k y cs = Some out" using assms(4) by simp
  with At_least_one_longest [OF assms(1-3), of ?k cs out] show ?thesis by (simp add: host_regex_def)
qed

lemma path_part:
  assumes "list_all path_char x" and "y = [] \<or> \<not> path_char (hd y)"
    and "k y (cs(10 \<mapsto> x, 9 \<mapsto> CHR ''/'' # x)) = Some out"
  shows "regex_run path_regex k (CHR ''/'' # x @ y) cs = Some out"
proof -
  let ?k = "\<lambda>s' cs'. k s' (cs'(10 \<mapsto> take (length (x @ y) - length s') (x @ y),
      9 \<mapsto> take (length (CHR ''/'' # x @ y) - length s') (CHR ''/'' # x @ y)))"
  have "take (length (CHR ''/'' # x @ y) - length y) (CHR ''/'' # x @ y) = CHR ''/'' # x"
    using take_prefix [of "CHR ''/'' # x" y] by simp
  then have "?k y cs = Some out" using assms(3) by simp
  then have "run_many path_char ?k (x @ y) cs = Some out" by (rule run_many_longest [OF assms(1,2)])
  then show ?thesis unfolding path_regex_def by (intro Maybe_taken) simp
qed


text \<open>A prefix that ends with a separator which does not occur behind it: \<open>.+@\<close> and \<open>.*:\/\/\<close>.\<close>

lemma userinfo_ends: "regex_matches (Group 4 (Concat (Group 5 (At_least_one regex_dot)) (Text ''@''))) x cs cs' \<Longrightarrow>
    CHR ''@'' \<in> set x"
  by (auto elim!: regex_matchesE)

lemma userinfo_part:
  assumes "list_all regex_dot x" and "CHR ''@'' \<notin> set y"
    and "k y (captured 4 5 (x @ ''@'') x cs) = Some out"
  shows "regex_run userinfo_regex k ((if x = [] then [] else x @ ''@'') @ y) cs = Some out"
proof (cases x)
  case Nil
  have "regex_run (Group 4 (Concat (Group 5 (At_least_one regex_dot)) (Text ''@''))) k y cs = None"
  proof (rule ccontr)
    assume "\<not> ?thesis"
    then obtain out' where "regex_run (Group 4 (Concat (Group 5 (At_least_one regex_dot)) (Text ''@''))) k y cs = Some out'"
      by blast
    from regex_run_sound [OF this] userinfo_ends assms(2) show False by fastforce
  qed
  with assms(3) Nil show ?thesis unfolding userinfo_regex_def by (intro Maybe_left_out) (simp_all add: captured_def)
next
  case (Cons c x')
  let ?s = "x @ CHR ''@'' # y"
  let ?k = "\<lambda>s' cs'. regex_run (Text ''@'') (\<lambda>s'' cs''. k s'' (cs''(4 \<mapsto> take (length ?s - length s'') ?s))) s'
      (cs'(5 \<mapsto> take (length ?s - length s') ?s))"
  have "take (length ?s - length (CHR ''@'' # y)) ?s = x" by simp
  moreover have "take (length ?s - length y) ?s = x @ ''@''" using take_prefix [of "x @ ''@''" y] by simp
  ultimately have here: "?k (CHR ''@'' # y) cs = Some out" using assms(3) Cons by (simp add: captured_def)
  have "run_many regex_dot ?k (x' @ CHR ''@'' # y) cs = Some out"
  proof (rule run_many_stops)
    show "list_all regex_dot x'" using assms(1) Cons by simp
    show "?k (CHR ''@'' # y) cs = Some out" by (rule here)
    fix u v assume "CHR ''@'' # y = u @ v" "u \<noteq> []"
    then have "set v \<subseteq> set y" by (cases u) auto
    with assms(2) show "?k v cs = None" by (cases v) auto
  qed
  then show ?thesis unfolding userinfo_regex_def using assms(1) Cons by (intro Maybe_taken) simp
qed

abbreviation separator :: string where "separator \<equiv> ''://''"

lemma scheme_ends: "regex_matches (Group 1 (Concat (Group 2 (Many regex_dot)) (Group 3 (Text separator)))) x cs cs' \<Longrightarrow>
    sublist separator (x @ y)"
  using sublist_appendI [of separator _ y] by (auto elim!: regex_matchesE)

lemma separator_later:
  assumes "separator @ y = u @ v" and "u \<noteq> []" and "take 3 v = separator"
  shows "sublist separator y"
proof -
  obtain c u' where u: "u = c # u'" using assms(2) by (cases u) auto
  have v: "v = separator @ drop 3 v" using assms(3) append_take_drop_id [of 3 v] by simp
  have "''//'' @ y = u' @ separator @ drop 3 v" using assms(1) u v by simp
  then obtain w where "y = w @ separator @ drop 3 v"
    by (cases u'; cases "tl u'") auto
  then show ?thesis using sublist_appendI [of separator w "drop 3 v"] by simp
qed

lemma scheme_part:
  assumes "list_all regex_dot x" and "\<not> sublist separator y"
    and "k y (if x = [] then cs else cs(2 \<mapsto> x, 3 \<mapsto> separator, 1 \<mapsto> x @ separator)) = Some out"
  shows "regex_run scheme_regex k ((if x = [] then [] else x @ separator) @ y) cs = Some out"
proof (cases "x = []")
  case True
  have "regex_run (Group 1 (Concat (Group 2 (Many regex_dot)) (Group 3 (Text separator)))) k y cs = None"
  proof (rule ccontr)
    assume "\<not> ?thesis"
    then obtain out' where "regex_run (Group 1 (Concat (Group 2 (Many regex_dot)) (Group 3 (Text separator)))) k y cs = Some out'"
      by blast
    from regex_run_sound [OF this] scheme_ends assms(2) show False by blast
  qed
  with assms(3) True show ?thesis unfolding scheme_regex_def by (intro Maybe_left_out) simp_all
next
  case False
  let ?s = "x @ separator @ y"
  let ?k = "\<lambda>s' cs'. regex_run (Group 3 (Text separator)) (\<lambda>s'' cs''. k s'' (cs''(1 \<mapsto> take (length ?s - length s'') ?s))) s'
      (cs'(2 \<mapsto> take (length ?s - length s') ?s))"
  have "take (length ?s - length (separator @ y)) ?s = x" by simp
  moreover have "take (length ?s - length y) ?s = x @ separator" using take_prefix [of "x @ separator" y] by simp
  ultimately have here: "?k (separator @ y) cs = Some out" using assms(3) False by simp
  have "run_many regex_dot ?k ?s cs = Some out"
  proof (rule run_many_stops)
    show "list_all regex_dot x" by (rule assms(1))
    show "?k (separator @ y) cs = Some out" by (rule here)
    fix u v assume "separator @ y = u @ v" "u \<noteq> []"
    with separator_later assms(2) have "take 3 v \<noteq> separator" by blast
    then show "?k v cs = None" by (simp add: numeral_3_eq_3)
  qed
  then show ?thesis unfolding scheme_regex_def using False by (intro Maybe_taken) simp
qed


subsection \<open>Properties\<close>

text \<open>
  URLs that can be told from their text: components of the characters the expression allows, no
  \<open>@\<close> behind the user information and no second separator behind the scheme.
\<close>

definition plain_Url :: "Url \<Rightarrow> bool" where
  "plain_Url u \<longleftrightarrow>
     list_all regex_dot (url_scheme u) \<and> list_all regex_dot (url_userinfo u) \<and>
     url_host u \<noteq> [] \<and> list_all host_char (url_host u) \<and> list_all is_digit (url_port u) \<and>
     list_all path_char (url_path u) \<and> list_all query_char (url_query u) \<and> list_all regex_dot (url_fragment u) \<and>
     CHR ''@'' \<notin> set (GetString (u\<lparr>url_scheme := [], url_userinfo := []\<rparr>)) \<and>
     \<not> sublist separator (GetString (u\<lparr>url_scheme := []\<rparr>))"

lemma GetString_parts:
  "GetString u =
     (if url_scheme u = [] then [] else url_scheme u @ separator) @
     (if url_userinfo u = [] then [] else url_userinfo u @ ''@'') @
     url_host u @ marked CHR '':'' (url_port u) @ CHR ''/'' # url_path u @
     marked CHR ''?'' (url_query u) @ marked CHR ''#'' (url_fragment u) @ []"
  by (simp add: GetString_def GetConnectionString_def GetWholePath_def marked_def Let_def)

lemma not_digit_mark: "\<not> is_digit CHR ''/''" "\<not> host_char CHR ''/''" "\<not> host_char CHR '':''"
    "\<not> path_char CHR ''?''" "\<not> path_char CHR ''#''" "\<not> query_char CHR ''#''"
  by (simp_all add: is_digit_def host_char_def path_char_def query_char_def)

lemma regex_match_printed:
  assumes "plain_Url u"
  shows "\<exists>match. regex_match url_regex (GetString u) = Some match \<and>
    sub_match match 2 = url_scheme u \<and> sub_match match 5 = url_userinfo u \<and> sub_match match 6 = url_host u \<and>
    sub_match match 8 = url_port u \<and> sub_match match 10 = url_path u \<and> sub_match match 12 = url_query u \<and>
    sub_match match 14 = url_fragment u"
proof -
  define c1 :: captures where "c1 = (if url_scheme u = [] then Map.empty
    else Map.empty(2 \<mapsto> url_scheme u, 3 \<mapsto> separator, 1 \<mapsto> url_scheme u @ separator))"
  define c2 where "c2 = captured 4 5 (url_userinfo u @ ''@'') (url_userinfo u) c1"
  define c3 where "c3 = c2(6 \<mapsto> url_host u)"
  define c4 where "c4 = captured 7 8 (CHR '':'' # url_port u) (url_port u) c3"
  define c5 where "c5 = c4(10 \<mapsto> url_path u, 9 \<mapsto> CHR ''/'' # url_path u)"
  define c6 where "c6 = captured 11 12 (CHR ''?'' # url_query u) (url_query u) c5"
  define c7 where "c7 = captured 13 14 (CHR ''#'' # url_fragment u) (url_fragment u) c6"
  let ?fragment = "marked CHR ''#'' (url_fragment u) @ []"
  let ?query = "marked CHR ''?'' (url_query u) @ ?fragment"
  let ?path = "CHR ''/'' # url_path u @ ?query"
  let ?port = "marked CHR '':'' (url_port u) @ ?path"
  let ?host = "url_host u @ ?port"
  let ?user = "(if url_userinfo u = [] then [] else url_userinfo u @ ''@'') @ ?host"
  have "regex_run fragment_regex at_end ?fragment c6 = Some c7"
    unfolding fragment_regex_def
    by (rule marked_part) (use assms in \<open>simp_all add: plain_Url_def at_end_def c7_def\<close>)
  then have "regex_run query_regex (regex_run fragment_regex at_end) ?query c5 = Some c7"
    unfolding query_regex_def
    by (intro marked_part)
      (use assms in \<open>simp_all add: plain_Url_def c6_def [symmetric]\<close>, simp_all add: marked_def not_digit_mark)
  then have "regex_run path_regex (regex_run query_regex (regex_run fragment_regex at_end)) ?path c4 = Some c7"
    by (intro path_part)
      (use assms in \<open>simp_all add: plain_Url_def c5_def [symmetric]\<close>, simp add: marked_def not_digit_mark)
  then have "regex_run port_regex (regex_run path_regex (regex_run query_regex (regex_run fragment_regex at_end)))
      ?port c3 = Some c7"
    unfolding port_regex_def
    by (intro marked_part) (use assms in \<open>simp_all add: plain_Url_def c4_def [symmetric] not_digit_mark\<close>)
  then have host: "regex_run host_regex (regex_run port_regex (regex_run path_regex (regex_run query_regex
      (regex_run fragment_regex at_end)))) ?host c2 = Some c7"
    by (intro host_part)
      (use assms in \<open>simp_all add: plain_Url_def c3_def [symmetric]\<close>, simp add: marked_def not_digit_mark)
  have one_at: "CHR ''@'' \<notin> set ?host" using assms by (simp add: plain_Url_def GetString_parts)
  have one_sep: "\<not> sublist separator ?user"
    using assms by (cases "url_userinfo u = []") (simp_all add: plain_Url_def GetString_parts)
  have user: "regex_run userinfo_regex (regex_run host_regex (regex_run port_regex (regex_run path_regex
      (regex_run query_regex (regex_run fragment_regex at_end))))) ?user c1 = Some c7"
    by (rule userinfo_part [OF _ one_at]) (use assms host in \<open>simp_all add: plain_Url_def c2_def [symmetric]\<close>)
  have dots: "list_all regex_dot (url_scheme u)" using assms by (simp add: plain_Url_def)
  have "regex_match url_regex (GetString u) = Some c7"
    unfolding regex_match_def url_regex_def GetString_parts regex_run.simps(4)
    by (rule scheme_part, rule dots, rule one_sep, rule user [unfolded c1_def])
  then show ?thesis
    by (intro exI [of _ c7])
      (simp add: c7_def c6_def c5_def c4_def c3_def c2_def c1_def captured_def sub_match_def)
qed


text \<open>What each part of the expression can match.\<close>

lemma scheme_found:
  "regex_matches scheme_regex x cs cs' \<Longrightarrow> cs 2 = None \<Longrightarrow>
   (x = [] \<and> sub_match cs' 2 = [] \<or> x = sub_match cs' 2 @ separator) \<and> list_all regex_dot (sub_match cs' 2) \<and>
   (\<forall>n>3. cs' n = cs n)"
  unfolding scheme_regex_def by (auto elim!: regex_matchesE simp: sub_match_def)

lemma userinfo_found:
  "regex_matches userinfo_regex x cs cs' \<Longrightarrow> cs 5 = None \<Longrightarrow>
   x = (if sub_match cs' 5 = [] then [] else sub_match cs' 5 @ ''@'') \<and> list_all regex_dot (sub_match cs' 5) \<and>
   (\<forall>n. n < 4 \<or> 5 < n \<longrightarrow> cs' n = cs n)"
  unfolding userinfo_regex_def by (auto elim!: regex_matchesE simp: sub_match_def)

lemma host_found:
  "regex_matches host_regex x cs cs' \<Longrightarrow>
   x = sub_match cs' 6 \<and> x \<noteq> [] \<and> list_all host_char x \<and> (\<forall>n. n \<noteq> 6 \<longrightarrow> cs' n = cs n)"
  unfolding host_regex_def by (auto elim!: regex_matchesE simp: sub_match_def)

lemma marked_found:
  "regex_matches (Maybe (Group g (Concat (Text [c]) (Group h (At_least_one p))))) x cs cs' \<Longrightarrow> g \<noteq> h \<Longrightarrow> cs h = None \<Longrightarrow>
   x = marked c (sub_match cs' h) \<and> list_all p (sub_match cs' h) \<and> (\<forall>n. n \<noteq> g \<longrightarrow> n \<noteq> h \<longrightarrow> cs' n = cs n)"
  by (auto elim!: regex_matchesE simp: sub_match_def marked_def)

lemma path_found:
  "regex_matches path_regex x cs cs' \<Longrightarrow> cs 10 = None \<Longrightarrow>
   (x = [] \<and> sub_match cs' 10 = [] \<or> x = CHR ''/'' # sub_match cs' 10) \<and> list_all path_char (sub_match cs' 10) \<and>
   (\<forall>n. n < 9 \<or> 10 < n \<longrightarrow> cs' n = cs n)"
  unfolding path_regex_def by (auto elim!: regex_matchesE simp: sub_match_def)

lemma sub_match_cong: "cs n = cs' n \<Longrightarrow> sub_match cs n = sub_match cs' n"
  by (simp add: sub_match_def)


lemma ToUrl_eq:
  "ToUrl s = (case regex_match url_regex s of None \<Rightarrow> Inl (InvalidArgument ''invalid url format'')
     | Some match \<Rightarrow> Inr \<lparr>url_scheme = sub_match match 2, url_userinfo = sub_match match 5,
         url_host = sub_match match 6, url_port = sub_match match 8, url_path = sub_match match 10,
         url_query = sub_match match 12, url_fragment = sub_match match 14\<rparr>)"
  by (simp add: ToUrl_def ToUrl_into_def split: option.split)

lemma ToUrl_printed: "plain_Url u \<Longrightarrow> ToUrl (GetString u) = Inr u"
  using regex_match_printed [of u] by (auto simp: ToUrl_eq)

text \<open>
  Claim C35: a URL that is printed and parsed is the same URL, when its components can be told
  apart in the text (\<open>plain_Url\<close>): the characters of each are those the expression allows, the
  separator of the scheme does not occur again, and no \<open>@\<close> stands behind the user information.
\<close>

theorem url_roundtrip:
  assumes "plain_Url u"
  shows "ToUrl (GetString u) = Inr u"
  using assms by (rule ToUrl_printed)

definition example_Url :: Url where
  "example_Url = \<lparr>url_scheme = ''https'', url_userinfo = ''john.doe'', url_host = ''www.example.com'',
     url_port = ''123'', url_path = ''forum/'', url_query = ''order=newest'', url_fragment = ''top''\<rparr>"

theorem url_roundtrip_witness:
  "ToUrl ''https://john.doe@www.example.com:123/forum/?order=newest#top'' = Inr example_Url"
proof -
  have "plain_Url example_Url" by code_simp
  moreover have "GetString example_Url = ''https://john.doe@www.example.com:123/forum/?order=newest#top''" by code_simp
  ultimately show ?thesis using url_roundtrip [of example_Url] by simp
qed

text \<open>
  Claim C36: a parsed URL is what its text says. When the text parses, it is the components
  with their marks in order, nothing is left out, and every component has the characters the
  expression allows, a host being there always.
\<close>

theorem parsed_url_is_text:
  assumes "ToUrl s = Inr u"
  shows "\<exists>a d. s = a @ (if url_userinfo u = [] then [] else url_userinfo u @ ''@'') @ url_host u @
       marked CHR '':'' (url_port u) @ d @ marked CHR ''?'' (url_query u) @ marked CHR ''#'' (url_fragment u)
    \<and> (a = [] \<and> url_scheme u = [] \<or> a = url_scheme u @ separator)
    \<and> (d = [] \<and> url_path u = [] \<or> d = ''/'' @ url_path u)
    \<and> url_host u \<noteq> [] \<and> list_all host_char (url_host u) \<and> list_all is_digit (url_port u)
    \<and> list_all path_char (url_path u) \<and> list_all query_char (url_query u) \<and> list_all regex_dot (url_fragment u)"
proof -
  obtain cs where m: "regex_match url_regex s = Some cs" and u: "u = \<lparr>url_scheme = sub_match cs 2,
      url_userinfo = sub_match cs 5, url_host = sub_match cs 6, url_port = sub_match cs 8,
      url_path = sub_match cs 10, url_query = sub_match cs 12, url_fragment = sub_match cs 14\<rparr>"
    using assms by (auto simp: ToUrl_eq split: option.splits)
  from regex_match_sound [OF m] obtain a b c d e f g c1 c2 c3 c4 c5 c6 where
    s: "s = a @ b @ c @ d @ e @ f @ g" and parts: "regex_matches scheme_regex a Map.empty c1"
      "regex_matches userinfo_regex b c1 c2" "regex_matches host_regex c c2 c3" "regex_matches port_regex d c3 c4"
      "regex_matches path_regex e c4 c5" "regex_matches query_regex f c5 c6" "regex_matches fragment_regex g c6 cs"
    unfolding url_regex_def by (auto elim!: regex_matchesE(4))
  have p1: "(a = [] \<and> sub_match c1 2 = [] \<or> a = sub_match c1 2 @ separator) \<and> list_all regex_dot (sub_match c1 2)"
    and f1: "\<forall>n>3. c1 n = None" using scheme_found [OF parts(1)] by simp_all
  from userinfo_found [OF parts(2)] f1
  have p2: "b = (if sub_match c2 5 = [] then [] else sub_match c2 5 @ ''@'')"
    and f2: "\<forall>n. n < 4 \<or> 5 < n \<longrightarrow> c2 n = c1 n" by simp_all
  from host_found [OF parts(3)]
  have p3: "c = sub_match c3 6" "c \<noteq> []" "list_all host_char c" and f3: "\<forall>n. n \<noteq> 6 \<longrightarrow> c3 n = c2 n" by blast+
  from marked_found [OF parts(4) [unfolded port_regex_def]] f1 f2 f3
  have p4: "d = marked CHR '':'' (sub_match c4 8)" "list_all is_digit (sub_match c4 8)"
    and f4: "\<forall>n. n \<noteq> 7 \<longrightarrow> n \<noteq> 8 \<longrightarrow> c4 n = c3 n" by simp_all
  from path_found [OF parts(5)] f1 f2 f3 f4
  have p5: "e = [] \<and> sub_match c5 10 = [] \<or> e = CHR ''/'' # sub_match c5 10" "list_all path_char (sub_match c5 10)"
    and f5: "\<forall>n. n < 9 \<or> 10 < n \<longrightarrow> c5 n = c4 n" by simp_all
  from marked_found [OF parts(6) [unfolded query_regex_def]] f1 f2 f3 f4 f5
  have p6: "f = marked CHR ''?'' (sub_match c6 12)" "list_all query_char (sub_match c6 12)"
    and f6: "\<forall>n. n \<noteq> 11 \<longrightarrow> n \<noteq> 12 \<longrightarrow> c6 n = c5 n" by simp_all
  from marked_found [OF parts(7) [unfolded fragment_regex_def]] f1 f2 f3 f4 f5 f6
  have p7: "g = marked CHR ''#'' (sub_match cs 14)" "list_all regex_dot (sub_match cs 14)"
    and f7: "\<forall>n. n \<noteq> 13 \<longrightarrow> n \<noteq> 14 \<longrightarrow> cs n = c6 n" by simp_all
  have same: "sub_match cs 2 = sub_match c1 2" "sub_match cs 5 = sub_match c2 5" "sub_match cs 6 = sub_match c3 6"
      "sub_match cs 8 = sub_match c4 8" "sub_match cs 10 = sub_match c5 10" "sub_match cs 12 = sub_match c6 12"
    by (rule sub_match_cong, use f2 f3 f4 f5 f6 f7 in simp)+
  show ?thesis
    by (intro exI [of _ a] exI [of _ e]) (use s u same p1 p2 p3 p4 p5 p6 p7 in simp)
qed

theorem parsed_url_is_text_witness:
  "\<exists>u. ToUrl ''www.bla.com:123?x=y'' = Inr u \<and> url_host u \<noteq> []"
proof -
  obtain u where u: "ToUrl ''www.bla.com:123?x=y'' = Inr u"
  proof (cases "ToUrl ''www.bla.com:123?x=y''")
    case (Inl e)
    have "\<not> isl (ToUrl ''www.bla.com:123?x=y'')" by code_simp
    with Inl show ?thesis by simp
  qed
  from parsed_url_is_text [OF u] u show ?thesis by blast
qed

lemma GetString_longer_scheme:
  "url_scheme u \<noteq> [] \<Longrightarrow> GetString (u\<lparr>url_scheme := p @ url_scheme u\<rparr>) = p @ GetString u"
  by (simp add: GetString_def GetConnectionString_def GetWholePath_def Let_def)

text \<open>
  A URL inside the query is taken for the URL. Whatever the components before it, when
  the query ends with the text of another URL with a scheme, everything in front of the last
  separator becomes the scheme, and host, port and path are those of the inner URL.
\<close>

theorem url_in_query_misread:
  assumes "plain_Url inner" and "url_scheme inner \<noteq> []"
    and "url_query u = q @ GetString inner" and "url_fragment u = []"
    and "list_all regex_dot (GetConnectionString u @ ''/'' @ url_path u @ ''?'' @ q)"
  shows "ToUrl (GetString u)
    = Inr (inner\<lparr>url_scheme := GetConnectionString u @ ''/'' @ url_path u @ ''?'' @ q @ url_scheme inner\<rparr>)"
proof -
  let ?outer = "inner\<lparr>url_scheme := GetConnectionString u @ ''/'' @ url_path u @ ''?'' @ q @ url_scheme inner\<rparr>"
  have "plain_Url ?outer" using assms(1,5) by (simp add: plain_Url_def)
  moreover have "GetString ?outer = GetString u"
  proof -
    have "GetString inner \<noteq> []" by (simp add: GetString_def GetWholePath_def Let_def)
    then have "GetString u = GetConnectionString u @ ''/'' @ url_path u @ ''?'' @ q @ GetString inner"
      using assms(3,4) by (simp add: GetString_def [of u] GetWholePath_def [of u] Let_def)
    then show ?thesis
      using GetString_longer_scheme [OF assms(2), of "GetConnectionString u @ ''/'' @ url_path u @ ''?'' @ q"] by simp
  qed
  ultimately show ?thesis using ToUrl_printed [of ?outer] by simp
qed

theorem url_in_query_misread_witness:
  "ToUrl ''https://shop/login?next=http://cart/'' = Inr \<lparr>url_scheme = ''https://shop/login?next=http'',
     url_userinfo = [], url_host = ''cart'', url_port = [], url_path = [], url_query = [], url_fragment = []\<rparr>"
proof -
  let ?inner = "empty_Url\<lparr>url_scheme := ''http'', url_host := ''cart''\<rparr>"
  let ?u = "\<lparr>url_scheme = ''https'', url_userinfo = [], url_host = ''shop'', url_port = [], url_path = ''login'',
     url_query = ''next=http://cart/'', url_fragment = []\<rparr>"
  have "plain_Url ?inner" by code_simp
  moreover have "GetString ?inner = ''http://cart/''" by code_simp
  moreover have "GetString ?u = ''https://shop/login?next=http://cart/''" by code_simp
  moreover have "list_all regex_dot (GetConnectionString ?u @ ''/'' @ url_path ?u @ ''?'' @ ''next='')" by code_simp
  moreover have "GetConnectionString ?u = ''https://shop''" by code_simp
  ultimately show ?thesis using url_in_query_misread [of ?inner ?u "''next=''"] by (simp add: empty_Url_def)
qed

text \<open>The port of a parsed URL: a number that a 32 bit \<open>int\<close> holds, or \<open>out_of_range\<close>.\<close>

lemma GetPort_digits:
  assumes "list_all is_digit (url_port u)" and "url_port u \<noteq> []"
  shows "GetPort u = (if digits_value (url_port u) < 2 ^ 31 then Inr (Some (of_nat (digits_value (url_port u))))
    else Inl (OutOfRange ''stoi''))"
proof -
  have "c \<noteq> CHR 0x00" if "is_digit c" for c using that by (auto simp: is_digit_iff)
  with assms(1) have "c_str (url_port u) = url_port u"
    by (auto simp: c_str_def list_all_iff takeWhile_eq_all_conv)
  then have "stoi (url_port u) = (if int (digits_value (url_port u)) < 2 ^ 31
      then Inr (int (digits_value (url_port u))) else Inl (OutOfRange ''stoi''))"
    using leading_int_digits [OF assms] by (simp add: stoi_def)
  then show ?thesis using assms(2) by (simp add: GetPort_def)
qed

end
