(* ===== verification/Mse_Starships.thy ===== *)
theory Mse_Starships
  imports Mse_Hook_Rules
begin

text \<open>
  The example application \<open>star-wars-starships\<close>: the model and the ports (interfaces) of the
  service, its core, the status store in memory, and the client with constant data. What the
  adapters offer is a record of operations; the store is a part of the application's state.
\<close>

subsection \<open>Model and ports\<close>

datatype StarshipStatus =
    SS_Unknown
  | SS_UnderConstruction
  | SS_OnStandby
  | SS_InAction
  | SS_Damaged
  | SS_Destroyed

record StarshipProperties =
  sp_Id :: string
  sp_Name :: string
  sp_Description :: string

record Starship =
  ss_Properties :: StarshipProperties
  ss_Status :: StarshipStatus

record 'u Api =
  Api_ListStarShips :: "('u world, Starship list) comp"
  Api_GetStarShip :: "string \<Rightarrow> ('u world, Starship) comp"
  Api_UpdateStatus :: "string \<Rightarrow> StarshipStatus \<Rightarrow> ('u world, unit) comp"

record 'u StarWarsClient =
  ListStarShipProperties :: "('u world, StarshipProperties list) comp"
  GetStarShipProperties :: "string \<Rightarrow> ('u world, StarshipProperties option) comp"

record 'u StatusDB =
  GetStatus :: "string \<Rightarrow> ('u world, StarshipStatus option) comp"
  SetStatus :: "string \<Rightarrow> StarshipStatus \<Rightarrow> ('u world, unit) comp"

subsection \<open>The core\<close>

definition value_or :: "'a option \<Rightarrow> 'a \<Rightarrow> 'a" where
  "value_or x d = (case x of Some v \<Rightarrow> v | None \<Rightarrow> d)"

definition optional_value :: "'a option \<Rightarrow> exn + 'a" where
  "optional_value x = (case x of Some v \<Rightarrow> Inr v | None \<Rightarrow> Inl BadOptionalAccess)"

lemma bindC_optional_value [simp]:
  "bindC (liftE (optional_value (Some x))) k = k x"
  "bindC (liftE (optional_value None)) k = throw BadOptionalAccess"
  by (simp_all add: fun_eq_iff bindC_def liftE_def throw_def optional_value_def)

text \<open>\<open>std::transform\<close> with an effectful function.\<close>

primrec transform :: "('a \<Rightarrow> ('w, 'b) comp) \<Rightarrow> 'a list \<Rightarrow> ('w, 'b list) comp" where
  "transform f [] = ret []"
| "transform f (x # xs) = bindC (f x) (\<lambda>y. bindC (transform f xs) (\<lambda>ys. ret (y # ys)))"

definition Core_ListStarShips :: "'u StarWarsClient \<Rightarrow> 'u StatusDB \<Rightarrow> ('u world, Starship list) comp" where
  "Core_ListStarShips client db =
     bindC (ListStarShipProperties client) (\<lambda>properties.
       transform (\<lambda>p. bindC (GetStatus db (sp_Id p)) (\<lambda>s.
         ret \<lparr>ss_Properties = p, ss_Status = value_or s SS_Unknown\<rparr>)) properties)"

definition Core_GetStarShip :: "'u StarWarsClient \<Rightarrow> 'u StatusDB \<Rightarrow> string \<Rightarrow> ('u world, Starship) comp" where
  "Core_GetStarShip client db ship =
     catchC
       (bindC (GetStarShipProperties client ship) (\<lambda>properties.
        bindC (liftE (optional_value properties)) (\<lambda>p.
        bindC (GetStatus db ship) (\<lambda>s.
          ret \<lparr>ss_Properties = p, ss_Status = value_or s SS_Unknown\<rparr>))))
       (\<lambda>e. if e = BadOptionalAccess then throw (OutOfRange ''invalid ship id'') else throw e)"

definition Core_UpdateStatus ::
    "'u StarWarsClient \<Rightarrow> 'u StatusDB \<Rightarrow> string \<Rightarrow> StarshipStatus \<Rightarrow> ('u world, unit) comp" where
  "Core_UpdateStatus client db ship status =
     bindC (GetStarShipProperties client ship) (\<lambda>properties.
       if properties = None then throw (OutOfRange ''invalid ship id'') else SetStatus db ship status)"

definition Core :: "'u StarWarsClient \<Rightarrow> 'u StatusDB \<Rightarrow> 'u Api" where
  "Core client db =
     \<lparr>Api_ListStarShips = Core_ListStarShips client db, Api_GetStarShip = Core_GetStarShip client db,
      Api_UpdateStatus = Core_UpdateStatus client db\<rparr>"

subsection \<open>The store in memory\<close>

type_synonym status_map = "string \<rightharpoonup> StarshipStatus"

text \<open>The map of the object is read and written in the state by \<open>rd\<close> and \<open>wr\<close>.\<close>

definition InMemoryStatusDB :: "('u \<Rightarrow> status_map) \<Rightarrow> (status_map \<Rightarrow> 'u \<Rightarrow> 'u) \<Rightarrow> 'u StatusDB" where
  "InMemoryStatusDB rd wr =
     \<lparr>GetStatus = (\<lambda>ship. getC (\<lambda>w. rd (app w) ship)),
      SetStatus = (\<lambda>ship status. modifyC (\<lambda>w. w\<lparr>app := wr ((rd (app w))(ship \<mapsto> status)) (app w)\<rparr>))\<rparr>"

subsection \<open>The client with constant data\<close>

definition dummy_starships :: "StarshipProperties list" where
  "dummy_starships =
     [\<lparr>sp_Id = ''0'', sp_Name = ''death star'', sp_Description = ''this is a death star''\<rparr>,
      \<lparr>sp_Id = ''1'', sp_Name = ''millenium falcon'', sp_Description = ''this is the millenium falcon''\<rparr>]"

text \<open>\<open>std::atoi\<close> is 0 without a number, and undefined for one that does not fit an \<open>int\<close>.\<close>

definition atoi :: "string \<Rightarrow> int option" where
  "atoi s =
     (case leading_int (c_str s) of
        None \<Rightarrow> Some 0
      | Some i \<Rightarrow> if i < - (2 ^ 31) \<or> 2 ^ 31 \<le> i then None else Some i)"

text \<open>\<open>operator[]\<close> of the vector does not check the index.\<close>

definition Dummy_GetStarShipProperties :: "string \<Rightarrow> ('w, StarshipProperties option) comp" where
  "Dummy_GetStarShipProperties ship =
     (case atoi ship of
        None \<Rightarrow> undefined_behaviour
      | Some i \<Rightarrow>
          if 0 \<le> i \<and> nat i < length dummy_starships then ret (Some (dummy_starships ! nat i))
          else undefined_behaviour)"

definition DummyStarWarsClient :: "'u StarWarsClient" where
  "DummyStarWarsClient =
     \<lparr>ListStarShipProperties = ret dummy_starships, GetStarShipProperties = Dummy_GetStarShipProperties\<rparr>"

subsection \<open>What the core needs of its adapters\<close>

text \<open>
  A client that knows a catalogue of ships; as long as it is \<open>usable\<close> it answers about the ids in
  \<open>known\<close>. It may change its own part of the state, within \<open>own\<close>, and stays usable. Time may pass
  while it lists the ships.
\<close>

locale starwars_client =
  fixes client :: "'u StarWarsClient" and known :: "string \<Rightarrow> bool"
    and catalogue :: "StarshipProperties list" and ship_of :: "string \<Rightarrow> StarshipProperties option"
    and own :: "'u \<Rightarrow> 'u \<Rightarrow> bool" and usable :: "'u \<Rightarrow> bool"
  assumes list_run: "usable u \<Longrightarrow> hoare (\<lambda>w. stack_ok n w \<and> app_clock w = (u, t)) (ListStarShipProperties client)
      (\<lambda>r w. r = Inr catalogue \<and> stack_ok n w \<and> own u (app w) \<and> t \<le> steady_clock w)"
    and get_run: "usable u \<Longrightarrow> known ship \<Longrightarrow> hoare (\<lambda>w. stack_ok n w \<and> app w = u) (GetStarShipProperties client ship)
      (\<lambda>r w. r = Inr (ship_of ship) \<and> stack_ok n w \<and> own u (app w))"
    and own_usable: "own u u' \<Longrightarrow> usable u'"

lemma starwars_client_weaken:
  assumes "starwars_client client known catalogue ship_of own usable" and "\<And>u u'. own u u' \<Longrightarrow> own' u u'"
    and "\<And>u u'. own' u u' \<Longrightarrow> usable u'"
  shows "starwars_client client known catalogue ship_of own' usable"
proof
  fix n u t and ship :: string
  show "usable u \<Longrightarrow> hoare (\<lambda>w. stack_ok n w \<and> app_clock w = (u, t)) (ListStarShipProperties client)
      (\<lambda>r w. r = Inr catalogue \<and> stack_ok n w \<and> own' u (app w) \<and> t \<le> steady_clock w)"
    by (rule hoare_weaken, erule starwars_client.list_run [OF assms(1)]) (simp add: assms(2))
  show "usable u \<Longrightarrow> known ship \<Longrightarrow> hoare (\<lambda>w. stack_ok n w \<and> app w = u) (GetStarShipProperties client ship)
      (\<lambda>r w. r = Inr (ship_of ship) \<and> stack_ok n w \<and> own' u (app w))"
    by (rule hoare_weaken, erule (1) starwars_client.get_run [OF assms(1)]) (simp add: assms(2))
qed (rule assms(3))

text \<open>A store of statuses, \<open>rd\<close> being its content and \<open>wr\<close> the state with another content.\<close>

locale status_db =
  fixes db :: "'u StatusDB" and rd :: "'u \<Rightarrow> status_map" and wr :: "status_map \<Rightarrow> 'u \<Rightarrow> 'u"
  assumes get_status: "hoare (\<lambda>w. stack_ok n w \<and> app_clock w = (u, t)) (GetStatus db ship)
      (\<lambda>r w. r = Inr (rd u ship) \<and> stack_ok n w \<and> app_clock w = (u, t))"
    and set_status: "hoare (\<lambda>w. stack_ok n w \<and> app w = u) (SetStatus db ship status)
      (\<lambda>r w. r = Inr () \<and> stack_ok n w \<and> app w = wr ((rd u)(ship \<mapsto> status)) u)"
    and rd_wr: "rd (wr m u) = m"

definition ship_with_status :: "status_map \<Rightarrow> StarshipProperties \<Rightarrow> Starship" where
  "ship_with_status m p = \<lparr>ss_Properties = p, ss_Status = value_or (m (sp_Id p)) SS_Unknown\<rparr>"

lemma hoare_app_cases:
  assumes "\<And>u. R u \<Longrightarrow> hoare (\<lambda>w. stack_ok n w \<and> app w = u) m Q"
  shows "hoare (\<lambda>w. stack_ok n w \<and> R (app w)) m Q"
  using assms unfolding hoare_def by blast

lemma hoare_clock_cases:
  assumes "\<And>u t. R u t \<Longrightarrow> hoare (\<lambda>w. stack_ok n w \<and> app_clock w = (u, t)) m Q"
  shows "hoare (\<lambda>w. stack_ok n w \<and> R (app w) (steady_clock w)) m Q"
  using assms unfolding hoare_def app_clock_def by blast

lemma hoare_transform:
  assumes "\<And>x. x \<in> set xs \<Longrightarrow> hoare P (f x) (\<lambda>r w. r = Inr (g x) \<and> P w)"
  shows "hoare P (transform f xs) (\<lambda>r w. r = Inr (map g xs) \<and> P w)"
  using assms
proof (induction xs)
  case Nil
  show ?case by (simp add: hoare_ret)
next
  case (Cons x xs)
  have tl: "hoare P (transform f xs) (\<lambda>r w. r = Inr (map g xs) \<and> P w)" using Cons by simp
  have hd: "hoare P (f x) (\<lambda>r w. r = Inr (g x) \<and> P w)" using Cons.prems by simp
  show ?case
    unfolding transform.simps
    by (rule hoare_bind_value, rule hd, rule hoare_bind_value, rule tl, rule hoare_ret) simp
qed

text \<open>The core on such adapters, whatever they are.\<close>

locale starship_core = starwars_client + status_db +
  assumes own_rd: "own u u' \<Longrightarrow> rd u' = rd u"
begin

lemma status_of_run:
  assumes "own u u'"
  shows "hoare (\<lambda>w. stack_ok n w \<and> app_clock w = (u', t))
    (bindC (GetStatus db ship) (\<lambda>s. ret \<lparr>ss_Properties = p, ss_Status = value_or s SS_Unknown\<rparr>))
    (\<lambda>r w. r = Inr \<lparr>ss_Properties = p, ss_Status = value_or (rd u ship) SS_Unknown\<rparr> \<and> stack_ok n w \<and> app_clock w = (u', t))"
  by (rule hoare_bind_value, rule get_status, rule hoare_ret) (simp add: own_rd [OF assms])

lemma ListStarShips_run:
  "usable u \<Longrightarrow> hoare (\<lambda>w. stack_ok n w \<and> app_clock w = (u, t)) (Core_ListStarShips client db)
     (\<lambda>r w. r = Inr (map (ship_with_status (rd u)) catalogue) \<and> stack_ok n w \<and> own u (app w) \<and> t \<le> steady_clock w)"
  unfolding Core_ListStarShips_def
proof (rule hoare_bind_value, erule list_run, rule hoare_clock_cases)
  fix u' t' assume own: "own u u' \<and> t \<le> t'"
  have "hoare (\<lambda>w. stack_ok n w \<and> app_clock w = (u', t'))
      (transform (\<lambda>p. bindC (GetStatus db (sp_Id p)) (\<lambda>s. ret \<lparr>ss_Properties = p, ss_Status = value_or s SS_Unknown\<rparr>)) catalogue)
      (\<lambda>r w. r = Inr (map (ship_with_status (rd u)) catalogue) \<and> stack_ok n w \<and> app_clock w = (u', t'))"
    by (rule hoare_transform) (use own in \<open>simp add: ship_with_status_def status_of_run\<close>)
  then show "hoare (\<lambda>w. stack_ok n w \<and> app_clock w = (u', t'))
      (transform (\<lambda>p. bindC (GetStatus db (sp_Id p)) (\<lambda>s. ret \<lparr>ss_Properties = p, ss_Status = value_or s SS_Unknown\<rparr>)) catalogue)
      (\<lambda>r w. r = Inr (map (ship_with_status (rd u)) catalogue) \<and> stack_ok n w \<and> own u (app w) \<and> t \<le> steady_clock w)"
    by (rule hoare_weaken) (use own in \<open>simp add: app_clock_def\<close>)
qed

lemma GetStarShip_run:
  assumes "usable u" and "known ship"
  shows "hoare (\<lambda>w. stack_ok n w \<and> app w = u) (Core_GetStarShip client db ship)
     (\<lambda>r w. r = (case ship_of ship of
          None \<Rightarrow> Inl (OutOfRange ''invalid ship id'')
        | Some p \<Rightarrow> Inr \<lparr>ss_Properties = p, ss_Status = value_or (rd u ship) SS_Unknown\<rparr>)
       \<and> stack_ok n w \<and> own u (app w))"
proof -
  let ?m = "bindC (GetStarShipProperties client ship) (\<lambda>properties.
        bindC (liftE (optional_value properties)) (\<lambda>p.
        bindC (GetStatus db ship) (\<lambda>s. ret \<lparr>ss_Properties = p, ss_Status = value_or s SS_Unknown\<rparr>)))"
  have "hoare (\<lambda>w. stack_ok n w \<and> app w = u) ?m
     (\<lambda>r w. r = (case ship_of ship of None \<Rightarrow> Inl BadOptionalAccess
        | Some p \<Rightarrow> Inr \<lparr>ss_Properties = p, ss_Status = value_or (rd u ship) SS_Unknown\<rparr>)
       \<and> stack_ok n w \<and> own u (app w))"
  proof (rule hoare_bind_value, rule get_run [OF assms], cases "ship_of ship")
    case None
    then show "hoare (\<lambda>w. stack_ok n w \<and> own u (app w)) (bindC (liftE (optional_value (ship_of ship))) (\<lambda>p.
        bindC (GetStatus db ship) (\<lambda>s. ret \<lparr>ss_Properties = p, ss_Status = value_or s SS_Unknown\<rparr>)))
      (\<lambda>r w. r = (case ship_of ship of None \<Rightarrow> Inl BadOptionalAccess
        | Some p \<Rightarrow> Inr \<lparr>ss_Properties = p, ss_Status = value_or (rd u ship) SS_Unknown\<rparr>)
       \<and> stack_ok n w \<and> own u (app w))"
      by (simp add: hoare_throw)
  next
    case (Some p)
    have "hoare (\<lambda>w. stack_ok n w \<and> own u (app w))
        (bindC (GetStatus db ship) (\<lambda>s. ret \<lparr>ss_Properties = p, ss_Status = value_or s SS_Unknown\<rparr>))
        (\<lambda>r w. r = Inr \<lparr>ss_Properties = p, ss_Status = value_or (rd u ship) SS_Unknown\<rparr> \<and> stack_ok n w \<and> own u (app w))"
    proof (rule hoare_clock_cases)
      fix u' t assume own: "own u u'"
      show "hoare (\<lambda>w. stack_ok n w \<and> app_clock w = (u', t))
        (bindC (GetStatus db ship) (\<lambda>s. ret \<lparr>ss_Properties = p, ss_Status = value_or s SS_Unknown\<rparr>))
        (\<lambda>r w. r = Inr \<lparr>ss_Properties = p, ss_Status = value_or (rd u ship) SS_Unknown\<rparr> \<and> stack_ok n w \<and> own u (app w))"
        by (rule hoare_weaken, rule status_of_run [OF own]) (simp add: own app_clock_def)
    qed
    then show "hoare (\<lambda>w. stack_ok n w \<and> own u (app w)) (bindC (liftE (optional_value (ship_of ship))) (\<lambda>p.
        bindC (GetStatus db ship) (\<lambda>s. ret \<lparr>ss_Properties = p, ss_Status = value_or s SS_Unknown\<rparr>)))
      (\<lambda>r w. r = (case ship_of ship of None \<Rightarrow> Inl BadOptionalAccess
        | Some p \<Rightarrow> Inr \<lparr>ss_Properties = p, ss_Status = value_or (rd u ship) SS_Unknown\<rparr>)
       \<and> stack_ok n w \<and> own u (app w))"
      using Some by simp
  qed
  then show ?thesis
    unfolding Core_GetStarShip_def hoare_def catchC_def throw_def
    by (fastforce split: option.splits)
qed

lemma UpdateStatus_run:
  assumes "usable u" and "known ship"
  shows "hoare (\<lambda>w. stack_ok n w \<and> app w = u) (Core_UpdateStatus client db ship status)
     (\<lambda>r w. stack_ok n w \<and> (\<exists>u'. own u u' \<and>
        (if ship_of ship = None then r = Inl (OutOfRange ''invalid ship id'') \<and> app w = u'
         else r = Inr () \<and> app w = wr ((rd u)(ship \<mapsto> status)) u')))"
  unfolding Core_UpdateStatus_def
proof (rule hoare_bind_value, rule get_run [OF assms], rule hoare_app_cases)
  fix u' assume own: "own u u'"
  have "hoare (\<lambda>w. stack_ok n w \<and> app w = u') (SetStatus db ship status)
      (\<lambda>r w. r = Inr () \<and> stack_ok n w \<and> app w = wr ((rd u)(ship \<mapsto> status)) u')"
    using set_status [of n u' ship status] own_rd [OF own] by simp
  then show "hoare (\<lambda>w. stack_ok n w \<and> app w = u')
     (if ship_of ship = None then throw (OutOfRange ''invalid ship id'') else SetStatus db ship status)
     (\<lambda>r w. stack_ok n w \<and> (\<exists>u'. own u u' \<and>
        (if ship_of ship = None then r = Inl (OutOfRange ''invalid ship id'') \<and> app w = u'
         else r = Inr () \<and> app w = wr ((rd u)(ship \<mapsto> status)) u')))"
    using own by (cases "ship_of ship = None") (auto intro!: hoare_throw elim!: hoare_weaken)
qed

end

text \<open>The adapters of the code: the constant client knows the ids 0 and 1.\<close>

definition dummy_knows :: "string \<Rightarrow> bool" where
  "dummy_knows ship \<longleftrightarrow> atoi ship = Some 0 \<or> atoi ship = Some 1"

interpretation dummy: starwars_client DummyStarWarsClient dummy_knows dummy_starships
    "\<lambda>ship. Some (dummy_starships ! nat (the (atoi ship)))" "\<lambda>u u'. u' = u" "\<lambda>u. True"
  by unfold_locales
    (auto simp: DummyStarWarsClient_def Dummy_GetStarShipProperties_def dummy_knows_def dummy_starships_def
      app_clock_def intro!: hoare_ret)

interpretation in_memory: status_db "InMemoryStatusDB (\<lambda>u. u) (\<lambda>m u. m)" "\<lambda>u. u" "\<lambda>m u. m"
  by unfold_locales (auto simp: InMemoryStatusDB_def hoare_def comp_simps app_clock_def)

interpretation dummy_core: starship_core DummyStarWarsClient dummy_knows dummy_starships
    "\<lambda>ship. Some (dummy_starships ! nat (the (atoi ship)))" "\<lambda>u u'. u' = u" "\<lambda>u. True"
    "InMemoryStatusDB (\<lambda>u. u) (\<lambda>m u. m)" "\<lambda>u. u" "\<lambda>m u. m"
  by unfold_locales simp

end
