(* ===== verification/Mse_Starships_Service.thy ===== *)
theory Mse_Starships_Service
  imports Mse_Starships Mse_Security Mse_Logging_Hook Mse_Caching_Hook Mse_Circuit_Breaker Mse_Retry
begin

text \<open>
  How the example service is put together in \<open>app/main.cpp\<close>: the factory of request hooks as the
  static registrations of the library leave it, the hooks that \<open>main\<close> adds to every incoming and
  every outgoing request, and an incoming request from the construction of its context to its
  end. The rule \<open>handle_request_outcome\<close> says what becomes of it.
\<close>

subsection \<open>The parameters of hooks and the factory\<close>

datatype ('v, 'u) hook_params =
    P_Logging LoggingParameters
  | P_BasicTokenAuth BasicParameters
  | P_ExceptionHandling "'u Mapper list"
  | P_ClaimChecker "'u ClaimCheckerParameters"
  | P_Caching "('v, 'u) CachingParameters"
  | P_CircuitBreaker "'u CircuitBreakerStrategy" Status
  | P_ErrorForwarding status_code_mapping
  | P_Retry "'u RetryParameters"

text \<open>The name of the parameter class, and the hook that its constructor makes of it.\<close>

fun params_type :: "('v, 'u) hook_params \<Rightarrow> string" where
  "params_type (P_Logging ps) = ''LoggingRequestHook::Parameters''"
| "params_type (P_BasicTokenAuth ps) = ''BasicTokenAuthRequestHook::Parameters''"
| "params_type (P_ExceptionHandling ms) = ''ExceptionHandlingRequestHook::Parameters''"
| "params_type (P_ClaimChecker ps) = ''ClaimCheckerRequestHook::Parameters''"
| "params_type (P_Caching ps) = ''CachingRequestHook::Parameters''"
| "params_type (P_CircuitBreaker strategy errorStatus) = ''CircuitBreakerRequestHook::Parameters''"
| "params_type (P_ErrorForwarding mapping) = ''ErrorForwardingRequestHook::Parameters''"
| "params_type (P_Retry ps) = ''RetryRequestHook::Parameters''"

fun hook_of :: "('v, 'u) hook_params \<Rightarrow> 'u hook" where
  "hook_of (P_Logging ps) = LoggingRequestHook ps"
| "hook_of (P_BasicTokenAuth ps) = BasicTokenAuthRequestHook ps"
| "hook_of (P_ExceptionHandling ms) = ExceptionHandlingRequestHook ms"
| "hook_of (P_ClaimChecker ps) = ClaimCheckerRequestHook ps"
| "hook_of (P_Caching ps) = CachingRequestHook ps"
| "hook_of (P_CircuitBreaker strategy errorStatus) = CircuitBreakerRequestHook strategy errorStatus"
| "hook_of (P_ErrorForwarding mapping) = ErrorForwardingRequestHook mapping"
| "hook_of (P_Retry ps) = RetryRequestHook ps"

definition params :: "('v, 'u) hook_params \<Rightarrow> ('v, 'u) hook_params any" where
  "params p = AnyOf (params_type p) p"

definition params_types :: "string list" where
  "params_types =
     [''LoggingRequestHook::Parameters'', ''BasicTokenAuthRequestHook::Parameters'',
      ''ExceptionHandlingRequestHook::Parameters'', ''ClaimCheckerRequestHook::Parameters'',
      ''CachingRequestHook::Parameters'', ''CircuitBreakerRequestHook::Parameters'',
      ''ErrorForwardingRequestHook::Parameters'', ''RetryRequestHook::Parameters'']"

definition service_factory :: "(('v, 'u) hook_params, 'u) factory" where
  "service_factory T = (if T \<in> set params_types then Some (auto_Create T hook_of) else None)"

text \<open>The registrations, in any order of the translation units, build this factory.\<close>

primrec register_all ::
    "string list \<Rightarrow> (string set \<times> (('v, 'u) hook_params, 'u) factory, unit) comp" where
  "register_all [] = ret ()"
| "register_all (T # Ts) = thenC (auto_registration T hook_of) (register_all Ts)"

lemma register_all_run:
  "distinct Ts \<Longrightarrow> set Ts \<inter> R = {} \<Longrightarrow> dom f \<subseteq> R \<Longrightarrow> register_all Ts (R, f) =
     Some (Inr (), set Ts \<union> R, \<lambda>T. if T \<in> set Ts then Some (auto_Create T hook_of) else f T)"
proof (induction Ts arbitrary: R f)
  case (Cons T Ts)
  have "auto_registration T hook_of (R, f) = Some (Inr (), insert T R, f(T \<mapsto> auto_Create T hook_of))"
  proof -
    have "f T = None" "T \<notin> R" using Cons.prems by auto
    then show ?thesis
      by (simp add: auto_registration_def RequestHookFactory_Register_def bindC_def thenC_def getC_def zoomC_def
          modifyC_def)
  qed
  moreover have "register_all Ts (insert T R, f(T \<mapsto> auto_Create T hook_of))
    = Some (Inr (), set Ts \<union> insert T R,
        \<lambda>T'. if T' \<in> set Ts then Some (auto_Create T' hook_of) else (f(T \<mapsto> auto_Create T hook_of)) T')"
    using Cons.prems by (intro Cons.IH) (auto split: if_splits dest: subsetD [OF _ domI])
  ultimately show ?case using Cons.prems by (auto simp: thenC_Inr fun_eq_iff)
qed (simp add: ret_apply)

lemma service_factory_registered:
  "distinct Ts \<Longrightarrow> set Ts = set params_types \<Longrightarrow>
   register_all Ts ({}, Map.empty) = Some (Inr (), set params_types, service_factory)"
  by (simp add: register_all_run service_factory_def fun_eq_iff)

lemma Create_params [simp]: "RequestHookFactory_Create service_factory (params p) = Inr (hook_of p)"
  by (cases p) (simp_all add: RequestHookFactory_Create_def service_factory_def params_def params_types_def auto_Create_def)

subsection \<open>The hooks of main\<close>

definition service_tokens :: BasicParameters where
  "service_tokens = Basic_Parameters ''authorization''
     [(''secret-read-only-token'', [''read'']), (''secret-token'', [''read'', ''write''])]"

definition register_handler_hooks :: "(('v, 'u) hook_params any list, unit) comp" where
  "register_handler_hooks =
     thenC (GloballyWith (params (P_Logging Logging_Parameters)))
     (thenC (GloballyWith (params (P_BasicTokenAuth service_tokens)))
            (GloballyWith (params (P_ExceptionHandling default_exception_handling_mappers))))"

definition register_issuer_hooks ::
    "(('v, request_data \<times> 's) hook_params any list, unit) comp" where
  "register_issuer_hooks =
     thenC (GloballyWith (params (P_Logging Logging_Parameters)))
           (GloballyWith (params (P_CircuitBreaker (MaxPending 2) default_errorStatus)))"

definition handler_globals :: "('v, 'u) hook_params any list" where
  "handler_globals = [params (P_Logging Logging_Parameters), params (P_BasicTokenAuth service_tokens),
     params (P_ExceptionHandling default_exception_handling_mappers)]"

definition issuer_globals :: "('v, request_data \<times> 's) hook_params any list" where
  "issuer_globals = [params (P_Logging Logging_Parameters), params (P_CircuitBreaker (MaxPending 2) default_errorStatus)]"

lemma registered_globals:
  "register_handler_hooks [] = Some (Inr (), handler_globals)"
  "register_issuer_hooks [] = Some (Inr (), issuer_globals)"
  by (simp_all add: register_handler_hooks_def register_issuer_hooks_def handler_globals_def issuer_globals_def
      GloballyWith_def comp_simps)

subsection \<open>An incoming request\<close>

primrec With_each ::
    "('p, 'u) factory \<Rightarrow> 'p any list \<Rightarrow> 'u processor \<Rightarrow> exn + 'u processor" where
  "With_each f [] p = Inr p"
| "With_each f (x # xs) p = (case With_params f x p of Inl e \<Rightarrow> Inl e | Inr p' \<Rightarrow> With_each f xs p')"

text \<open>
  \<open>RequestHandler(name, Context(metadata)).With(...)...Process(func)\<close>: both objects are temporaries
  that live until the end of the expression.
\<close>

definition handle_request ::
    "string \<Rightarrow> metadata \<Rightarrow> ('v, 'u) hook_params list \<Rightarrow> 'u func \<Rightarrow> ('u world, Status) comp" where
  "handle_request name md hooks func =
     with_context md None (\<lambda>ctx.
       with_processor (RequestHandler_construct service_factory (handler_globals :: ('v, 'u) hook_params any list) name ctx) (\<lambda>p.
         bindC (liftE (With_each service_factory (map params hooks) p)) (\<lambda>p'.
           RequestHandler_Process p' func)))"

text \<open>The hooks of the request from the outermost to the innermost.\<close>

definition request_hooks :: "('v, 'u) hook_params list \<Rightarrow> 'u hook list" where
  "request_hooks hooks =
     map (SetRequestType RT_incoming)
       [LoggingRequestHook Logging_Parameters, BasicTokenAuthRequestHook service_tokens,
        ExceptionHandlingRequestHook default_exception_handling_mappers]
     @ map (SetRequestType RT_incoming \<circ> hook_of) hooks"

definition in_hooks :: "'u hook list \<Rightarrow> 'u func \<Rightarrow> 'u func" where
  "in_hooks hooks func = fold (\<lambda>hook wrapper ctx. hook_Process hook wrapper ctx) (rev hooks) func"

lemma in_hooks_simps [simp]:
  "in_hooks [] func = func" "in_hooks (h # hs) func = hook_Process h (in_hooks hs func)"
  by (simp_all add: in_hooks_def fun_eq_iff)

lemma With_each_hooks:
  "With_each service_factory (map params hooks) p
   = Inr (p\<lparr>pr_hooks := pr_hooks p @ map (SetRequestType (pr_type p) \<circ> hook_of) hooks\<rparr>)"
  by (induction hooks arbitrary: p) (simp_all add: With_params_def With_hook_def)

lemma handler_globals_hooks:
  "GlobalRequestHookConstructionHolder service_factory handler_globals p
   = Inr (p\<lparr>pr_hooks := pr_hooks p @ map (SetRequestType (pr_type p))
       [LoggingRequestHook Logging_Parameters, BasicTokenAuthRequestHook service_tokens,
        ExceptionHandlingRequestHook default_exception_handling_mappers]\<rparr>)"
  by (simp add: handler_globals_def With_params_def With_hook_def)

text \<open>
  A thread that may take a request: its thread local context is a child of the global one. The
  token that the request is judged by is in its metadata, or else in the global context.
\<close>

definition ready :: "nat \<Rightarrow> 'u world \<Rightarrow> bool" where
  "ready n w \<longleftrightarrow> stack_ok n w \<and>
     (\<exists>old. contexts w ThreadLocalContext = Some \<lparr>ctx_metadata = old, ctx_parent = Some GlobalContext\<rparr>)"

lemma ready_initial [simp]: "ready 2 (initial_world u)"
  by (simp add: ready_def) (simp add: initial_contexts_def GlobalContext_def ThreadLocalContext_def)

definition request_token :: "metadata \<Rightarrow> 'u world \<Rightarrow> (exn + string) option" where
  "request_token md w =
     (case mm_find ''authorization'' md of
        Some token \<Rightarrow> Some (Inr token)
      | None \<Rightarrow> Context_At (contexts w) GlobalContext ''authorization'')"

lemma liftE_Inr [simp]: "bindC (liftE (Inr x)) k = k x"
  by (simp add: fun_eq_iff bindC_def liftE_def)

text \<open>The processor of the request is set up; then its context becomes the thread local one.\<close>

lemma handle_request_construct:
  fixes md :: metadata and w :: "'u world" and hooks :: "('v, 'u) hook_params list"
  assumes ok: "stack_ok n w" and md: "mm_sorted md"
    and tl: "contexts w ThreadLocalContext = Some \<lparr>ctx_metadata = old, ctx_parent = Some GlobalContext\<rparr>"
  shows "\<exists>w2. handle_request name md hooks func w =
      (case RequestHandler_Process \<lparr>pr_hooks = request_hooks hooks, pr_name = name, pr_type = RT_incoming,
            pr_context = Suc n\<rparr> func w2 of
         None \<Rightarrow> None | Some (r, w') \<Rightarrow> Some (r, pop_context n (pop_context (Suc n) w')))
    \<and> stack_ok (Suc (Suc n)) w2 \<and> app_clock w2 = app_clock w \<and> contexts w2 GlobalContext = contexts w GlobalContext
    \<and> contexts w2 (Suc n) = Some \<lparr>ctx_metadata = md, ctx_parent = Some ThreadLocalContext\<rparr>
    \<and> contexts w2 ThreadLocalContext = Some \<lparr>ctx_metadata = old, ctx_parent = Some GlobalContext\<rparr>"
proof -
  have lt: "ThreadLocalContext < n" "GlobalContext < n"
    using stack_ok_ThreadLocal [OF ok] by (simp_all add: GlobalContext_def ThreadLocalContext_def)
  let ?oc = "\<lparr>ctx_metadata = md, ctx_parent = Some ThreadLocalContext\<rparr>"
  let ?p = "\<lparr>pr_hooks = [], pr_name = name, pr_type = RT_incoming, pr_context = Suc n\<rparr> :: 'u processor"
  define w1 where "w1 = push_context md None w"
  have top: "stack_top w = n" by (rule stack_ok_top [OF ok])
  have ok1: "stack_ok (Suc n) w1" unfolding w1_def by (rule stack_ok_push [OF ok]) (simp_all add: md)
  have w1: "contexts w1 n = Some ?oc" "a < n \<Longrightarrow> contexts w1 a = contexts w a" "app_clock w1 = app_clock w" for a
    using top by (simp_all add: w1_def) (simp_all add: push_context_def)
  obtain w2 where c: "RequestProcessor_construct name RT_incoming n w1 = Some (Inr ?p, w2)" and ok2: "stack_ok (Suc (Suc n)) w2"
    using RequestProcessor_construct_stack [OF ok1 lessI] by blast
  have w2: "w2 = w1\<lparr>contexts := (contexts w1)(Suc n \<mapsto> ?oc, n \<mapsto> ?oc\<lparr>ctx_metadata := []\<rparr>), stack_top := Suc (Suc n)\<rparr>"
    using c RequestProcessor_construct_run [OF ok1 lessI w1(1), of name RT_incoming] by simp
  let ?globals = "handler_globals :: ('v, 'u) hook_params any list"
  have "RequestHandler_construct service_factory ?globals name n w1 =
      Some (Inr (?p\<lparr>pr_hooks := request_hooks ([] :: ('v, 'u) hook_params list)\<rparr>), w2)"
    unfolding RequestHandler_construct_def construct_with_globals_def bindC_Inr [where m = "RequestProcessor_construct name RT_incoming n", OF c]
      handler_globals_hooks
    by (simp add: ret_apply request_hooks_def)
  then have "with_processor (RequestHandler_construct service_factory ?globals name n) (\<lambda>p.
        bindC (liftE (With_each service_factory (map params hooks) p)) (\<lambda>p'. RequestHandler_Process p' func)) w1
    = cleanupC (RequestHandler_Process (?p\<lparr>pr_hooks := request_hooks hooks\<rparr>) func) (pop_context (Suc n)) w2"
    by (simp add: with_processor_def bindC_Inr With_each_hooks request_hooks_def cleanupC_def split: option.split)
  then have "handle_request name md hooks func w =
      (case RequestHandler_Process (?p\<lparr>pr_hooks := request_hooks hooks\<rparr>) func w2 of
         None \<Rightarrow> None | Some (r, w') \<Rightarrow> Some (r, pop_context n (pop_context (Suc n) w')))"
    by (simp add: handle_request_def with_context_run [OF stack_ok_world [OF ok] parent_ok_None] top cleanupC_def
        w1_def split: option.split)
  moreover have "contexts w2 GlobalContext = contexts w GlobalContext" "contexts w2 (Suc n) = Some ?oc" "app_clock w2 = app_clock w"
      "contexts w2 ThreadLocalContext = Some \<lparr>ctx_metadata = old, ctx_parent = Some GlobalContext\<rparr>"
    using w1 lt tl by (simp_all add: w2)
  ultimately show ?thesis using ok2 by (intro exI [of _ w2]) simp
qed

lemma Context_At_global:
  assumes "stack_ok n w"
  shows "\<exists>c. contexts w GlobalContext = Some c \<and> Context_At (contexts w) GlobalContext k =
    Some (case mm_find k (ctx_metadata c) of Some v \<Rightarrow> Inr v
          | None \<Rightarrow> Inl (OutOfRange (k @ '' not found in context metadata'')))"
  using stack_ok_store [OF assms] by (auto simp: store_ok_def Context_At.simps [of _ GlobalContext] split: option.split)

lemma handle_request_steps:
  fixes md :: metadata
  assumes "ready n w" and "mm_sorted md"
  shows "\<exists>w4. handle_request name md hooks func w =
      (case in_hooks (request_hooks hooks) func (Suc (Suc n)) w4 of
         None \<Rightarrow> None | Some (r, w') \<Rightarrow> Some (r, pop_context n (pop_context (Suc n) (pop_context (Suc (Suc n)) w'))))
    \<and> token_given (Suc (Suc (Suc n))) (Suc (Suc n)) (app_clock w) service_tokens (request_token md w) w4"
proof -
  obtain old where ok: "stack_ok n w"
    and tl: "contexts w ThreadLocalContext = Some \<lparr>ctx_metadata = old, ctx_parent = Some GlobalContext\<rparr>"
    using assms(1) by (auto simp: ready_def)
  have lt: "ThreadLocalContext < n" "GlobalContext < n" "GlobalContext \<noteq> ThreadLocalContext"
    using stack_ok_ThreadLocal [OF ok] by (simp_all add: GlobalContext_def ThreadLocalContext_def)
  let ?p = "\<lparr>pr_hooks = request_hooks hooks, pr_name = name, pr_type = RT_incoming, pr_context = Suc n\<rparr>"
  let ?tl = "\<lparr>ctx_metadata = md, ctx_parent = Some GlobalContext\<rparr>"
  obtain w2 where run2: "handle_request name md hooks func w = (case RequestHandler_Process ?p func w2 of
         None \<Rightarrow> None | Some (r, w') \<Rightarrow> Some (r, pop_context n (pop_context (Suc n) w')))"
    and ok2: "stack_ok (Suc (Suc n)) w2" and w2: "app_clock w2 = app_clock w" "contexts w2 GlobalContext = contexts w GlobalContext"
      "contexts w2 (Suc n) = Some \<lparr>ctx_metadata = md, ctx_parent = Some ThreadLocalContext\<rparr>"
      "contexts w2 ThreadLocalContext = Some \<lparr>ctx_metadata = old, ctx_parent = Some GlobalContext\<rparr>"
    using handle_request_construct [OF ok assms(2) tl] by blast
  define w3 where "w3 = w2\<lparr>contexts := (contexts w2)(ThreadLocalContext \<mapsto> ?tl)\<rparr>"
  have run3: "RequestHandler_Process ?p func w2 = RequestProcessor_Process ?p func w3"
    and ok3: "stack_ok (Suc (Suc n)) w3"
    using handler_enters [OF ok2, of ?p "\<lparr>ctx_metadata = md, ctx_parent = Some ThreadLocalContext\<rparr>"] w2(3,4)
    by (simp_all add: w3_def)
  have top: "stack_top w3 = Suc (Suc n)" by (rule stack_ok_top [OF ok3])
  have parent: "parent_ok w3 (Some (Suc n))" by (rule stack_ok_parent [OF ok3]) simp
  define w4 where "w4 = push_context (mm_of_list [(''request'', name)]) (Some (Suc n)) w3"
  have ok4: "stack_ok (Suc (Suc (Suc n))) w4" unfolding w4_def by (rule stack_ok_push [OF ok3]) simp_all
  have run4: "RequestProcessor_Process ?p func w3 = (case in_hooks (request_hooks hooks) func (Suc (Suc n)) w4 of
         None \<Rightarrow> None | Some (r, w') \<Rightarrow> Some (r, pop_context (Suc (Suc n)) w'))"
    by (simp add: with_context_run [OF stack_ok_world [OF ok3] parent, unfolded top] RequestProcessor_Process_def
        in_hooks_def Let_def w4_def)
  have c4: "contexts w4 (Suc (Suc n)) = Some \<lparr>ctx_metadata = [(''request'', name)], ctx_parent = Some (Suc n)\<rparr>"
      "contexts w4 (Suc n) = Some \<lparr>ctx_metadata = md, ctx_parent = Some ThreadLocalContext\<rparr>"
      "contexts w4 ThreadLocalContext = Some ?tl" "contexts w4 GlobalContext = contexts w GlobalContext"
    using lt top w2 by (simp_all add: w4_def w3_def push_context_def mm_of_list_def)
  have "Context_At (contexts w4) GlobalContext ''authorization'' = Context_At (contexts w) GlobalContext ''authorization''"
    using Context_At_global [OF ok4, of "''authorization''"] Context_At_global [OF ok, of "''authorization''"] c4(4) by auto
  then have "Context_At (contexts w4) (Suc (Suc n)) ''authorization'' = request_token md w"
    using c4 by (simp add: Context_At.simps [of _ "Suc (Suc n)"] Context_At.simps [of _ "Suc n"]
        Context_At.simps [of _ ThreadLocalContext] request_token_def split: option.split)
  moreover have "app_clock w4 = app_clock w" by (simp add: w4_def w3_def w2)
  ultimately show ?thesis
    using ok4 by (intro exI [of _ w4])
      (auto simp: run2 run3 run4 service_tokens_def Basic_Parameters_def split: option.split)
qed

subsection \<open>What becomes of a request\<close>

text \<open>The status that the exception handling makes of the result of a request.\<close>

definition handled :: "exn + Status \<Rightarrow> Status" where
  "handled r = (case r of Inl e \<Rightarrow> default_handling e | Inr s \<Rightarrow> s)"

lemma handled_simps [simp]: "handled (Inl e) = default_handling e" "handled (Inr s) = s"
  by (simp_all add: handled_def)

text \<open>
  The decision on a request that needs the scope \<open>v\<close>: who is not known, or lacks the scope, is
  told so and nothing changes; otherwise \<open>R\<close> relates the result of the function to what it left.
\<close>

definition request_outcome ::
    "string \<Rightarrow> (exn + string) option \<Rightarrow> (exn + Status \<Rightarrow> 'u \<Rightarrow> bool) \<Rightarrow> 'u \<Rightarrow> Status \<Rightarrow> 'u \<Rightarrow> bool" where
  "request_outcome v token R u s u' \<longleftrightarrow>
     (case granted_scopes service_tokens token of
        None \<Rightarrow> s = basic_denial service_tokens token \<and> u' = u
      | Some scopes \<Rightarrow>
          if v \<in> set scopes then \<exists>r. R r u' \<and> s = handled r else s = PermissionDenied \<and> u' = u)"

lemma service_tokens_sel [simp]:
  "bp_metadata_key service_tokens = ''authorization''"
  "bp_valid_tokens_with_scope service_tokens =
     [(''secret-read-only-token'', [''read'']), (''secret-token'', [''read'', ''write''])]"
  by (simp_all add: service_tokens_def Basic_Parameters_def mm_of_list_def)

lemma service_tokens_plain:
  "list_all (\<lambda>(token, scopes). list_all plain_word scopes) (bp_valid_tokens_with_scope service_tokens)"
  by (simp add: plain_word_def is_space_def)

lemma service_tokens_words:
  "granted_scopes service_tokens token = Some scopes \<Longrightarrow> extract_words (to_separated_string scopes '' '') = scopes"
  by (rule granted_scopes_words [OF service_tokens_plain])

lemma default_handling_valid:
  "(\<And>s d. e = ErrorForwardingException s d \<Longrightarrow> code s \<noteq> SC_invalid) \<Longrightarrow> code (default_handling e) \<noteq> SC_invalid"
  by (cases e) (simp_all add: default_handling_def)

lemma basic_denial_valid: "code (basic_denial ps token) \<noteq> SC_invalid"
  by (simp add: basic_denial_def missing_token_def split: option.split sum.split)

lemma PermissionDenied_valid: "code PermissionDenied \<noteq> SC_invalid"
  by (simp add: PermissionDenied_def)

lemma hoare_request_hooks:
  fixes hooks :: "('v, 'u) hook_params list" and func :: "'u func"
  defines "inner \<equiv> in_hooks (map (SetRequestType RT_incoming \<circ> hook_of) hooks) func"
  assumes ctx: "ctx < n"
    and func: "hoare (\<lambda>w. stack_ok n w \<and> app_clock w = u) (inner ctx) (\<lambda>r w. stack_ok n w \<and> R r (app_clock w))"
    and valid: "\<And>r u'. R r u' \<Longrightarrow> code (handled r) \<noteq> SC_invalid"
  shows "hoare (token_given n ctx u service_tokens token)
    (in_hooks (request_hooks (P_ClaimChecker (ScopeContains v) # hooks)) func ctx)
    (\<lambda>r w. stack_ok n w \<and> (\<exists>s. r = Inr s \<and> request_outcome v token R u s (app_clock w)))"
proof -
  let ?claim = "RequestHook_Process ''claim checker'' (ClaimChecker_pre_process (ScopeContains v)) default_post_process inner"
  let ?exc = "ExceptionHandlingRequestHook_Process default_exception_handling_mappers ?claim"
  let ?basic = "RequestHook_Process ''basic token authentication'' (basic_pre_process service_tokens) default_post_process ?exc"
  let ?C = "\<lambda>scopes r u'. if v \<in> set scopes then R r u' else r = Inr PermissionDenied \<and> u' = u"
  let ?E = "\<lambda>scopes r u'. \<exists>r0. ?C scopes r0 u' \<and> r = Inr (handled r0)"
  have valid_claim: "code (handled r) \<noteq> SC_invalid" if "?C scopes r u'" for scopes r u'
    using that valid PermissionDenied_valid by (auto split: if_splits)
  have claim: "hoare (authenticated n ctx u scopes) (?claim ctx) (\<lambda>r w. stack_ok n w \<and> ?C scopes r (app_clock w))"
    if "granted_scopes service_tokens token = Some scopes" for scopes
    by (rule hoare_scope_check [where R = R], rule ctx, rule func, use valid in force,
        rule service_tokens_words [OF that])
  have exc: "hoare (authenticated n ctx u scopes) (?exc ctx) (\<lambda>r w. stack_ok n w \<and> ?E scopes r (app_clock w))"
    if "granted_scopes service_tokens token = Some scopes" for scopes
    by (rule hoare_weaken, rule hoare_default_handling_state [where n = n and func = ?claim], rule claim [OF that])
      (auto simp: log_stable_def handled_def)
  have basic: "hoare (token_given n ctx u service_tokens token) (?basic ctx) (\<lambda>r w. stack_ok n w \<and>
      (case granted_scopes service_tokens token of
         None \<Rightarrow> r = Inr (basic_denial service_tokens token) \<and> app_clock w = u
       | Some scopes \<Rightarrow> ?E scopes r (app_clock w)))"
    by (rule hoare_basic_guard [where R = ?E], rule ctx, simp, erule exc) (use valid_claim in auto)
  have hooks: "in_hooks (request_hooks (P_ClaimChecker (ScopeContains v) # hooks)) func
      = hook_Process (SetRequestType RT_incoming (LoggingRequestHook Logging_Parameters)) ?basic"
    by (simp add: request_hooks_def inner_def BasicTokenAuthRequestHook_def TokenAuthRequestHook_def
        ExceptionHandlingRequestHook_def ClaimCheckerRequestHook_def fun_eq_iff)
  define B where "B r w \<longleftrightarrow> stack_ok n w \<and> (case granted_scopes service_tokens token of
      None \<Rightarrow> r = Inr (basic_denial service_tokens token) \<and> app_clock w = u
    | Some scopes \<Rightarrow> ?E scopes r (app_clock w))" for r :: "exn + Status" and w :: "'u world"
  have valid_B: "code s \<noteq> SC_invalid" if "B (Inr s) w" for s w
    using that valid_claim [of _ _ "app_clock w"] unfolding B_def
    by (cases "granted_scopes service_tokens token") (auto simp: basic_denial_valid)
  have stable: "log_stable n (B r)" "log_stable n (token_given n ctx u service_tokens token)" for r
    by (auto simp: log_stable_def B_def split: option.split)
  have levels: "loglevel_success Logging_Parameters \<noteq> LL_invalid" "loglevel_failure Logging_Parameters \<noteq> LL_invalid"
    by (simp_all add: Logging_Parameters_def)
  have guarded: "hoare (token_given n ctx u service_tokens token) (?basic ctx) B"
    by (rule hoare_weaken, rule basic) (simp add: B_def)
  note logging = hoare_logging [where func = ?basic and ctx = ctx and Q = B and t = RT_incoming,
      OF ctx levels(1) levels(2) stable(2,1) guarded valid_B]
  show ?thesis
    unfolding hooks
    by (rule hoare_weaken, rule logging)
      (auto simp: B_def request_outcome_def split: option.splits if_splits, blast, metis handled_simps(2))
qed

text \<open>
  A request of the service: the caller always gets a status, by the token of the request alone
  or by what the function did, and the contexts are those of before.
\<close>

lemma handle_request_outcome:
  fixes hooks :: "('v, 'u) hook_params list" and func :: "'u func" and md :: metadata
  assumes "ready n w" and "mm_sorted md"
    and func: "\<And>m ctx. ctx < m \<Longrightarrow>
      hoare (\<lambda>w'. stack_ok m w' \<and> app_clock w' = app_clock w)
        (in_hooks (map (SetRequestType RT_incoming \<circ> hook_of) hooks) func ctx)
        (\<lambda>r w'. stack_ok m w' \<and> R r (app_clock w'))"
    and valid: "\<And>r u'. R r u' \<Longrightarrow> code (handled r) \<noteq> SC_invalid"
  shows "\<exists>s w'. handle_request name md (P_ClaimChecker (ScopeContains v) # hooks) func w = Some (Inr s, w')
    \<and> stack_ok n w' \<and> request_outcome v (request_token md w) R (app_clock w) s (app_clock w')"
proof -
  let ?hooks = "P_ClaimChecker (ScopeContains v) # hooks"
  obtain w4 where run: "handle_request name md ?hooks func w =
      (case in_hooks (request_hooks ?hooks) func (Suc (Suc n)) w4 of
         None \<Rightarrow> None | Some (r, w') \<Rightarrow> Some (r, pop_context n (pop_context (Suc n) (pop_context (Suc (Suc n)) w'))))"
    and w4: "token_given (Suc (Suc (Suc n))) (Suc (Suc n)) (app_clock w) service_tokens (request_token md w) w4"
    using handle_request_steps [OF assms(1,2)] by blast
  have "hoare (token_given (Suc (Suc (Suc n))) (Suc (Suc n)) (app_clock w) service_tokens (request_token md w))
      (in_hooks (request_hooks ?hooks) func (Suc (Suc n)))
      (\<lambda>r w'. stack_ok (Suc (Suc (Suc n))) w' \<and>
         (\<exists>s. r = Inr s \<and> request_outcome v (request_token md w) R (app_clock w) s (app_clock w')))"
    by (rule hoare_request_hooks [OF lessI func [OF lessI]]) (rule valid)
  then obtain s w5 where run5: "in_hooks (request_hooks ?hooks) func (Suc (Suc n)) w4 = Some (Inr s, w5)"
    and ok5: "stack_ok (Suc (Suc (Suc n))) w5"
    and out: "request_outcome v (request_token md w) R (app_clock w) s (app_clock w5)"
    using w4 by (auto elim: hoareE)
  have tl: "ThreadLocalContext < n" using assms(1) by (auto simp: ready_def dest: stack_ok_ThreadLocal)
  then have "stack_ok n (pop_context n (pop_context (Suc n) (pop_context (Suc (Suc n)) w5)))"
    using ok5 by (intro stack_ok_pop) simp_all
  with run run5 out show ?thesis by simp
qed

end
