(* ===== verification/Mse_Starships_Endpoints.thy ===== *)
theory Mse_Starships_Endpoints
  imports Mse_Starships_Service Mse_Metadata_Converter
begin

text \<open>
  What the HTTP and the gRPC handler of the example have in common: the parts of the service that
  both work on, an endpoint that needs a scope, and the hook that caches the list of ships.
\<close>

declare split_paired_Ex [simp del] split_paired_All [simp del]

subsection \<open>The parts of the service\<close>

text \<open>
  The cache of the handler, the store of statuses and the state of the client. The records of the
  handlers extend it; the other component of the state is left to other parts of the program.
\<close>

record 'c service_parts =
  sv_cache :: "string map_data"
  sv_db :: status_map
  sv_client :: 'c

type_synonym ('b, 'c, 'z) service_app = "'b \<times> ('c, 'z) service_parts_scheme"

definition on_service ::
    "(('c, 'z) service_parts_scheme \<Rightarrow> ('c, 'z) service_parts_scheme) \<Rightarrow> (('b, 'c, 'z) service_app world, unit) comp" where
  "on_service f = modifyC (\<lambda>w. w\<lparr>app := (fst (app w), f (snd (app w)))\<rparr>)"

lemma on_service_run: "on_service f w = Some (Inr (), w\<lparr>app := (fst (app w), f (snd (app w)))\<rparr>)"
  by (simp add: on_service_def modifyC_apply)

definition service_cache :: "(string, ('b, 'c, 'z) service_app) Cache" where
  "service_cache = cache_in (\<lambda>u. sv_cache (snd u)) (\<lambda>d (b, s). (b, s\<lparr>sv_cache := d\<rparr>)) UnorderedMapCache"

interpretation service_cached: map_cache service_cache "\<lambda>u :: ('b, 'c, 'z) service_app. sv_cache (snd u)"
  by unfold_locales (auto simp: service_cache_def cache_in_def UnorderedMapCache_def zoomC_def comp_simps)

abbreviation service_status_db :: "('b, 'c, 'z) service_app StatusDB" where
  "service_status_db \<equiv> InMemoryStatusDB (\<lambda>u. sv_db (snd u)) (\<lambda>m (b, s). (b, s\<lparr>sv_db := m\<rparr>))"

interpretation service_store: status_db "service_status_db :: ('b, 'c, 'z) service_app StatusDB" "\<lambda>u. sv_db (snd u)"
    "\<lambda>m (b, s). (b, s\<lparr>sv_db := m\<rparr>)"
  by unfold_locales (auto simp: InMemoryStatusDB_def hoare_def comp_simps app_clock_def)

text \<open>What a client may change: its own state, and nothing that the handler owns.\<close>

definition client_part :: "('b, 'c, 'z) service_app \<Rightarrow> ('b, 'c, 'z) service_app \<Rightarrow> bool" where
  "client_part u u' \<longleftrightarrow> (\<exists>c. snd u' = (snd u)\<lparr>sv_client := c\<rparr>)"

lemma client_part_refl [simp]: "client_part u u"
  by (auto simp: client_part_def intro!: exI [of _ "sv_client (snd u)"])

lemma client_partD:
  "client_part u u' \<Longrightarrow> sv_db (snd u') = sv_db (snd u) \<and> sv_cache (snd u') = sv_cache (snd u) \<and>
     service_parts.more (snd u') = service_parts.more (snd u)"
  by (auto simp: client_part_def)

text \<open>
  Whether the client can be used is a matter of its own state and of the counters of the hooks; a
  usable client stays so.
\<close>

definition client_usable :: "('b \<Rightarrow> 'c \<Rightarrow> bool) \<Rightarrow> ('b, 'c, 'z) service_app \<Rightarrow> bool" where
  "client_usable usable u \<longleftrightarrow> usable (fst u) (sv_client (snd u))"

definition client_step :: "('b \<Rightarrow> 'c \<Rightarrow> bool) \<Rightarrow> ('b, 'c, 'z) service_app \<Rightarrow> ('b, 'c, 'z) service_app \<Rightarrow> bool" where
  "client_step usable u u' \<longleftrightarrow> client_part u u' \<and> client_usable usable u'"

lemma client_step_refl: "client_step usable u u \<longleftrightarrow> client_usable usable u"
  by (simp add: client_step_def)

lemma client_stepD:
  "client_step usable u u' \<Longrightarrow> client_usable usable u' \<and> sv_db (snd u') = sv_db (snd u) \<and> sv_cache (snd u') = sv_cache (snd u) \<and>
     service_parts.more (snd u') = service_parts.more (snd u)"
  by (auto simp: client_step_def client_part_def)

lemma client_step_always [simp]: "client_step (\<lambda>b c. True) = client_part" "client_usable (\<lambda>b c. True) = (\<lambda>u. True)"
  by (simp_all add: client_step_def client_usable_def fun_eq_iff)

abbreviation service_core ::
    "('b \<Rightarrow> 'c \<Rightarrow> bool) \<Rightarrow> ('b, 'c, 'z) service_app StarWarsClient \<Rightarrow> (string \<Rightarrow> bool) \<Rightarrow> StarshipProperties list \<Rightarrow>
     (string \<Rightarrow> StarshipProperties option) \<Rightarrow> bool" where
  "service_core usable client known catalogue ship_of \<equiv>
     starwars_client client known catalogue ship_of (client_step usable) (client_usable usable)"

lemma service_core_core:
  "service_core usable client known catalogue ship_of \<Longrightarrow>
   starship_core client known catalogue ship_of (client_step usable) (client_usable usable) service_status_db
     (\<lambda>u. sv_db (snd u)) (\<lambda>m (b, s). (b, s\<lparr>sv_db := m\<rparr>))"
  by (intro starship_core.intro starship_core_axioms.intro service_store.status_db_axioms) (auto dest: client_stepD)

definition set_ship_status :: "(string \<times> StarshipStatus) option \<Rightarrow> ('b, 'c, 'z) service_app \<Rightarrow> ('b, 'c, 'z) service_app" where
  "set_ship_status change u =
     (case change of None \<Rightarrow> u | Some (i, s) \<Rightarrow> (fst u, (snd u)\<lparr>sv_db := (sv_db (snd u))(i \<mapsto> s)\<rparr>))"

text \<open>An update behind the checks, when the id and the status could be read from the request.\<close>

lemma service_update_run:
  fixes u :: "('b, 'c, 'z) service_app" and x :: string
  assumes core: "service_core usable client known catalogue ship_of" and known: "known x" and usable: "client_usable usable u"
  shows "hoare (\<lambda>w. stack_ok m w \<and> app w = u)
    (thenC (Core_UpdateStatus client service_status_db x y) (ret (Status_of SC_ok [])))
    (\<lambda>r w. stack_ok m w \<and>
       r = (if ship_of x = None then Inl (OutOfRange ''invalid ship id'') else Inr (Status_of SC_ok [])) \<and>
       (\<exists>u1. client_step usable u u1 \<and> app w = set_ship_status (if ship_of x = None then None else Some (x, y)) u1))"
proof -
  note update = starship_core.UpdateStatus_run [OF service_core_core [OF core] usable known, of m y]
  have db: "(case u1 of (b, r) \<Rightarrow> (b, r\<lparr>sv_db := (sv_db (snd u))(x \<mapsto> y)\<rparr>)) = set_ship_status (Some (x, y)) u1"
    if "client_step usable u u1" for u1
    using client_stepD [OF that] by (cases u1) (simp add: set_ship_status_def)
  show ?thesis
  proof (cases "ship_of x")
    case None
    then show ?thesis by (intro hoare_thenC [OF update]) (auto simp: hoare_def set_ship_status_def)
  next
    case (Some p)
    then show ?thesis
      by (intro hoare_thenC [OF update]) (use Some db in \<open>auto simp del: prod.case simp: hoare_def ret_apply\<close>)
  qed
qed

subsection \<open>An endpoint that needs a scope\<close>

definition permitted :: "string \<Rightarrow> (exn + string) option \<Rightarrow> bool" where
  "permitted v token \<longleftrightarrow> (\<exists>scopes. granted_scopes service_tokens token = Some scopes \<and> v \<in> set scopes)"

definition reply_status :: "string \<Rightarrow> (exn + string) option \<Rightarrow> exn + Status \<Rightarrow> Status" where
  "reply_status v token res =
     (case granted_scopes service_tokens token of
        None \<Rightarrow> basic_denial service_tokens token
      | Some scopes \<Rightarrow> if v \<in> set scopes then handled res else PermissionDenied)"

lemma reply_status_valid: "code (handled res) \<noteq> SC_invalid \<Longrightarrow> code (reply_status v token res) \<noteq> SC_invalid"
  by (simp add: reply_status_def basic_denial_valid PermissionDenied_valid split: option.split)

lemma denial_codes [simp]: "code (basic_denial ps token) = SC_unauthenticated" "code PermissionDenied = SC_permission_denied"
  by (simp_all add: basic_denial_def missing_token_def PermissionDenied_def split: option.split sum.split)

lemma handled_map_sum: "handled (map_sum id f r) = (case r of Inl e \<Rightarrow> default_handling e | Inr x \<Rightarrow> f x)"
  by (cases r) simp_all

text \<open>
  With a function whose result is \<open>res\<close>: the status is fixed by the token and \<open>res\<close>, and without
  permission nothing happens. \<open>P\<close> and \<open>after\<close> say what the function does to the state.
\<close>

lemma request_reply:
  fixes hooks :: "('v, 'u) hook_params list" and func :: "'u func" and md :: metadata
  assumes "ready n w" and "mm_sorted md"
    and func: "\<And>m ctx. hoare (\<lambda>w'. stack_ok m w' \<and> app_clock w' = app_clock w)
        (in_hooks (map (SetRequestType RT_incoming \<circ> hook_of) hooks) func ctx)
        (\<lambda>r w'. stack_ok m w' \<and> r = res \<and> (\<exists>u1. P u1 (steady_clock w') \<and> app w' = after (steady_clock w') u1))"
    and res: "code (handled res) \<noteq> SC_invalid"
  shows "\<exists>w'. handle_request name md (P_ClaimChecker (ScopeContains v) # hooks) func w
      = Some (Inr (reply_status v (request_token md w) res), w') \<and> stack_ok n w' \<and>
     (if permitted v (request_token md w) then \<exists>u1. P u1 (steady_clock w') \<and> app w' = after (steady_clock w') u1
      else app_clock w' = app_clock w)"
proof -
  let ?R = "\<lambda>r u'. r = res \<and> (\<exists>u1. P u1 (snd u') \<and> fst u' = after (snd u') u1)"
  have "\<exists>s w'. handle_request name md (P_ClaimChecker (ScopeContains v) # hooks) func w = Some (Inr s, w')
    \<and> stack_ok n w' \<and> request_outcome v (request_token md w) ?R (app_clock w) s (app_clock w')"
    by (rule handle_request_outcome [OF assms(1,2)]) (use func res in \<open>auto simp: app_clock_def\<close>)
  then show ?thesis
    by (auto simp: request_outcome_def reply_status_def permitted_def app_clock_def split: option.splits if_splits)
qed

lemma ready_app [simp]: "ready n (w\<lparr>app := u\<rparr>) = ready n w"
  by (simp add: ready_def)

lemma request_token_app [simp]: "request_token md (w\<lparr>app := u\<rparr>) = request_token md w"
  by (simp add: request_token_def split: option.split)

lemma mm_sorted_ToContextMetadata [simp]: "mm_sorted (ToContextMetadata headers lower)"
  using ToContextMetadata_fold [of "[]" "\<lambda>k. if lower then map tolower_char k else k" headers]
  by (simp add: ToContextMetadata_def)


subsection \<open>The cached list of ships\<close>

definition cached_list :: "('b, 'c, 'z) service_app \<Rightarrow> string option" where
  "cached_list u =
     (case sv_cache (snd u) [] of
        None \<Rightarrow> None
      | Some e \<Rightarrow> (case el_data e of AnyOf _ c \<Rightarrow> Some c | _ \<Rightarrow> None))"

text \<open>What the endpoints leave in the cache, and readings of the 64 bit clock.\<close>

definition list_cache_ok :: "('b, 'c, 'z) service_app \<Rightarrow> bool" where
  "list_cache_ok u \<longleftrightarrow>
     (case sv_cache (snd u) [] of
        None \<Rightarrow> True
      | Some e \<Rightarrow> \<exists>c t. e = \<lparr>el_data = AnyOf ''std::string'' c, el_status = Status_OK, insertion_time = t\<rparr> \<and> - (2 ^ 63) \<le> t)"

definition clock_ok :: "'u world \<Rightarrow> bool" where
  "clock_ok w \<longleftrightarrow> - (2 ^ 63) \<le> steady_clock w \<and> steady_clock w < 2 ^ 63"

definition list_cached :: "string \<Rightarrow> int \<Rightarrow> ('b, 'c, 'z) service_app \<Rightarrow> ('b, 'c, 'z) service_app" where
  "list_cached c t u = (fst u, (snd u)\<lparr>sv_cache := (sv_cache (snd u))([] \<mapsto>
     \<lparr>el_data = AnyOf ''std::string'' c, el_status = Status_OK, insertion_time = t\<rparr>)\<rparr>)"

text \<open>
  Both handlers cache the list for ever under the empty key, as a text that \<open>writer\<close> finds in the
  state and \<open>reader\<close> puts into the response.
\<close>

definition list_caching ::
    "(('c, 'z) service_parts_scheme \<Rightarrow> string) \<Rightarrow>
     (string \<Rightarrow> ('c, 'z) service_parts_scheme \<Rightarrow> ('c, 'z) service_parts_scheme) \<Rightarrow>
     (string, ('b, 'c, 'z) service_app) CachingParameters" where
  "list_caching writer reader =
     NeverExpire
       (WithCacheWriter (getC (\<lambda>w. AnyOf ''std::string'' (writer (snd (app w)))))
       (WithCacheReader (\<lambda>data. bindC (liftE (any_cast ''std::string'' data)) (\<lambda>s. on_service (reader s)))
       (WithConstantResponse (Caching_Parameters service_cache))))"

lemma list_caching_sel [simp]:
  "CachingParameters.cache (list_caching writer reader) = service_cache"
  "key_generator (list_caching writer reader) = ret ''''"
  "cache_writer (list_caching writer reader) = getC (\<lambda>w. AnyOf ''std::string'' (writer (snd (app w))))"
  "status_codes_to_cache (list_caching writer reader) = {SC_ok}"
  "cache_reader (list_caching writer reader)
     = (\<lambda>data. bindC (liftE (any_cast ''std::string'' data)) (\<lambda>s. on_service (reader s)))"
  by (simp_all add: list_caching_def NeverExpire_def WithMaxAge_def WithCacheWriter_def WithCacheReader_def
      WithConstantResponse_def Caching_Parameters_def)

lemma list_hit:
  fixes func :: "('b, 'c, 'z) service_app func"
  assumes "sv_cache (snd (app w)) [] = Some \<lparr>el_data = AnyOf ''std::string'' c, el_status = Status_OK, insertion_time = t\<rparr>"
    and "- (2 ^ 63) \<le> t" and "steady_clock w < 2 ^ 63"
  shows "CachingRequestHook_Process (list_caching writer reader) func ctx w
    = Some (Inr Status_OK, w\<lparr>app := (fst (app w), reader c (snd (app w)))\<rparr>)"
proof -
  have "cache_age t (steady_clock w) \<le> max_age (list_caching writer reader)"
    unfolding list_caching_def by (rule never_expires [OF assms(2,3)])
  with assms(1) have "CachingRequestHook_Process (list_caching writer reader) func ctx w
      = thenC (cache_reader (list_caching writer reader) (AnyOf ''std::string'' c)) (ret Status_OK) w"
    using service_cached.caching_hit [of "list_caching writer reader" w "[]" _ func ctx]
    by (simp add: ret_apply Cache_IsValid_def any_has_value_def)
  then show ?thesis by (simp add: thenC_Inr on_service_run ret_apply)
qed

lemma list_miss:
  fixes func :: "('b, 'c, 'z) service_app func"
  assumes "sv_cache (snd (app w)) [] = None"
    and "func ctx w = Some (map_sum id (\<lambda>c. Status_OK) d, w1)" and "\<And>c. d = Inr c \<Longrightarrow> writer (snd (app w1)) = c"
  shows "CachingRequestHook_Process (list_caching writer reader) func ctx w =
    Some (map_sum id (\<lambda>c. Status_OK) d, case d of Inl _ \<Rightarrow> w1 | Inr c \<Rightarrow> w1\<lparr>app := list_cached c (steady_clock w1) (app w1)\<rparr>)"
proof -
  let ?ps = "list_caching writer reader"
  have miss: "CachingRequestHook_Process ?ps func ctx w = cache_miss ?ps [] func ctx w"
    by (rule service_cached.caching_miss) (simp_all add: assms(1) ret_apply)
  show ?thesis
  proof (cases d)
    case (Inl e)
    then have "func ctx w = Some (Inl e, w1)" using assms(2) by simp
    with service_cached.cache_miss_passes [where func = func, OF this] miss show ?thesis by (simp add: Inl)
  next
    case (Inr c)
    have f: "func ctx w = Some (Inr Status_OK, w1)" and c: "writer (snd (app w1)) = c" using assms(2,3) Inr by simp_all
    obtain u where ins: "Cache_Insert service_cache [] \<lparr>el_data = AnyOf ''std::string'' c, el_status = Status_OK,
          insertion_time = steady_clock w1\<rparr> (app w1) = Some (Inr (), u)"
      and store: "cache_miss ?ps [] func ctx w = Some (Inr Status_OK, w1\<lparr>app := u\<rparr>)"
      using service_cached.cache_miss_stores [where ps = ?ps and func = func and key = "[]", OF _ f] c
      by (auto simp: getC_apply)
    have "u = list_cached c (steady_clock w1) (app w1)"
      using ins by (auto simp: service_cache_def cache_in_def UnorderedMapCache_def zoomC_def modifyC_apply list_cached_def
          split: prod.splits)
    with miss store Inr show ?thesis by simp
  qed
qed

text \<open>The endpoint behind the hook: \<open>d\<close> is what the function makes when it is called.\<close>

definition list_result :: "exn + string \<Rightarrow> string option \<Rightarrow> exn + string" where
  "list_result d cached = (case cached of Some c \<Rightarrow> Inr c | None \<Rightarrow> d)"

definition list_after ::
    "(string \<Rightarrow> ('c, 'z) service_parts_scheme \<Rightarrow> ('c, 'z) service_parts_scheme) \<Rightarrow>
     (string \<Rightarrow> ('c, 'z) service_parts_scheme \<Rightarrow> ('c, 'z) service_parts_scheme) \<Rightarrow>
     exn + string \<Rightarrow> string option \<Rightarrow> int \<Rightarrow> ('b, 'c, 'z) service_app \<Rightarrow> ('b, 'c, 'z) service_app" where
  "list_after reader filled d cached t u =
     (case cached of
        Some c \<Rightarrow> (fst u, reader c (snd u))
      | None \<Rightarrow> (case d of Inl _ \<Rightarrow> u | Inr c \<Rightarrow> list_cached c t (fst u, filled c (snd u))))"

lemma list_run:
  fixes func :: "('b, 'c, 'z) service_app func" and u :: "('b, 'c, 'z) service_app"
  assumes ok: "list_cache_ok u" and usable: "client_usable usable u" and t: "t < 2 ^ 63" and writer: "\<And>c s. d = Inr c \<Longrightarrow> writer (filled c s) = c"
    and func: "hoare (\<lambda>w. stack_ok m w \<and> app_clock w = (u, t)) (func ctx)
      (\<lambda>r w. stack_ok m w \<and> r = map_sum id (\<lambda>c. Status_OK) d \<and>
         (\<exists>u1. (client_step usable u u1 \<and> t \<le> steady_clock w) \<and> app w = (case d of Inl _ \<Rightarrow> u1 | Inr c \<Rightarrow> (fst u1, filled c (snd u1)))))"
  shows "hoare (\<lambda>w. stack_ok m w \<and> app_clock w = (u, t))
    (CachingRequestHook_Process (list_caching writer reader) func ctx)
    (\<lambda>r w. stack_ok m w \<and> r = map_sum id (\<lambda>c. Status_OK) (list_result d (cached_list u)) \<and>
       (\<exists>u1. (client_step usable u u1 \<and> t \<le> steady_clock w) \<and>
          app w = list_after reader filled d (cached_list u) (steady_clock w) u1))"
proof (rule hoareI, elim conjE)
  fix w :: "('b, 'c, 'z) service_app world"
  assume w: "stack_ok m w" "app_clock w = (u, t)"
  then have u: "app w = u" "steady_clock w = t" by (simp_all add: app_clock_def)
  let ?m = "CachingRequestHook_Process (list_caching writer reader) func ctx"
  let ?Q = "\<lambda>r w. stack_ok m w \<and> r = map_sum id (\<lambda>c. Status_OK) (list_result d (cached_list u)) \<and>
       (\<exists>u1. (client_step usable u u1 \<and> t \<le> steady_clock w) \<and>
          app w = list_after reader filled d (cached_list u) (steady_clock w) u1)"
  show "\<exists>r w'. ?m w = Some (r, w') \<and> ?Q r w'"
  proof (cases "sv_cache (snd u) []")
    case (Some e)
    then obtain c t1 where e: "e = \<lparr>el_data = AnyOf ''std::string'' c, el_status = Status_OK, insertion_time = t1\<rparr>"
      "- (2 ^ 63) \<le> t1" using ok by (auto simp: list_cache_ok_def)
    have "?m w = Some (Inr Status_OK, w\<lparr>app := (fst (app w), reader c (snd (app w)))\<rparr>)"
      by (rule list_hit) (use Some e u t in simp_all)
    moreover have "cached_list u = Some c" using Some e by (simp add: cached_list_def)
    ultimately show ?thesis using w u usable client_step_refl [of usable u]
      by (auto simp: list_result_def list_after_def)
  next
    case None
    from func w obtain w1 where run: "func ctx w = Some (map_sum id (\<lambda>c. Status_OK) d, w1)" and ok1: "stack_ok m w1"
      and w1: "\<exists>u1. (client_step usable u u1 \<and> t \<le> steady_clock w1) \<and>
        app w1 = (case d of Inl _ \<Rightarrow> u1 | Inr c \<Rightarrow> (fst u1, filled c (snd u1)))"
      by (elim hoareE [where w = w]) auto
    have c: "cached_list u = None" using None by (simp add: cached_list_def)
    have "?m w = Some (map_sum id (\<lambda>c. Status_OK) d,
        case d of Inl _ \<Rightarrow> w1 | Inr c \<Rightarrow> w1\<lparr>app := list_cached c (steady_clock w1) (app w1)\<rparr>)"
      by (rule list_miss [where func = func and d = d]) (use None u w1 writer run in auto)
    then show ?thesis using w1 ok1 by (cases d) (auto simp: list_result_def list_after_def c)
  qed
qed

end
