(* ===== verification/Mse_Json.thy ===== *)
theory Mse_Json
  imports Mse_Effects
begin

text \<open>
  The JSON library of the example, which is not part of the repository: a record of the
  operations that the code calls.
\<close>

text \<open>\<open>json_elements\<close> is what a range based \<open>for\<close> visits; \<open>json_get\<close> is the conversion to a string.\<close>

record 'j json_library =
  json_string :: "string \<Rightarrow> 'j"
  json_object :: "(string \<times> 'j) list \<Rightarrow> 'j"
  json_array :: "'j list \<Rightarrow> 'j"
  json_dump :: "'j \<Rightarrow> exn + string"
  json_parse :: "string \<Rightarrow> exn + 'j"
  json_at :: "'j \<Rightarrow> string \<Rightarrow> exn + 'j"
  json_get :: "'j \<Rightarrow> exn + string"
  json_is_null :: "'j \<Rightarrow> bool"
  json_elements :: "'j \<Rightarrow> 'j list"

text \<open>Its exceptions are a class of their own below \<open>std::exception\<close>.\<close>

definition json_exception :: "exn + 'a \<Rightarrow> bool" where
  "json_exception r \<longleftrightarrow> (case r of Inl e \<Rightarrow> (\<exists>d. e = StdException d) | Inr _ \<Rightarrow> True)"

definition json_exceptions :: "'j json_library \<Rightarrow> bool" where
  "json_exceptions js \<longleftrightarrow> (\<forall>j. json_exception (json_dump js j)) \<and> (\<forall>s. json_exception (json_parse js s)) \<and>
     (\<forall>j k. json_exception (json_at js j k)) \<and> (\<forall>j. json_exception (json_get js j))"

end
