(* ===== verification/Mse_Http_Handler.thy ===== *)
theory Mse_Http_Handler
  imports Mse_Starships_Endpoints Mse_Status_Converter Mse_Metadata_Converter Mse_Regex Mse_Json
begin

text \<open>
  \<open>adapters/http-handler\<close>: the three endpoints of the example service over HTTP. The JSON library is
  a parameter, and so is what the HTTP server does in \<open>listen\<close> and \<open>stop\<close>. The state of the application holds the cache of the handler, the
  store of statuses, the state of the client, and, of the request that is being handled, the
  local variable \<open>content\<close> and the response. The first component is left to other parts.
\<close>

declare split_paired_Ex [simp del] split_paired_All [simp del]

subsection \<open>Conversions\<close>

text \<open>The exception behind the \<open>switch\<close> is for values that are no enumerator.\<close>

fun StarshipStatus_to_string :: "StarshipStatus \<Rightarrow> string" where
  "StarshipStatus_to_string SS_Unknown = ''Unknown''"
| "StarshipStatus_to_string SS_UnderConstruction = ''UnderConstruction''"
| "StarshipStatus_to_string SS_OnStandby = ''OnStandby''"
| "StarshipStatus_to_string SS_InAction = ''InAction''"
| "StarshipStatus_to_string SS_Damaged = ''Damaged''"
| "StarshipStatus_to_string SS_Destroyed = ''Destroyed''"

definition StarshipStatus_lookupMap :: "(string \<times> StarshipStatus) list" where
  "StarshipStatus_lookupMap =
     [(''Unknown'', SS_Unknown), (''UnderConstruction'', SS_UnderConstruction), (''OnStandby'', SS_OnStandby),
      (''InAction'', SS_InAction), (''Damaged'', SS_Damaged), (''Destroyed'', SS_Destroyed)]"

definition StarshipStatus_from_string :: "string \<Rightarrow> exn + StarshipStatus" where
  "StarshipStatus_from_string statusString =
     (case map_of StarshipStatus_lookupMap statusString of
        None \<Rightarrow> Inl (LogicError (''invalid status: '' @ statusString))
      | Some s \<Rightarrow> Inr s)"

definition starship_to_json :: "'j json_library \<Rightarrow> Starship \<Rightarrow> 'j" where
  "starship_to_json js starship =
     json_object js
       [(''properties'', json_object js
           [(''id'', json_string js (sp_Id (ss_Properties starship))),
            (''name'', json_string js (sp_Name (ss_Properties starship))),
            (''description'', json_string js (sp_Description (ss_Properties starship)))]),
        (''status'', json_string js (StarshipStatus_to_string (ss_Status starship)))]"

definition starships_to_json :: "'j json_library \<Rightarrow> Starship list \<Rightarrow> 'j" where
  "starships_to_json js starships = json_array js (map (starship_to_json js) starships)"

definition http_id_regex :: regex where
  "http_id_regex = Concat (Text ''/'') (Concat (Group 1 (Many regex_dot))
     (Concat (Text ''/'') (Group 2 (Many regex_dot))))"

definition http_extractId :: "string \<Rightarrow> exn + string" where
  "http_extractId path =
     (case regex_match http_id_regex path of
        None \<Rightarrow> Inl (InvalidArgument ''invalid URL'')
      | Some ip_result \<Rightarrow> Inr (sub_match ip_result 2))"

lemma StarshipStatus_roundtrip: "StarshipStatus_from_string (StarshipStatus_to_string s) = Inr s"
  by (cases s) (simp_all add: StarshipStatus_from_string_def StarshipStatus_lookupMap_def)

lemma StarshipStatus_from_string_Inr: "StarshipStatus_from_string x = Inr s \<longleftrightarrow> x = StarshipStatus_to_string s"
  by (cases s) (auto simp: StarshipStatus_from_string_def StarshipStatus_lookupMap_def split: option.splits if_splits)

text \<open>The id is what stands behind the last slash.\<close>

lemma http_extractId_last:
  assumes "list_all regex_dot a" and "list_all regex_dot b" and "CHR ''/'' \<notin> set b"
  shows "http_extractId (''/'' @ a @ ''/'' @ b) = Inr b"
proof -
  let ?s = "a @ CHR ''/'' # b"
  let ?k2 = "\<lambda>s' cs'. at_end s' (cs'(2 \<mapsto> take (length b - length s') b))"
  let ?k1 = "\<lambda>s' cs'. regex_run (Concat (Text ''/'') (Group 2 (Many regex_dot))) at_end s'
      (cs'(1 \<mapsto> take (length ?s - length s') ?s))"
  have "run_many regex_dot ?k2 (b @ []) cs = Some (cs(2 \<mapsto> b))" for cs
    by (rule run_many_longest) (simp_all add: assms(2) at_end_def)
  then have here: "?k1 (CHR ''/'' # b) Map.empty = Some [1 \<mapsto> a, 2 \<mapsto> b]" by simp
  have "run_many regex_dot ?k1 ?s Map.empty = Some [1 \<mapsto> a, 2 \<mapsto> b]"
  proof (rule run_many_stops, rule assms(1), rule here)
    fix u v assume uv: "CHR ''/'' # b = u @ v" "u \<noteq> []"
    then have "CHR ''/'' \<notin> set v" using assms(3) by (cases u) auto
    then show "?k1 v Map.empty = None" by (cases v) auto
  qed
  then show ?thesis by (simp add: http_extractId_def http_id_regex_def regex_match_def sub_match_def)
qed

subsection \<open>The endpoints\<close>

record http_request =
  rq_headers :: "(string \<times> string) list"
  rq_path :: string
  rq_body :: string

record 'c http_service = "'c service_parts" +
  hs_content :: string
  hs_response :: "(string \<times> string) option"
  hs_status :: int

type_synonym ('b, 'c) http_app = "'b \<times> 'c http_service"

definition set_content :: "string \<Rightarrow> string \<Rightarrow> (('b, 'c) http_app world, unit) comp" where
  "set_content content content_type = on_service (\<lambda>s. s\<lparr>hs_response := Some (content, content_type)\<rparr>)"

text \<open>\<open>response.status = ToHttpStatusCode(... .code)\<close>\<close>

definition set_status :: "(('b, 'c) http_app world, Status) comp \<Rightarrow> (('b, 'c) http_app world, unit) comp" where
  "set_status m =
     bindC m (\<lambda>status.
     bindC (liftE (ToHttpStatusCode DefaultStatusCodeToHttpStatusCode (code status))) (\<lambda>c.
       on_service (\<lambda>s. s\<lparr>hs_status := c\<rparr>)))"

definition http_list_caching :: "(string, ('b, 'c) http_app) CachingParameters" where
  "http_list_caching =
     NeverExpire
       (WithCacheWriter (getC (\<lambda>w. AnyOf ''std::string'' (hs_content (snd (app w)))))
       (WithCacheReader (\<lambda>data. bindC (liftE (any_cast ''std::string'' data)) (\<lambda>s. set_content s ''text/json''))
       (WithConstantResponse (Caching_Parameters service_cache))))"

definition http_list_func :: "'j json_library \<Rightarrow> ('b, 'c) http_app Api \<Rightarrow> ('b, 'c) http_app func" where
  "http_list_func js api ctx =
     bindC (Api_ListStarShips api) (\<lambda>starships.
     bindC (liftE (json_dump js (starships_to_json js starships))) (\<lambda>content.
       thenC (on_service (\<lambda>s. s\<lparr>hs_content := content\<rparr>))
       (thenC (set_content content ''text/json'')
              (ret Status_OK))))"

definition HttpHandler_listStarShips ::
    "'j json_library \<Rightarrow> ('b, 'c) http_app Api \<Rightarrow> http_request \<Rightarrow> (('b, 'c) http_app world, unit) comp" where
  "HttpHandler_listStarShips js api request =
     thenC (on_service (\<lambda>s. s\<lparr>hs_content := []\<rparr>))
       (set_status (handle_request ''listStarShips'' (ToContextMetadata (rq_headers request) True)
          [P_ClaimChecker (ScopeContains ''read''), P_Caching http_list_caching] (http_list_func js api)))"

definition http_get_func ::
    "'j json_library \<Rightarrow> ('b, 'c) http_app Api \<Rightarrow> http_request \<Rightarrow> ('b, 'c) http_app func" where
  "http_get_func js api request ctx =
     bindC (liftE (http_extractId (rq_path request))) (\<lambda>i.
     bindC (Api_GetStarShip api i) (\<lambda>starship.
     bindC (liftE (json_dump js (starship_to_json js starship))) (\<lambda>content.
       thenC (set_content content ''text/json'')
             (ret (Status_of SC_ok [])))))"

definition HttpHandler_getStarShip ::
    "'j json_library \<Rightarrow> ('b, 'c) http_app Api \<Rightarrow> http_request \<Rightarrow> (('b, 'c) http_app world, unit) comp" where
  "HttpHandler_getStarShip js api request =
     set_status (handle_request ''getStarShip'' (ToContextMetadata (rq_headers request) True)
       [P_ClaimChecker (ScopeContains ''read'') :: (string, ('b, 'c) http_app) hook_params] (http_get_func js api request))"

text \<open>
  C++ leaves open which argument of the call is evaluated first (\<open>id_first\<close>); both may throw.
\<close>

definition http_body_status :: "'j json_library \<Rightarrow> string \<Rightarrow> exn + StarshipStatus" where
  "http_body_status js body =
     (case json_parse js body of Inl e \<Rightarrow> Inl e | Inr j \<Rightarrow>
       (case json_at js j ''status'' of Inl e \<Rightarrow> Inl e | Inr v \<Rightarrow>
         (case json_get js v of Inl e \<Rightarrow> Inl e | Inr s \<Rightarrow> StarshipStatus_from_string s)))"

definition http_update_func ::
    "'j json_library \<Rightarrow> bool \<Rightarrow> ('b, 'c) http_app Api \<Rightarrow> http_request \<Rightarrow> ('b, 'c) http_app func" where
  "http_update_func js id_first api request ctx =
     bindC
       (if id_first
        then bindC (liftE (http_extractId (rq_path request))) (\<lambda>i.
               bindC (liftE (http_body_status js (rq_body request))) (\<lambda>s. ret (i, s)))
        else bindC (liftE (http_body_status js (rq_body request))) (\<lambda>s.
               bindC (liftE (http_extractId (rq_path request))) (\<lambda>i. ret (i, s))))
       (\<lambda>(i, s). thenC (Api_UpdateStatus api i s) (ret (Status_of SC_ok [])))"

definition HttpHandler_updateStatus ::
    "'j json_library \<Rightarrow> bool \<Rightarrow> ('b, 'c) http_app Api \<Rightarrow> http_request \<Rightarrow> (('b, 'c) http_app world, unit) comp" where
  "HttpHandler_updateStatus js id_first api request =
     set_status (handle_request ''updateStatus'' (ToContextMetadata (rq_headers request) True)
       [P_ClaimChecker (ScopeContains ''write'') :: (string, ('b, 'c) http_app) hook_params]
       (http_update_func js id_first api request))"

subsection \<open>The handler\<close>

text \<open>The registered routes, each a method, the pattern of the path and the endpoint.\<close>

definition HttpHandler_routes ::
    "'j json_library \<Rightarrow> bool \<Rightarrow> ('b, 'c) http_app Api \<Rightarrow>
     (string \<times> regex \<times> (http_request \<Rightarrow> (('b, 'c) http_app world, unit) comp)) list" where
  "HttpHandler_routes js id_first api =
     [(''GET'', Text ''/StarShips'', HttpHandler_listStarShips js api),
      (''GET'', Concat (Text ''/StarShip/'') (Group 1 (Many regex_dot)), HttpHandler_getStarShip js api),
      (''PUT'', Concat (Text ''/StarShipStatus/'') (Group 1 (Many regex_dot)), HttpHandler_updateStatus js id_first api)]"

definition HttpHandler_Handle ::
    "(string \<Rightarrow> int \<Rightarrow> ('u world, unit) comp) \<Rightarrow> string \<Rightarrow> int \<Rightarrow> ('u world, unit) comp" where
  "HttpHandler_Handle listen host port =
     thenC (mse_log ''http-handler.cpp'' ''Handle'' 106 LL_info (''serving on '' @ host @ '':'' @ show_int port))
           (listen host port)"

definition HttpHandler_Stop :: "('u world, unit) comp \<Rightarrow> ('u world, unit) comp" where
  "HttpHandler_Stop stop = thenC (mse_log ''http-handler.cpp'' ''Stop'' 112 LL_info ''stop requested'') stop"

subsection \<open>An endpoint from the token to the status code\<close>

definition http_code :: "StatusCode \<Rightarrow> int" where
  "http_code c = (case map_of DefaultStatusCodeToHttpStatusCode c of Some h \<Rightarrow> h | None \<Rightarrow> 0)"

lemma ToHttpStatusCode_code:
  "c \<noteq> SC_invalid \<Longrightarrow> ToHttpStatusCode DefaultStatusCodeToHttpStatusCode c = Inr (http_code c)"
  by (cases c) (simp_all add: ToHttpStatusCode_def http_code_def DefaultStatusCodeToHttpStatusCode_def)

lemma http_code_simps [simp]:
  "http_code SC_ok = 200" "http_code SC_unauthenticated = 401" "http_code SC_permission_denied = 403"
  "http_code SC_invalid_argument = 400" "http_code SC_out_of_range = 400" "http_code SC_internal = 500"
  by (simp_all add: http_code_def DefaultStatusCodeToHttpStatusCode_def)

definition answered :: "int \<Rightarrow> ('b, 'c) http_app \<Rightarrow> ('b, 'c) http_app" where
  "answered c u = (fst u, (snd u)\<lparr>hs_status := c\<rparr>)"

lemma answered_sel [simp]:
  "fst (answered c u) = fst u" "sv_cache (snd (answered c u)) = sv_cache (snd u)"
  "sv_db (snd (answered c u)) = sv_db (snd u)" "sv_client (snd (answered c u)) = sv_client (snd u)"
  "hs_response (snd (answered c u)) = hs_response (snd u)" "hs_status (snd (answered c u)) = c"
  by (simp_all add: answered_def)

text \<open>
  An endpoint whose function has the result \<open>res\<close>: \<open>reply\<close> says, from the scopes of the caller, the
  HTTP status and what \<open>after\<close> the request has been done to the state.
\<close>

lemma endpoint_reply:
  fixes hooks :: "('v, ('b, 'c) http_app) hook_params list" and func :: "('b, 'c) http_app func"
  assumes "ready n w" and "P (app w) (steady_clock w)"
    and func: "\<And>m ctx. hoare (\<lambda>w'. stack_ok m w' \<and> app_clock w' = app_clock w)
        (in_hooks (map (SetRequestType RT_incoming \<circ> hook_of) hooks) func ctx)
        (\<lambda>r w'. stack_ok m w' \<and> r = res \<and> (\<exists>u1. P u1 (steady_clock w') \<and> app w' = after new (steady_clock w') u1))"
    and res: "code (handled res) \<noteq> SC_invalid" "http_code (code (handled res)) \<notin> {401, 403}"
    and after: "\<And>t u. after None t u = u"
    and reply: "reply None = (401, None)" "\<And>scopes. v \<notin> set scopes \<Longrightarrow> reply (Some scopes) = (403, None)"
      "\<And>scopes. v \<in> set scopes \<Longrightarrow> reply (Some scopes) = (http_code (code (handled res)), new)"
  shows "\<exists>w' u1. set_status (handle_request name (ToContextMetadata headers lower)
        (P_ClaimChecker (ScopeContains v) # hooks) func) w = Some (Inr (), w') \<and> stack_ok n w' \<and>
     (case reply (granted_scopes service_tokens (request_token (ToContextMetadata headers lower) w)) of
       (c, x) \<Rightarrow> P u1 (steady_clock w') \<and> app w' = answered c (after x (steady_clock w') u1) \<and> (c = 401 \<or> c = 403 \<longrightarrow> u1 = app w))"
proof -
  let ?token = "request_token (ToContextMetadata headers lower) w" and ?hooks = "P_ClaimChecker (ScopeContains v) # hooks"
  let ?s = "reply_status v ?token res"
  obtain w1 where run: "handle_request name (ToContextMetadata headers lower) ?hooks func w = Some (Inr ?s, w1)" "stack_ok n w1"
    and w1: "if permitted v ?token then \<exists>u1. P u1 (steady_clock w1) \<and> app w1 = after new (steady_clock w1) u1
      else app_clock w1 = app_clock w"
    using request_reply [where P = P and after = "after new", OF assms(1) mm_sorted_ToContextMetadata func res(1)] by blast
  let ?w' = "w1\<lparr>app := answered (http_code (code ?s)) (app w1)\<rparr>"
  have "set_status (handle_request name (ToContextMetadata headers lower) ?hooks func) w = Some (Inr (), ?w')"
    using run(1) reply_status_valid [OF res(1), of v ?token]
    by (simp add: set_status_def bindC_Inr liftE_apply ToHttpStatusCode_code on_service_run answered_def)
  moreover have "stack_ok n ?w'" using run(2) by simp
  moreover obtain u1 where "case reply (granted_scopes service_tokens ?token) of (c, x) \<Rightarrow>
      P u1 (steady_clock ?w') \<and> app ?w' = answered c (after x (steady_clock ?w') u1) \<and> (c = 401 \<or> c = 403 \<longrightarrow> u1 = app w)"
  proof (cases "permitted v ?token")
    case True
    then obtain scopes u1 where "granted_scopes service_tokens ?token = Some scopes" "v \<in> set scopes"
        "P u1 (steady_clock w1)" "app w1 = after new (steady_clock w1) u1"
      using w1 by (auto simp: permitted_def)
    with reply(3) res(2) show ?thesis by (intro that [of u1]) (simp add: reply_status_def)
  next
    case False
    then have "app w1 = app w" "steady_clock w1 = steady_clock w" using w1 by (simp_all add: app_clock_def)
    with False assms(2) reply after show ?thesis
      by (intro that [of "app w"]) (auto simp: reply_status_def permitted_def split: option.splits)
  qed
  ultimately show ?thesis by (intro exI [of _ ?w'] exI [of _ u1] conjI)
qed

subsection \<open>Updating a status\<close>

text \<open>
  What the endpoint decides, from the scopes of the token, the id in the path, the status in the
  body and the ships that exist: the HTTP status and the change of the store.
\<close>

definition http_update_decision ::
    "bool \<Rightarrow> (string \<Rightarrow> StarshipProperties option) \<Rightarrow> string list option \<Rightarrow> exn + string \<Rightarrow> exn + StarshipStatus \<Rightarrow>
     int \<times> (string \<times> StarshipStatus) option" where
  "http_update_decision id_first ship_of scopes i s =
     (case scopes of
        None \<Rightarrow> (401, None)
      | Some scopes \<Rightarrow>
          if ''write'' \<notin> set scopes then (403, None)
          else (case (i, s) of
                  (Inr i, Inr s) \<Rightarrow> if ship_of i = None then (400, None) else (200, Some (i, s))
                | (Inl _, Inr _) \<Rightarrow> (400, None)
                | (Inr _, Inl _) \<Rightarrow> (500, None)
                | (Inl _, Inl _) \<Rightarrow> (if id_first then 400 else 500, None)))"

lemma http_extractId_error: "http_extractId path = Inl e \<Longrightarrow> e = InvalidArgument ''invalid URL''"
  by (auto simp: http_extractId_def split: option.splits)

lemma http_body_status_error:
  assumes "json_exceptions js" and "http_body_status js body = Inl e"
  shows "default_handling e = Status_of SC_internal ''unknown exception''"
proof -
  have "(\<exists>d. e = StdException d) \<or> (\<exists>d. e = LogicError d)"
    using assms by (auto simp: http_body_status_def StarshipStatus_from_string_def json_exceptions_def
        json_exception_def split: sum.splits option.splits)
  then show ?thesis by (auto simp: default_handling_def)
qed

text \<open>The result of the function behind the hooks.\<close>

definition http_update_result ::
    "bool \<Rightarrow> (string \<Rightarrow> StarshipProperties option) \<Rightarrow> exn + string \<Rightarrow> exn + StarshipStatus \<Rightarrow> exn + Status" where
  "http_update_result id_first ship_of i s =
     (case (i, s) of
        (Inr i, Inr s) \<Rightarrow>
          if ship_of i = None then Inl (OutOfRange ''invalid ship id'') else Inr (Status_of SC_ok [])
      | (Inl e, Inr _) \<Rightarrow> Inl e
      | (Inr _, Inl e) \<Rightarrow> Inl e
      | (Inl e, Inl e') \<Rightarrow> Inl (if id_first then e else e'))"

definition http_update_change ::
    "(string \<Rightarrow> StarshipProperties option) \<Rightarrow> exn + string \<Rightarrow> exn + StarshipStatus \<Rightarrow> (string \<times> StarshipStatus) option" where
  "http_update_change ship_of i s =
     (case (i, s) of (Inr i, Inr s) \<Rightarrow> if ship_of i = None then None else Some (i, s) | _ \<Rightarrow> None)"

lemma http_update_answer:
  fixes path body :: string
  assumes "json_exceptions js"
  defines "i \<equiv> http_extractId path" and "s \<equiv> http_body_status js body"
  shows "''write'' \<in> set scopes \<Longrightarrow> http_update_decision id_first ship_of (Some scopes) i s
      = (http_code (code (handled (http_update_result id_first ship_of i s))), http_update_change ship_of i s)"
    "code (handled (http_update_result id_first ship_of i s)) \<noteq> SC_invalid"
    "http_code (code (handled (http_update_result id_first ship_of i s))) \<notin> {401, 403}"
  using http_extractId_error [of path] http_body_status_error [OF assms(1), of body]
  by (auto simp: i_def s_def http_update_result_def http_update_decision_def http_update_change_def split: sum.splits)
    (auto simp: default_handling_def)

lemma http_update_func_run:
  fixes js :: "'j json_library"
  assumes core: "service_core usable client known catalogue ship_of"
    and known: "\<And>i. http_extractId (rq_path request) = Inr i \<Longrightarrow> known i" and usable: "client_usable usable u"
  defines "i \<equiv> http_extractId (rq_path request)" and "s \<equiv> http_body_status js (rq_body request)"
  shows "hoare (\<lambda>w. stack_ok m w \<and> app w = u)
    (http_update_func js id_first (Core client service_status_db) request ctx)
    (\<lambda>r w. stack_ok m w \<and> r = http_update_result id_first ship_of i s \<and>
       (\<exists>u1. client_step usable u u1 \<and> app w = set_ship_status (http_update_change ship_of i s) u1))"
proof (cases "\<exists>x y. i = Inr x \<and> s = Inr y")
  case False
  let ?e = "projl (http_update_result id_first ship_of i s)"
  have "http_update_func js id_first (Core client service_status_db) request ctx = throw ?e"
    using False by (cases i; cases s)
      (auto simp: http_update_func_def i_def s_def http_update_result_def bindC_throw fun_eq_iff comp_simps)
  moreover have "http_update_result id_first ship_of i s = Inl ?e" "http_update_change ship_of i s = None"
    using False by (cases i; cases s; auto simp: http_update_result_def http_update_change_def)+
  ultimately show ?thesis
    using client_step_refl [of usable u] usable by (metis (mono_tags, lifting) hoare_throw set_ship_status_def option.simps(4))
next
  case True
  then obtain x y where xy: "i = Inr x" "s = Inr y" by blast
  have known: "known x" using xy(1) known by (simp add: i_def)
  have E: "http_update_func js id_first (Core client service_status_db) request ctx =
      thenC (Core_UpdateStatus client service_status_db x y) (ret (Status_of SC_ok []))"
    using xy by (simp add: http_update_func_def i_def [symmetric] s_def [symmetric] Core_def bindC_ret_left)
  show ?thesis
    unfolding E
    by (rule hoare_weaken, rule service_update_run [OF core known usable])
      (cases "ship_of x"; simp add: xy http_update_result_def http_update_change_def)
qed

lemma updateStatus_run:
  fixes js :: "'j json_library"
  assumes "ready n w" and "service_core usable client known catalogue ship_of" and "json_exceptions js"
    and "\<And>i. http_extractId (rq_path request) = Inr i \<Longrightarrow> known i" and "client_usable usable (app w)"
  shows "\<exists>w' u1.
     HttpHandler_updateStatus js id_first (Core client service_status_db) request w = Some (Inr (), w') \<and> stack_ok n w' \<and>
     (case http_update_decision id_first ship_of
         (granted_scopes service_tokens (request_token (ToContextMetadata (rq_headers request) True) w))
         (http_extractId (rq_path request)) (http_body_status js (rq_body request)) of
       (c, change) \<Rightarrow> client_step usable (app w) u1 \<and> app w' = answered c (set_ship_status change u1) \<and>
         (c = 401 \<or> c = 403 \<longrightarrow> u1 = app w))"
proof -
  let ?i = "http_extractId (rq_path request)" and ?s = "http_body_status js (rq_body request)"
  note r = http_update_answer [where id_first = id_first and ship_of = ship_of and path = "rq_path request"
      and body = "rq_body request", OF assms(3)]
  show ?thesis
    unfolding HttpHandler_updateStatus_def
  proof (rule endpoint_reply [where P = "\<lambda>u1 t. client_step usable (app w) u1" and res = "http_update_result id_first ship_of ?i ?s"
        and after = "\<lambda>x t. set_ship_status x" and new = "http_update_change ship_of ?i ?s"
        and reply = "\<lambda>scopes. http_update_decision id_first ship_of scopes ?i ?s"])
    fix m ctx
    show "hoare (\<lambda>w'. stack_ok m w' \<and> app_clock w' = app_clock w)
        (in_hooks (map (SetRequestType RT_incoming \<circ> hook_of) []) (http_update_func js id_first (Core client service_status_db) request) ctx)
        (\<lambda>r w'. stack_ok m w' \<and> r = http_update_result id_first ship_of ?i ?s \<and>
           (\<exists>u1. client_step usable (app w) u1 \<and> app w' = set_ship_status (http_update_change ship_of ?i ?s) u1))"
      unfolding list.map in_hooks_simps
      by (rule hoare_strengthen, rule http_update_func_run [OF assms(2,4,5)]) (simp_all add: app_clock_def)
  qed (use assms(1,5) r in \<open>simp_all add: client_step_refl set_ship_status_def http_update_decision_def [of _ _ None]
        http_update_decision_def [of _ _ "Some scopes" for scopes]\<close>)
qed

subsection \<open>Reading a ship\<close>

text \<open>The answer to a reader: the HTTP status and the response, if the function sets one.\<close>

definition http_get_reply ::
    "'j json_library \<Rightarrow> status_map \<Rightarrow> (string \<Rightarrow> StarshipProperties option) \<Rightarrow> string list option \<Rightarrow> exn + string \<Rightarrow>
     int \<times> string option" where
  "http_get_reply js db ship_of scopes i =
     (case scopes of
        None \<Rightarrow> (401, None)
      | Some scopes \<Rightarrow>
          if ''read'' \<notin> set scopes then (403, None)
          else (case i of
                  Inl _ \<Rightarrow> (400, None)
                | Inr i \<Rightarrow>
                    (case ship_of i of
                       None \<Rightarrow> (400, None)
                     | Some p \<Rightarrow>
                         (case json_dump js (starship_to_json js \<lparr>ss_Properties = p, ss_Status = value_or (db i) SS_Unknown\<rparr>) of
                            Inl _ \<Rightarrow> (500, None)
                          | Inr content \<Rightarrow> (200, Some content)))))"

definition http_get_result ::
    "'j json_library \<Rightarrow> status_map \<Rightarrow> (string \<Rightarrow> StarshipProperties option) \<Rightarrow> exn + string \<Rightarrow> exn + string" where
  "http_get_result js db ship_of i =
     (case i of Inl e \<Rightarrow> Inl e | Inr i \<Rightarrow>
       (case ship_of i of None \<Rightarrow> Inl (OutOfRange ''invalid ship id'') | Some p \<Rightarrow>
          json_dump js (starship_to_json js \<lparr>ss_Properties = p, ss_Status = value_or (db i) SS_Unknown\<rparr>)))"

definition responded :: "string option \<Rightarrow> ('b, 'c) http_app \<Rightarrow> ('b, 'c) http_app" where
  "responded content u =
     (case content of None \<Rightarrow> u | Some c \<Rightarrow> (fst u, (snd u)\<lparr>hs_response := Some (c, ''text/json'')\<rparr>))"

lemma responded_sel [simp]:
  "fst (responded c u) = fst u" "sv_cache (snd (responded c u)) = sv_cache (snd u)"
  "sv_db (snd (responded c u)) = sv_db (snd u)" "sv_client (snd (responded c u)) = sv_client (snd u)"
  "hs_response (snd (responded c u)) = (case c of None \<Rightarrow> hs_response (snd u) | Some c \<Rightarrow> Some (c, ''text/json''))"
  by (simp_all add: responded_def split: option.split)

lemma set_content_run: "set_content c ''text/json'' w = Some (Inr (), w\<lparr>app := responded (Some c) (app w)\<rparr>)"
  by (simp add: set_content_def on_service_def modifyC_apply responded_def)

lemma json_dump_error:
  assumes "json_exceptions js" and "json_dump js j = Inl e"
  shows "default_handling e = Status_of SC_internal ''unknown exception''"
proof -
  have "json_exception (json_dump js j)" using assms(1) by (simp add: json_exceptions_def)
  with assms(2) show ?thesis by (auto simp: json_exception_def default_handling_def)
qed

lemma http_get_answer:
  fixes js :: "'j json_library" and path :: string and db :: status_map
    and ship_of :: "string \<Rightarrow> StarshipProperties option"
  assumes "json_exceptions js"
  defines "i \<equiv> http_extractId path" and "r \<equiv> http_get_result js db ship_of (http_extractId path)"
  shows "''read'' \<in> set scopes \<Longrightarrow> http_get_reply js db ship_of (Some scopes) i
      = (http_code (code (handled (map_sum id (\<lambda>c. Status_OK) r))), case r of Inl _ \<Rightarrow> None | Inr c \<Rightarrow> Some c)"
    "code (handled (map_sum id (\<lambda>c. Status_OK) r)) \<noteq> SC_invalid"
    "http_code (code (handled (map_sum id (\<lambda>c. Status_OK) r))) \<notin> {401, 403}"
proof -
  note dump = json_dump_error [OF assms(1)]
  show "''read'' \<in> set scopes \<Longrightarrow> http_get_reply js db ship_of (Some scopes) i
      = (http_code (code (handled (map_sum id (\<lambda>c. Status_OK) r))), case r of Inl _ \<Rightarrow> None | Inr c \<Rightarrow> Some c)"
    "code (handled (map_sum id (\<lambda>c. Status_OK) r)) \<noteq> SC_invalid"
    "http_code (code (handled (map_sum id (\<lambda>c. Status_OK) r))) \<notin> {401, 403}"
    using http_extractId_error [of path]
    by (auto simp: i_def r_def http_get_result_def http_get_reply_def dump handled_map_sum split: sum.splits option.splits)
      (auto simp: default_handling_def)
qed

lemma http_get_func_run:
  fixes js :: "'j json_library" and u :: "('b, 'c) http_app" and ship_of :: "string \<Rightarrow> StarshipProperties option"
  assumes core: "service_core usable client known catalogue ship_of"
    and known: "\<And>i. http_extractId (rq_path request) = Inr i \<Longrightarrow> known i" and usable: "client_usable usable u"
  defines "r0 \<equiv> http_get_result js (sv_db (snd u)) ship_of (http_extractId (rq_path request))"
  shows "hoare (\<lambda>w. stack_ok m w \<and> app w = u)
    (http_get_func js (Core client service_status_db) request ctx)
    (\<lambda>r w. stack_ok m w \<and> r = map_sum id (\<lambda>c. Status_OK) r0 \<and>
       (\<exists>u1. client_step usable u u1 \<and> app w = responded (case r0 of Inl _ \<Rightarrow> None | Inr c \<Rightarrow> Some c) u1))"
proof (cases "http_extractId (rq_path request)")
  case (Inl e)
  then have "http_get_func js (Core client service_status_db) request ctx = throw e" "r0 = Inl e"
    by (simp_all add: http_get_func_def fun_eq_iff comp_simps r0_def http_get_result_def)
  then show ?thesis
  proof (intro hoareI, elim conjE, goal_cases)
    case (1 w)
    then show ?case
      by (intro exI [of _ "Inl e"] exI [of _ w] exI [of _ u] conjI) (simp_all add: throw_apply responded_def client_step_refl usable)
  qed
next
  case (Inr i)
  note run = starship_core.GetStarShip_run [OF service_core_core [OF core] usable known [OF Inr], of m]
  have E: "http_get_func js (Core client service_status_db) request ctx =
      bindC (Core_GetStarShip client service_status_db i) (\<lambda>starship.
      bindC (liftE (json_dump js (starship_to_json js starship))) (\<lambda>content.
        thenC (set_content content ''text/json'') (ret (Status_of SC_ok []))))"
    using Inr by (simp add: http_get_func_def Core_def)
  show ?thesis
    unfolding E
  proof (rule hoare_bindC [OF run])
    fix starship
    show "hoare (\<lambda>w. Inr starship = (case ship_of i of None \<Rightarrow> Inl (OutOfRange ''invalid ship id'')
          | Some p \<Rightarrow> Inr \<lparr>ss_Properties = p, ss_Status = value_or (sv_db (snd u) i) SS_Unknown\<rparr>)
        \<and> stack_ok m w \<and> client_step usable u (app w))
      (bindC (liftE (json_dump js (starship_to_json js starship))) (\<lambda>content.
        thenC (set_content content ''text/json'') (ret (Status_of SC_ok []))))
      (\<lambda>r w. stack_ok m w \<and> r = map_sum id (\<lambda>c. Status_OK) r0 \<and>
       (\<exists>u1. client_step usable u u1 \<and> app w = responded (case r0 of Inl _ \<Rightarrow> None | Inr c \<Rightarrow> Some c) u1))"
    proof (rule hoareI, goal_cases)
      case (1 w)
      then have r0: "r0 = json_dump js (starship_to_json js starship)"
        using Inr by (auto simp: r0_def http_get_result_def split: option.splits)
      show ?case
      proof (cases r0)
        case (Inl e)
        note d = r0 [unfolded Inl, symmetric]
        show ?thesis unfolding Inl using d 1
          by (intro exI [of _ "Inl e"] exI [of _ w] exI [of _ "app w"] conjI)
            (simp_all add: bindC_Inl liftE_apply responded_def)
      next
        case (Inr c)
        note d = r0 [unfolded Inr, symmetric]
        show ?thesis unfolding Inr using d 1
          by (intro exI [of _ "Inr Status_OK"] exI [of _ "w\<lparr>app := responded (Some c) (app w)\<rparr>"] exI [of _ "app w"] conjI)
            (simp_all add: bindC_Inr liftE_apply comp_simps set_content_run Status_of_def Status_OK_def)
      qed
    qed
  qed (use Inr in \<open>auto simp: r0_def http_get_result_def responded_def split: option.splits\<close>)
qed

lemma getStarShip_run:
  fixes js :: "'j json_library"
  assumes "ready n w" and "service_core usable client known catalogue ship_of" and "json_exceptions js"
    and "\<And>i. http_extractId (rq_path request) = Inr i \<Longrightarrow> known i" and "client_usable usable (app w)"
  shows "\<exists>w' u1.
     HttpHandler_getStarShip js (Core client service_status_db) request w = Some (Inr (), w') \<and> stack_ok n w' \<and>
     (case http_get_reply js (sv_db (snd (app w))) ship_of
         (granted_scopes service_tokens (request_token (ToContextMetadata (rq_headers request) True) w))
         (http_extractId (rq_path request)) of
       (c, content) \<Rightarrow> client_step usable (app w) u1 \<and> app w' = answered c (responded content u1) \<and>
         (c = 401 \<or> c = 403 \<longrightarrow> u1 = app w))"
proof -
  let ?i = "http_extractId (rq_path request)"
  let ?res = "http_get_result js (sv_db (snd (app w))) ship_of ?i"
  let ?content = "case ?res of Inl _ \<Rightarrow> None | Inr c \<Rightarrow> Some c"
  note r = http_get_answer [where js = js and path = "rq_path request" and db = "sv_db (snd (app w))"
      and ship_of = ship_of, OF assms(3)]
  show ?thesis
    unfolding HttpHandler_getStarShip_def
  proof (rule endpoint_reply [where P = "\<lambda>u1 t. client_step usable (app w) u1" and res = "map_sum id (\<lambda>c. Status_OK) ?res"
        and after = "\<lambda>x t. responded x" and new = ?content
        and reply = "\<lambda>scopes. http_get_reply js (sv_db (snd (app w))) ship_of scopes ?i"])
    fix m ctx
    show "hoare (\<lambda>w'. stack_ok m w' \<and> app_clock w' = app_clock w)
        (in_hooks (map (SetRequestType RT_incoming \<circ> hook_of) []) (http_get_func js (Core client service_status_db) request) ctx)
        (\<lambda>r w'. stack_ok m w' \<and> r = map_sum id (\<lambda>c. Status_OK) ?res \<and>
           (\<exists>u1. client_step usable (app w) u1 \<and> app w' = responded ?content u1))"
      unfolding list.map in_hooks_simps
      by (rule hoare_strengthen, rule http_get_func_run [OF assms(2,4,5)]) (simp_all add: app_clock_def)
  qed (use assms(1,5) r in \<open>simp_all add: client_step_refl responded_def http_get_reply_def [of _ _ _ None]
        http_get_reply_def [of _ _ _ "Some scopes" for scopes]\<close>)
qed

subsection \<open>Listing the ships\<close>

definition http_list_text :: "'j json_library \<Rightarrow> status_map \<Rightarrow> StarshipProperties list \<Rightarrow> exn + string" where
  "http_list_text js db catalogue = json_dump js (starships_to_json js (map (ship_with_status db) catalogue))"

definition http_list_reply ::
    "'j json_library \<Rightarrow> status_map \<Rightarrow> StarshipProperties list \<Rightarrow> string option \<Rightarrow> string list option \<Rightarrow> int \<times> string option" where
  "http_list_reply js db catalogue cached scopes =
     (case scopes of
        None \<Rightarrow> (401, None)
      | Some scopes \<Rightarrow>
          if ''read'' \<notin> set scopes then (403, None)
          else (case list_result (http_list_text js db catalogue) cached of
                  Inl _ \<Rightarrow> (500, None)
                | Inr content \<Rightarrow> (200, Some content)))"

definition http_read :: "string \<Rightarrow> 'c http_service \<Rightarrow> 'c http_service" where
  "http_read c s = s\<lparr>hs_response := Some (c, ''text/json'')\<rparr>"

definition http_filled :: "string \<Rightarrow> 'c http_service \<Rightarrow> 'c http_service" where
  "http_filled c s = s\<lparr>hs_content := c, hs_response := Some (c, ''text/json'')\<rparr>"

lemma http_list_caching_eq: "http_list_caching = list_caching hs_content http_read"
  by (simp add: http_list_caching_def list_caching_def set_content_def http_read_def [abs_def])

lemma http_filled_content [simp]: "hs_content (http_filled c s) = c"
  by (simp add: http_filled_def)

lemma http_list_func_run:
  fixes js :: "'j json_library" and u :: "('b, 'c) http_app"
  assumes core: "service_core usable client known catalogue ship_of" and usable: "client_usable usable u"
  defines "d \<equiv> http_list_text js (sv_db (snd u)) catalogue"
  shows "hoare (\<lambda>w. stack_ok m w \<and> app_clock w = (u, t)) (http_list_func js (Core client service_status_db) ctx)
    (\<lambda>r w. stack_ok m w \<and> r = map_sum id (\<lambda>c. Status_OK) d \<and>
       (\<exists>u1. (client_step usable u u1 \<and> t \<le> steady_clock w) \<and>
          app w = (case d of Inl _ \<Rightarrow> u1 | Inr c \<Rightarrow> (fst u1, http_filled c (snd u1)))))"
proof (rule hoareI)
  fix w :: "('b, 'c) http_app world" assume w: "stack_ok m w \<and> app_clock w = (u, t)"
  obtain w1 where list: "Core_ListStarShips client service_status_db w
      = Some (Inr (map (ship_with_status (sv_db (snd u))) catalogue), w1)"
    and w1: "stack_ok m w1" "client_step usable u (app w1)" "t \<le> steady_clock w1"
    using starship_core.ListStarShips_run [OF service_core_core [OF core] usable, of m t] w by (auto elim: hoareE)
  have "http_list_func js (Core client service_status_db) ctx w = Some (map_sum id (\<lambda>c. Status_OK) d,
      case d of Inl _ \<Rightarrow> w1 | Inr c \<Rightarrow> w1\<lparr>app := (fst (app w1), http_filled c (snd (app w1)))\<rparr>)"
    using list by (cases d)
      (simp_all add: d_def http_list_text_def http_list_func_def Core_def bindC_Inr bindC_Inl liftE_apply thenC_Inr
        on_service_run set_content_def http_filled_def ret_apply)
  with w1 show "\<exists>r w'. http_list_func js (Core client service_status_db) ctx w = Some (r, w') \<and>
      (stack_ok m w' \<and> r = map_sum id (\<lambda>c. Status_OK) d \<and>
       (\<exists>u1. (client_step usable u u1 \<and> t \<le> steady_clock w') \<and>
          app w' = (case d of Inl _ \<Rightarrow> u1 | Inr c \<Rightarrow> (fst u1, http_filled c (snd u1)))))"
    by (cases d) auto
qed

text \<open>What a successful answer leaves: the response, and the list in the cache if it is the first.\<close>

definition http_list_after ::
    "string option \<Rightarrow> string option \<Rightarrow> int \<Rightarrow> ('b, 'c) http_app \<Rightarrow> ('b, 'c) http_app" where
  "http_list_after cached content t u =
     (case content of None \<Rightarrow> u | Some c \<Rightarrow> list_after http_read http_filled (Inr c) cached t u)"

lemma http_list_after_eq:
  "list_after http_read http_filled d cached t u
   = http_list_after cached (case list_result d cached of Inl _ \<Rightarrow> None | Inr c \<Rightarrow> Some c) t u"
  by (auto simp: list_after_def http_list_after_def list_result_def split: option.split sum.split)

lemma http_list_answer:
  fixes js :: "'j json_library" and db :: status_map and catalogue :: "StarshipProperties list" and cached :: "string option"
  assumes "json_exceptions js"
  defines "r \<equiv> list_result (http_list_text js db catalogue) cached"
  shows "''read'' \<in> set scopes \<Longrightarrow> http_list_reply js db catalogue cached (Some scopes)
      = (http_code (code (handled (map_sum id (\<lambda>c. Status_OK) r))), case r of Inl _ \<Rightarrow> None | Inr c \<Rightarrow> Some c)"
    "code (handled (map_sum id (\<lambda>c. Status_OK) r)) \<noteq> SC_invalid"
    "http_code (code (handled (map_sum id (\<lambda>c. Status_OK) r))) \<notin> {401, 403}"
proof -
  note dump = json_dump_error [OF assms(1)]
  show "''read'' \<in> set scopes \<Longrightarrow> http_list_reply js db catalogue cached (Some scopes)
      = (http_code (code (handled (map_sum id (\<lambda>c. Status_OK) r))), case r of Inl _ \<Rightarrow> None | Inr c \<Rightarrow> Some c)"
    "code (handled (map_sum id (\<lambda>c. Status_OK) r)) \<noteq> SC_invalid"
    "http_code (code (handled (map_sum id (\<lambda>c. Status_OK) r))) \<notin> {401, 403}"
    by (auto simp: r_def http_list_text_def list_result_def http_list_reply_def dump handled_map_sum
        split: sum.splits option.splits)
qed

text \<open>The local variable \<open>content\<close> is new.\<close>

definition cleared :: "('b, 'c) http_app \<Rightarrow> ('b, 'c) http_app" where
  "cleared u = (fst u, (snd u)\<lparr>hs_content := []\<rparr>)"

lemma cleared_sel [simp]:
  "fst (cleared u) = fst u" "sv_cache (snd (cleared u)) = sv_cache (snd u)" "sv_db (snd (cleared u)) = sv_db (snd u)"
  "sv_client (snd (cleared u)) = sv_client (snd u)" "hs_response (snd (cleared u)) = hs_response (snd u)"
  "cached_list (cleared u) = cached_list u" "list_cache_ok (cleared u) = list_cache_ok u"
  "client_usable usable (cleared u) = client_usable usable u"
  by (simp_all add: client_usable_def cleared_def cached_list_def list_cache_ok_def)

lemma listStarShips_run:
  fixes js :: "'j json_library"
  assumes "ready n w" and "service_core usable client known catalogue ship_of" and "json_exceptions js"
    and "list_cache_ok (app w)" and "steady_clock w < 2 ^ 63" and "client_usable usable (app w)"
  shows "\<exists>w' u1.
     HttpHandler_listStarShips js (Core client service_status_db) request w = Some (Inr (), w') \<and> stack_ok n w' \<and>
     (case http_list_reply js (sv_db (snd (app w))) catalogue (cached_list (app w))
         (granted_scopes service_tokens (request_token (ToContextMetadata (rq_headers request) True) w)) of
       (c, content) \<Rightarrow> (client_step usable (cleared (app w)) u1 \<and> steady_clock w \<le> steady_clock w') \<and>
         app w' = answered c (http_list_after (cached_list (app w)) content (steady_clock w') u1) \<and>
         (c = 401 \<or> c = 403 \<longrightarrow> u1 = cleared (app w)))"
proof -
  let ?func = "http_list_func js (Core client service_status_db)" and ?u = "cleared (app w)"
  let ?d = "http_list_text js (sv_db (snd (app w))) catalogue" and ?cached = "cached_list (app w)"
  let ?res = "list_result ?d ?cached"
  let ?content = "case ?res of Inl _ \<Rightarrow> None | Inr c \<Rightarrow> Some c"
  let ?w = "w\<lparr>app := ?u\<rparr>"
  note r = http_list_answer [OF assms(3), where db = "sv_db (snd (app w))" and catalogue = catalogue and cached = ?cached]
  have E: "HttpHandler_listStarShips js (Core client service_status_db) request w =
      set_status (handle_request ''listStarShips'' (ToContextMetadata (rq_headers request) True)
          [P_ClaimChecker (ScopeContains ''read''), P_Caching http_list_caching] ?func) ?w"
    by (simp add: HttpHandler_listStarShips_def on_service_run thenC_Inr cleared_def)
  have func: "hoare (\<lambda>w'. stack_ok m w' \<and> app_clock w' = app_clock ?w)
      (in_hooks (map (SetRequestType RT_incoming \<circ> hook_of) [P_Caching http_list_caching]) ?func ctx)
      (\<lambda>r w'. stack_ok m w' \<and> r = map_sum id (\<lambda>c. Status_OK) ?res \<and>
         (\<exists>u1. (client_step usable ?u u1 \<and> steady_clock w \<le> steady_clock w') \<and>
            app w' = http_list_after ?cached ?content (steady_clock w') u1))" for m ctx
    using list_run [where u = ?u and t = "steady_clock w" and writer = hs_content and reader = http_read and filled = http_filled
        and d = ?d and m = m and func = ?func and ctx = ctx]
      http_list_func_run [OF assms(2), of ?u m "steady_clock w" js ctx] assms(4-6)
    by (simp add: CachingRequestHook_def http_list_caching_eq http_list_after_eq app_clock_def)
  have "\<exists>w' u1. HttpHandler_listStarShips js (Core client service_status_db) request w = Some (Inr (), w') \<and> stack_ok n w' \<and>
     (case http_list_reply js (sv_db (snd (app w))) catalogue ?cached
         (granted_scopes service_tokens (request_token (ToContextMetadata (rq_headers request) True) ?w)) of
       (c, content) \<Rightarrow> (client_step usable ?u u1 \<and> steady_clock w \<le> steady_clock w') \<and>
         app w' = answered c (http_list_after ?cached content (steady_clock w') u1) \<and>
         (c = 401 \<or> c = 403 \<longrightarrow> u1 = app ?w))"
    unfolding E
    by (rule endpoint_reply [where P = "\<lambda>u1 t. client_step usable ?u u1 \<and> steady_clock w \<le> t"
        and after = "http_list_after ?cached", OF _ _ func])
      (use assms(1,6) r in \<open>simp_all add: client_step_refl http_list_after_def http_list_reply_def [of _ _ _ _ None]
        http_list_reply_def [of _ _ _ _ "Some scopes" for scopes]\<close>)
  then show ?thesis by simp
qed

end
