(* ===== verification/Mse_Http_Service.thy ===== *)
theory Mse_Http_Service
  imports Mse_Http_Handler
begin

text \<open>
  The HTTP service as its callers see it: runs of requests, each served by a thread of the server,
  against an abstract service of two variables, the statuses that were set and the list of ships
  that was answered first. The last section instantiates the JSON library and the client.
\<close>

declare split_paired_Ex [simp del] split_paired_All [simp del]

subsection \<open>Runs\<close>

datatype http_call =
    HC_List http_request
  | HC_Get http_request
  | HC_Update http_request

fun http_call_request :: "http_call \<Rightarrow> http_request" where
  "http_call_request (HC_List request) = request"
| "http_call_request (HC_Get request) = request"
| "http_call_request (HC_Update request) = request"

fun http_endpoint ::
    "'j json_library \<Rightarrow> bool \<Rightarrow> ('b, 'c) http_app Api \<Rightarrow> http_call \<Rightarrow> (('b, 'c) http_app world, unit) comp" where
  "http_endpoint js id_first api (HC_List request) = HttpHandler_listStarShips js api request"
| "http_endpoint js id_first api (HC_Get request) = HttpHandler_getStarShip js api request"
| "http_endpoint js id_first api (HC_Update request) = HttpHandler_updateStatus js id_first api request"

text \<open>What the service keeps between requests: the entry of its cache, and a client that can be used.\<close>

definition service_ok :: "('b \<Rightarrow> 'c \<Rightarrow> bool) \<Rightarrow> ('b, 'c) http_app \<Rightarrow> bool" where
  "service_ok usable u \<longleftrightarrow> list_cache_ok u \<and> client_usable usable u"

lemmas service_ok_defs = service_ok_def list_cache_ok_def client_usable_def

text \<open>The server makes a new response object for each request.\<close>

definition new_response :: "('b, 'c) http_app \<Rightarrow> ('b, 'c) http_app" where
  "new_response u = (fst u, (snd u)\<lparr>hs_response := None, hs_status := -1\<rparr>)"

lemma new_response_sel [simp]:
  "sv_cache (snd (new_response u)) = sv_cache (snd u)" "sv_db (snd (new_response u)) = sv_db (snd u)"
  "hs_response (snd (new_response u)) = None" "cached_list (new_response u) = cached_list u"
  "service_ok usable (new_response u) = service_ok usable u"
  by (simp_all add: new_response_def cached_list_def service_ok_defs)

type_synonym call_token = "http_call \<times> (exn + string) option"
type_synonym http_answer = "int \<times> string option"

definition http_answer_of :: "('b, 'c) http_app \<Rightarrow> http_answer" where
  "http_answer_of u = (hs_status (snd u), map_option fst (hs_response (snd u)))"

text \<open>
  A request on a thread whose contexts are in order: what the request is judged by is its token,
  from its headers or the global context.
\<close>

definition http_step ::
    "'j json_library \<Rightarrow> bool \<Rightarrow> ('b, 'c) http_app Api \<Rightarrow> call_token \<Rightarrow> ('b, 'c) http_app \<Rightarrow> http_answer \<Rightarrow>
     ('b, 'c) http_app \<Rightarrow> bool" where
  "http_step js id_first api l u a u' \<longleftrightarrow>
     (\<exists>n w w'. ready n w \<and> clock_ok w \<and> app w = new_response u \<and>
        snd l = request_token (ToContextMetadata (rq_headers (http_call_request (fst l))) True) w \<and>
        http_endpoint js id_first api (fst l) w = Some (Inr (), w') \<and> app w' = u' \<and> a = http_answer_of u')"

inductive http_run ::
    "'j json_library \<Rightarrow> bool \<Rightarrow> ('b, 'c) http_app Api \<Rightarrow> (call_token \<times> http_answer) list \<Rightarrow> ('b, 'c) http_app \<Rightarrow>
     ('b, 'c) http_app \<Rightarrow> bool"
  for js :: "'j json_library" and id_first :: bool and api :: "('b, 'c) http_app Api" where
  http_run_Nil: "http_run js id_first api [] u u"
| http_run_Cons:
    "http_step js id_first api l u a u1 \<Longrightarrow> http_run js id_first api tr u1 u2 \<Longrightarrow>
     http_run js id_first api ((l, a) # tr) u u2"

inductive_simps http_run_Nil_iff [simp]: "http_run js id_first api [] u u'"
inductive_simps http_run_Cons_iff: "http_run js id_first api (la # tr) u u'"

subsection \<open>The abstract service\<close>

text \<open>Its state: the statuses that were set, and the list that was answered first.\<close>

type_synonym http_spec_state = "status_map \<times> string option"

definition http_abs :: "('b, 'c) http_app \<Rightarrow> http_spec_state" where
  "http_abs u = (sv_db (snd u), cached_list u)"

definition spec_set_status :: "(string \<times> StarshipStatus) option \<Rightarrow> status_map \<Rightarrow> status_map" where
  "spec_set_status change db = (case change of None \<Rightarrow> db | Some (i, s) \<Rightarrow> db(i \<mapsto> s))"

fun http_spec ::
    "'j json_library \<Rightarrow> bool \<Rightarrow> StarshipProperties list \<Rightarrow> (string \<Rightarrow> StarshipProperties option) \<Rightarrow> http_call \<Rightarrow>
     string list option \<Rightarrow> http_spec_state \<Rightarrow> http_answer \<times> http_spec_state" where
  "http_spec js id_first catalogue ship_of (HC_List request) scopes (db, first) =
     (let (c, content) = http_list_reply js db catalogue first scopes
      in ((c, content), (db, if first = None then content else first)))"
| "http_spec js id_first catalogue ship_of (HC_Get request) scopes (db, first) =
     (http_get_reply js db ship_of scopes (http_extractId (rq_path request)), (db, first))"
| "http_spec js id_first catalogue ship_of (HC_Update request) scopes (db, first) =
     (let (c, change) = http_update_decision id_first ship_of scopes (http_extractId (rq_path request))
            (http_body_status js (rq_body request))
      in ((c, None), (spec_set_status change db, first)))"

primrec http_spec_run ::
    "'j json_library \<Rightarrow> bool \<Rightarrow> StarshipProperties list \<Rightarrow> (string \<Rightarrow> StarshipProperties option) \<Rightarrow>
     call_token list \<Rightarrow> http_spec_state \<Rightarrow> http_answer list \<times> http_spec_state" where
  "http_spec_run js id_first catalogue ship_of [] d = ([], d)"
| "http_spec_run js id_first catalogue ship_of (l # ls) d =
     (let (a, d1) = http_spec js id_first catalogue ship_of (fst l) (granted_scopes service_tokens (snd l)) d;
          (as, d2) = http_spec_run js id_first catalogue ship_of ls d1
      in (a # as, d2))"

text \<open>The client answers about the ids that the request names.\<close>

fun call_known :: "(string \<Rightarrow> bool) \<Rightarrow> http_call \<Rightarrow> bool" where
  "call_known known (HC_List request) \<longleftrightarrow> True"
| "call_known known (HC_Get request) \<longleftrightarrow> (\<forall>i. http_extractId (rq_path request) = Inr i \<longrightarrow> known i)"
| "call_known known (HC_Update request) \<longleftrightarrow> (\<forall>i. http_extractId (rq_path request) = Inr i \<longrightarrow> known i)"

subsection \<open>Refinement\<close>

lemma http_abs_steps [simp]:
  "http_abs (new_response u) = http_abs u" "http_abs (answered c u) = http_abs u"
  "http_abs (responded x u) = http_abs u" "http_abs (cleared u) = http_abs u"
  by (simp_all add: http_abs_def cached_list_def)

lemma service_ok_steps [simp]:
  "service_ok usable (answered c u) = service_ok usable u" "service_ok usable (responded x u) = service_ok usable u"
  by (simp_all add: service_ok_defs)

lemma service_ok_new: "service_ok usable u \<Longrightarrow> list_cache_ok (new_response u) \<and> client_usable usable (new_response u)"
  by (simp add: service_ok_defs new_response_def)

lemma client_step_abs:
  "client_step usable u u' \<Longrightarrow> http_abs u' = http_abs u \<and> service_ok usable u' = list_cache_ok u \<and>
     hs_response (snd u') = hs_response (snd u)"
  by (auto simp: client_step_def client_part_def http_abs_def cached_list_def service_ok_defs)

lemma http_abs_set_ship_status:
  "http_abs (set_ship_status change u) = (spec_set_status change (sv_db (snd u)), cached_list u)"
  "service_ok usable (set_ship_status change u) = service_ok usable u"
  "hs_response (snd (set_ship_status change u)) = hs_response (snd u)"
  by (auto simp: set_ship_status_def http_abs_def spec_set_status_def cached_list_def service_ok_defs
      split: option.split)

lemma http_list_after_abs:
  "http_abs (http_list_after cached None t u) = http_abs u"
  "http_abs (http_list_after None (Some c) t u) = (sv_db (snd u), Some c)"
  "http_abs (http_list_after (Some c') (Some c) t u) = http_abs u"
  "- (2 ^ 63) \<le> t \<Longrightarrow> service_ok usable u \<Longrightarrow> service_ok usable (http_list_after cached x t u)"
  "hs_response (snd (http_list_after cached x t u)) = (case x of None \<Rightarrow> hs_response (snd u)
     | Some c \<Rightarrow> Some (case cached of None \<Rightarrow> c | Some c' \<Rightarrow> c', ''text/json''))"
  by (auto simp: http_list_after_def list_after_def list_cached_def http_read_def http_filled_def http_abs_def
      cached_list_def service_ok_defs split: option.split)

lemma http_list_reply_cached: "http_list_reply js db catalogue (Some c) scopes = (s, Some x) \<Longrightarrow> x = c"
  by (auto simp: http_list_reply_def list_result_def split: option.splits if_splits)

lemma http_step_refines:
  fixes js :: "'j json_library"
  assumes "service_core usable client known catalogue ship_of" and "json_exceptions js"
    and "http_step js id_first (Core client service_status_db) (call, token) u a u'"
    and "call_known known call" and "service_ok usable u"
  shows "http_spec js id_first catalogue ship_of call (granted_scopes service_tokens token) (http_abs u) = (a, http_abs u')
    \<and> service_ok usable u'"
proof -
  obtain n w w' where w: "ready n w" "clock_ok w" "app w = new_response u"
    and token: "token = request_token (ToContextMetadata (rq_headers (http_call_request call)) True) w"
    and run: "http_endpoint js id_first (Core client service_status_db) call w = Some (Inr (), w')"
    and u': "app w' = u'" "a = http_answer_of u'"
    using assms(3) by (auto simp: http_step_def)
  have clock: "steady_clock w < 2 ^ 63" "- (2 ^ 63) \<le> steady_clock w" using w by (simp_all add: clock_ok_def)
  let ?scopes = "granted_scopes service_tokens token"
  show ?thesis
  proof (cases call)
    case (HC_List request)
    obtain c x where r: "http_list_reply js (sv_db (snd u)) catalogue (cached_list u) ?scopes = (c, x)" by fastforce
    obtain u1 where u1: "client_step usable (cleared (new_response u)) u1" "steady_clock w \<le> steady_clock w'"
      and app: "u' = answered c (http_list_after (cached_list u) x (steady_clock w') u1)"
      using listStarShips_run [OF w(1) assms(1,2), where request = request] run service_ok_new [OF assms(5)] w(3) clock(1) r token u'(1)
      by (auto simp: HC_List)
    have same: "http_abs u1 = (sv_db (snd u), cached_list u)" "service_ok usable u1" "hs_response (snd u1) = None"
      using client_step_abs [OF u1(1)] assms(5) service_ok_new [OF assms(5)] by (simp_all add: http_abs_def)
    then have db: "sv_db (snd u1) = sv_db (snd u)" by (simp add: http_abs_def)
    have cached: "cached_list u = Some c' \<Longrightarrow> x \<noteq> None \<Longrightarrow> x = Some c'" for c'
      using r http_list_reply_cached by fastforce
    have "http_abs u' = (sv_db (snd u), if cached_list u = None then x else cached_list u)"
      using same db by (cases x; cases "cached_list u") (simp_all add: app http_list_after_abs)
    moreover have "hs_response (snd u') = map_option (\<lambda>c. (c, ''text/json'')) x"
      using same cached by (cases x; cases "cached_list u") (simp_all add: app http_list_after_abs)
    moreover have "service_ok usable u'" "hs_status (snd u') = c"
      using same clock(2) u1(2) by (simp_all add: app http_list_after_abs)
    ultimately show ?thesis
      by (simp add: HC_List http_abs_def [of u] r u'(2) http_answer_of_def option.map_comp comp_def option.map_ident)
  next
    case (HC_Get request)
    obtain c x where r: "http_get_reply js (sv_db (snd u)) ship_of ?scopes (http_extractId (rq_path request)) = (c, x)" by fastforce
    obtain u1 where u1: "client_step usable (new_response u) u1" and app: "u' = answered c (responded x u1)"
      using getStarShip_run [OF w(1) assms(1,2), where request = request] run service_ok_new [OF assms(5)] assms(4) w(3) r token u'(1)
      by (auto simp: HC_Get)
    have "http_abs u' = http_abs u" "hs_response (snd u') = map_option (\<lambda>c. (c, ''text/json'')) x" "service_ok usable u'"
        "hs_status (snd u') = c"
      using assms(5) service_ok_new [OF assms(5)] client_step_abs [OF u1] by (cases x; simp add: app)+
    then show ?thesis
      by (simp add: HC_Get http_abs_def [of u] r u'(2) http_answer_of_def option.map_comp comp_def option.map_ident)
  next
    case (HC_Update request)
    obtain c x where r: "http_update_decision id_first ship_of ?scopes (http_extractId (rq_path request))
        (http_body_status js (rq_body request)) = (c, x)" by fastforce
    obtain u1 where u1: "client_step usable (new_response u) u1" and app: "u' = answered c (set_ship_status x u1)"
      using updateStatus_run [OF w(1) assms(1,2), where request = request and id_first = id_first]
        run service_ok_new [OF assms(5)] assms(4) w(3) r token u'(1)
      by (auto simp: HC_Update)
    have "http_abs u1 = http_abs u" "sv_db (snd u1) = sv_db (snd u)" "service_ok usable u1" "hs_response (snd u1) = None"
      using assms(5) service_ok_new [OF assms(5)] client_step_abs [OF u1] client_stepD [OF u1] by simp_all
    then show ?thesis
      by (simp add: HC_Update http_abs_def [of u] r app u'(2) http_answer_of_def http_abs_set_ship_status)
        (simp add: http_abs_def)
  qed
qed


text \<open>The same over a whole run, with the answers and what the caches and the store hold at the end.\<close>

lemma http_run_refines:
  fixes js :: "'j json_library"
  assumes core: "service_core usable client known catalogue ship_of" and js: "json_exceptions js"
  shows "http_run js id_first (Core client service_status_db) tr u u' \<Longrightarrow>
    \<forall>((call, token), a) \<in> set tr. call_known known call \<Longrightarrow> service_ok usable u \<Longrightarrow>
    http_spec_run js id_first catalogue ship_of (map fst tr) (http_abs u) = (map snd tr, http_abs u')"
proof (induction rule: http_run.induct)
  case (http_run_Cons l u a u1 tr u2)
  obtain call token where l: "l = (call, token)" by fastforce
  have "http_spec js id_first catalogue ship_of call (granted_scopes service_tokens token) (http_abs u) = (a, http_abs u1)
      \<and> service_ok usable u1"
    by (rule http_step_refines [OF core js]) (use http_run_Cons l in auto)
  then show ?case using http_run_Cons l by simp
qed simp

text \<open>
  Claim C3: the HTTP service refines the abstract one. For any run of requests on any threads the
  answers, statuses and contents, are those of the abstract service, which has the statuses that
  were set and the list that was first answered as its only state, and the two end in states
  that correspond. Contexts, hooks, logging, the clock and the state of the client do not show.
\<close>

theorem http_service_refines:
  fixes js :: "'j json_library" and u :: "('b, 'c) http_app"
  assumes "service_core usable client known catalogue ship_of" and "json_exceptions js"
    and "http_run js id_first (Core client service_status_db) tr u u'"
    and "\<forall>((call, token), a) \<in> set tr. call_known known call" and "service_ok usable u"
  shows "http_spec_run js id_first catalogue ship_of (map fst tr) (http_abs u) = (map snd tr, http_abs u')"
  by (rule http_run_refines [OF assms])

subsection \<open>Properties of all runs\<close>

lemma http_spec_first_kept:
  "http_spec js id_first catalogue ship_of call scopes (db, Some c) = (a, db', first) \<Longrightarrow> first = Some c"
  by (cases call) (auto simp: Let_def split: prod.splits)

lemma http_spec_run_first_kept:
  "http_spec_run js id_first catalogue ship_of ls (db, Some c) = (as, db', first) \<Longrightarrow> first = Some c"
proof (induction ls arbitrary: db as)
  case (Cons l ls)
  obtain a db1 first1 where "http_spec js id_first catalogue ship_of (fst l) (granted_scopes service_tokens (snd l)) (db, Some c)
      = (a, db1, first1)" by (metis prod.exhaust)
  with http_spec_first_kept [OF this] show ?case using Cons.IH [of db1] Cons.prems by (auto split: prod.splits)
qed simp

lemma http_spec_list_first:
  "http_spec js id_first catalogue ship_of (HC_List request) scopes (db, first) = ((200, x), d') \<Longrightarrow>
     \<exists>c. x = Some c \<and> snd d' = Some c \<and> (first = None \<or> first = Some c)"
  by (auto simp: Let_def http_list_reply_def list_result_def split: option.splits if_splits sum.splits)

lemma http_spec_run_append:
  "http_spec_run js id_first catalogue ship_of (ls @ ls') d =
     (let (as, d1) = http_spec_run js id_first catalogue ship_of ls d;
          (as', d2) = http_spec_run js id_first catalogue ship_of ls' d1
      in (as @ as', d2))"
  by (induction ls arbitrary: d) (auto split: prod.splits)

lemma http_spec_run_length: "length (fst (http_spec_run js id_first catalogue ship_of ls d)) = length ls"
  by (induction ls arbitrary: d) (auto split: prod.splits simp: Let_def, metis fst_conv)

lemma http_spec_lists_agree:
  assumes "http_spec_run js id_first catalogue ship_of ((HC_List r, token) # ls @ [(HC_List r', token')]) d
      = ((200, x) # as @ [(200, x')], d')" and "length as = length ls"
  shows "x' = x"
proof -
  let ?run = "http_spec_run js id_first catalogue ship_of"
  obtain a db1 first1 where s1: "http_spec js id_first catalogue ship_of (HC_List r) (granted_scopes service_tokens token) d
      = (a, db1, first1)" by (metis prod.exhaust)
  obtain as2 db2 first2 where s2: "?run ls (db1, first1) = (as2, db2, first2)" by (metis prod.exhaust)
  obtain a3 d3 where s3: "http_spec js id_first catalogue ship_of (HC_List r') (granted_scopes service_tokens token') (db2, first2)
      = (a3, d3)" by fastforce
  have len: "length as2 = length ls" using http_spec_run_length [of js id_first catalogue ship_of ls "(db1, first1)"] s2 by simp
  have eqs: "a = (200, x)" "as2 = as" "a3 = (200, x')"
    using assms len by (auto simp: s1 s2 s3 http_spec_run_append Let_def simp del: http_spec.simps)
  obtain c where c: "x = Some c" "first1 = Some c"
    using http_spec_list_first [of js id_first catalogue ship_of r _ "fst d" "snd d" x "(db1, first1)"] s1 eqs by auto
  then have "first2 = Some c" using http_spec_run_first_kept s2 by blast
  then show ?thesis using http_spec_list_first [of js id_first catalogue ship_of r' _ db2 first2 x' d3] s3 eqs c by auto
qed

text \<open>
  Claim C8: the list of ships is frozen by its first answer. Whatever is requested in between, and
  whoever asks, two successful answers to \<open>GET /StarShips\<close> are the same text: the entry of the
  cache never expires and no update removes it, so statuses that were set in between do not show.
\<close>

theorem http_list_frozen:
  fixes js :: "'j json_library" and u :: "('b, 'c) http_app"
  assumes "service_core usable client known catalogue ship_of" and "json_exceptions js"
    and "http_run js id_first (Core client service_status_db)
      (((HC_List r, token), (200, x)) # tr @ [((HC_List r', token'), (200, x'))]) u u'"
    and "\<forall>((call, token), a) \<in> set tr. call_known known call" and "service_ok usable u"
  shows "x' = x"
proof (rule http_spec_lists_agree [where d = "http_abs u" and ls = "map fst tr" and as = "map snd tr" and d' = "http_abs u'"])
  show "http_spec_run js id_first catalogue ship_of ((HC_List r, token) # map fst tr @ [(HC_List r', token')]) (http_abs u)
      = ((200, x) # map snd tr @ [(200, x')], http_abs u')"
    using http_run_refines [OF assms(1-3) _ assms(5)] assms(4) by simp
qed simp

lemma spec_set_status_cases:
  "spec_set_status change db i \<noteq> db i \<Longrightarrow> \<exists>s. change = Some (i, s) \<and> spec_set_status change db i = Some s"
  by (auto simp: spec_set_status_def split: option.splits if_splits)

definition authorised_update ::
    "'j json_library \<Rightarrow> (string \<Rightarrow> StarshipProperties option) \<Rightarrow> string \<Rightarrow> StarshipStatus \<Rightarrow> call_token \<times> http_answer \<Rightarrow> bool" where
  "authorised_update js ship_of i s la \<longleftrightarrow>
     (\<exists>request token scopes. la = ((HC_Update request, token), (200, None)) \<and>
        granted_scopes service_tokens token = Some scopes \<and> ''write'' \<in> set scopes \<and>
        http_extractId (rq_path request) = Inr i \<and> ship_of i \<noteq> None \<and> http_body_status js (rq_body request) = Inr s)"

lemma http_spec_changes:
  "http_spec js id_first catalogue ship_of call (granted_scopes service_tokens token) (db, first) = (a, db', first') \<Longrightarrow>
   db' i \<noteq> db i \<Longrightarrow> \<exists>s. authorised_update js ship_of i s ((call, token), a) \<and> db' i = Some s"
  by (cases call)
    (auto simp: Let_def authorised_update_def http_update_decision_def spec_set_status_def
      split: prod.splits option.splits if_splits sum.splits)

lemma http_spec_run_changes:
  "http_spec_run js id_first catalogue ship_of ls (db, first) = (as, db', first') \<Longrightarrow> db' i \<noteq> db i \<Longrightarrow>
   \<exists>la \<in> set (zip ls as). \<exists>s. authorised_update js ship_of i s la \<and> db' i = Some s"
proof (induction ls arbitrary: db first as)
  case (Cons l ls)
  obtain a db1 first1 where s1: "http_spec js id_first catalogue ship_of (fst l) (granted_scopes service_tokens (snd l)) (db, first)
      = (a, db1, first1)" by (metis prod.exhaust)
  obtain as2 where s2: "http_spec_run js id_first catalogue ship_of ls (db1, first1) = (as2, db', first')" "as = a # as2"
    using Cons.prems(1) s1 by (auto split: prod.splits)
  show ?case
  proof (cases "db' i = db1 i")
    case True
    then have "\<exists>s. authorised_update js ship_of i s (l, a) \<and> db' i = Some s"
      using http_spec_changes [of js id_first catalogue ship_of "fst l" "snd l"] s1 Cons.prems(2) by simp
    then show ?thesis by (simp add: s2(2))
  next
    case False
    from Cons.IH [OF s2(1) this] show ?thesis by (auto simp: s2(2))
  qed
qed simp

text \<open>
  Claim C5: nobody sets a status without permission. If the stored status of a ship differs after
  a run from what it was before, then some request of the run set it: an update that carried a
  token with the scope \<open>write\<close>, named this ship, which the client knows to exist, had the new
  status in its body and was answered with 200.
\<close>

theorem http_store_guarded:
  fixes js :: "'j json_library" and u :: "('b, 'c) http_app"
  assumes "service_core usable client known catalogue ship_of" and "json_exceptions js"
    and "http_run js id_first (Core client service_status_db) tr u u'"
    and "\<forall>((call, token), a) \<in> set tr. call_known known call" and "service_ok usable u"
    and "sv_db (snd u') i \<noteq> sv_db (snd u) i"
  shows "\<exists>la \<in> set tr. \<exists>s. authorised_update js ship_of i s la \<and> sv_db (snd u') i = Some s"
  using http_spec_run_changes [of js id_first catalogue ship_of "map fst tr" "sv_db (snd u)" "cached_list u" "map snd tr"
      "sv_db (snd u')" "cached_list u'" i] http_run_refines [OF assms(1-5)] assms(6)
  by (simp add: http_abs_def zip_map_fst_snd)


subsection \<open>Updating a status, and an instance\<close>

text \<open>
  Claim C4: updating a status over HTTP, from the headers to the store. Whoever calls gets an
  answer: 401 without a known token, 403 when the token may not write, 400 when the ship does not
  exist (or the path has no id), 500 when the body is not what is expected, and 200 otherwise. The
  store changes in the last case only, at this ship only, and without permission nothing changes
  at all; the client may change its own part. This holds for every client that answers about the
  id, with every logger and whatever the headers claim about scopes.
\<close>

theorem http_update_status:
  fixes js :: "'j json_library"
  assumes "ready n w" and "service_core usable client known catalogue ship_of" and "json_exceptions js"
    and "\<And>i. http_extractId (rq_path request) = Inr i \<Longrightarrow> known i" and "client_usable usable (app w)"
  shows "\<exists>w' u1.
     HttpHandler_updateStatus js id_first (Core client service_status_db) request w = Some (Inr (), w') \<and> stack_ok n w' \<and>
     (case http_update_decision id_first ship_of
         (granted_scopes service_tokens (request_token (ToContextMetadata (rq_headers request) True) w))
         (http_extractId (rq_path request)) (http_body_status js (rq_body request)) of
       (c, change) \<Rightarrow> client_step usable (app w) u1 \<and> app w' = answered c (set_ship_status change u1) \<and>
         (c = 401 \<or> c = 403 \<longrightarrow> u1 = app w))"
  by (rule updateStatus_run [OF assms])

text \<open>Every request that the client can deal with is a step: the service always answers.\<close>

lemma http_step_exists:
  fixes js :: "'j json_library"
  assumes "service_core usable client known catalogue ship_of" and "json_exceptions js"
    and "ready n w" and "clock_ok w" and "app w = new_response u" and "call_known known call" and "service_ok usable u"
  shows "\<exists>a u'. http_step js id_first (Core client service_status_db)
    (call, request_token (ToContextMetadata (rq_headers (http_call_request call)) True) w) u a u'"
proof -
  have "\<exists>w'. http_endpoint js id_first (Core client service_status_db) call w = Some (Inr (), w')"
  proof (cases call)
    case (HC_List request)
    then show ?thesis
      using listStarShips_run [OF assms(3,1,2), where request = request] assms(4,5) service_ok_new [OF assms(7)] by (auto simp: clock_ok_def)
  next
    case (HC_Get request)
    then show ?thesis using getStarShip_run [OF assms(3,1,2), where request = request] assms(5,6) service_ok_new [OF assms(7)] by auto
  next
    case (HC_Update request)
    then show ?thesis
      using updateStatus_run [OF assms(3,1,2), where request = request and id_first = id_first] assms(5,6) service_ok_new [OF assms(7)] by auto
  qed
  then obtain w' where "http_endpoint js id_first (Core client service_status_db) call w = Some (Inr (), w')" by blast
  then show ?thesis
    using assms(3-5) by (intro exI [of _ "http_answer_of (app w')"] exI [of _ "app w'"]) (auto simp: http_step_def)
qed

text \<open>The token of a request on a new thread, and a run of such requests: each is answered.\<close>

definition new_thread_token :: "http_call \<Rightarrow> (exn + string) option" where
  "new_thread_token call = request_token (ToContextMetadata (rq_headers (http_call_request call)) True) (initial_world ())"

definition tokened :: "http_call list \<Rightarrow> call_token list" where
  "tokened calls = map (\<lambda>call. (call, new_thread_token call)) calls"

lemma http_run_exists:
  fixes js :: "'j json_library" and u :: "('b, 'c) http_app"
  assumes core: "service_core usable client known catalogue ship_of" and js: "json_exceptions js"
  shows "\<forall>call \<in> set calls. call_known known call \<Longrightarrow> service_ok usable u \<Longrightarrow>
    \<exists>as u'. http_run js id_first (Core client service_status_db) (zip (tokened calls) as) u u' \<and>
      http_spec_run js id_first catalogue ship_of (tokened calls) (http_abs u) = (as, http_abs u') \<and> service_ok usable u'"
proof (induction calls arbitrary: u)
  case Nil
  then show ?case by (intro exI [of _ "[]"] exI [of _ u]) (simp add: tokened_def)
next
  case (Cons call calls)
  let ?api = "Core client service_status_db" and ?w = "initial_world (new_response u)"
  have known: "call_known known call" using Cons.prems(1) by simp
  have token: "request_token (ToContextMetadata (rq_headers (http_call_request call)) True) ?w = new_thread_token call"
    by (simp add: new_thread_token_def request_token_def initial_world_def cong: option.case_cong)
  have "clock_ok ?w" "app ?w = new_response u" by (simp_all add: clock_ok_def initial_world_def)
  from http_step_exists [OF core js ready_initial this known Cons.prems(2), of id_first, unfolded token]
  obtain a u1 where step: "http_step js id_first ?api (call, new_thread_token call) u a u1" by blast
  from http_step_refines [OF core js step known Cons.prems(2)]
  have a: "http_spec js id_first catalogue ship_of call (granted_scopes service_tokens (new_thread_token call)) (http_abs u) = (a, http_abs u1)"
    and ok: "service_ok usable u1" by simp_all
  obtain as u2 where as: "http_run js id_first ?api (zip (tokened calls) as) u1 u2"
      "http_spec_run js id_first catalogue ship_of (tokened calls) (http_abs u1) = (as, http_abs u2)" "service_ok usable u2"
    using Cons.IH [OF _ ok] Cons.prems(1) by auto
  have "http_run js id_first ?api (zip (tokened (call # calls)) (a # as)) u u2"
    using step as(1) by (auto simp: tokened_def http_run_Cons_iff)
  moreover have "http_spec_run js id_first catalogue ship_of (tokened (call # calls)) (http_abs u) = (a # as, http_abs u2)"
    using a as(2) by (simp add: tokened_def)
  ultimately show ?case using as(3) by blast
qed

text \<open>A JSON library whose values are texts, and a client and requests for the instances.\<close>

definition demo_json :: "string json_library" where
  "demo_json =
     \<lparr>json_string = (\<lambda>s. s), json_object = (\<lambda>kvs. concat (map (\<lambda>(k, v). k @ '':'' @ v @ '','') kvs)), json_array = concat,
      json_dump = Inr, json_parse = Inr, json_at = (\<lambda>j k. Inr j), json_get = Inr, json_is_null = (\<lambda>j. j = ''null''),
      json_elements = (\<lambda>j. [j])\<rparr>"

lemma demo_json_exceptions [simp]: "json_exceptions demo_json"
  by (simp add: json_exceptions_def json_exception_def demo_json_def)

definition demo_request :: "string \<Rightarrow> string \<Rightarrow> string \<Rightarrow> http_request" where
  "demo_request token path body = \<lparr>rq_headers = [(''Authorization'', token)], rq_path = path, rq_body = body\<rparr>"

definition demo_service :: "(unit, unit) http_app" where
  "demo_service = ((), \<lparr>sv_cache = Map.empty, sv_db = Map.empty, sv_client = (), hs_content = [], hs_response = None, hs_status = -1\<rparr>)"

abbreviation dummy_ship_of :: "string \<Rightarrow> StarshipProperties option" where
  "dummy_ship_of \<equiv> \<lambda>ship. Some (dummy_starships ! nat (the (atoi ship)))"

lemma dummy_service_core: "service_core (\<lambda>b c. True) DummyStarWarsClient dummy_knows dummy_starships dummy_ship_of"
  using starwars_client_weaken [OF dummy.starwars_client_axioms, of client_part] by simp

lemma tolower_Authorization [simp]: "map tolower_char ''Authorization'' = ''authorization''"
  by code_simp

lemma demo_token [simp]:
  "request_token (ToContextMetadata (rq_headers (demo_request token path body)) True) w = Some (Inr token)"
  by (simp add: request_token_def demo_request_def ToContextMetadata_def del: list.map)

lemma demo_id [simp]: "http_extractId (rq_path (demo_request token ''/StarShipStatus/1'' body)) = Inr ''1''"
proof -
  have "''/StarShipStatus/1'' = ''/'' @ ''StarShipStatus'' @ ''/'' @ ''1''" by simp
  then show ?thesis unfolding demo_request_def
    by (simp only: http_request.select_convs) (subst http_extractId_last, simp_all add: regex_dot_def)
qed

lemma demo_knows [simp]: "dummy_knows ''1''"
  by (simp add: dummy_knows_def atoi_def) code_simp

lemma demo_body [simp]:
  "http_body_status demo_json (rq_body (demo_request token path ''InAction'')) = Inr SS_InAction"
  by (simp add: http_body_status_def demo_json_def demo_request_def StarshipStatus_from_string_Inr)

lemma demo_decision [simp]:
  "http_update_decision id_first dummy_ship_of (granted_scopes service_tokens (Some (Inr ''secret-token''))) (Inr i) (Inr s)
   = (200, Some (i, s))"
  by (simp add: http_update_decision_def granted_scopes_def)

theorem http_update_status_witness:
  "\<exists>w'. HttpHandler_updateStatus demo_json True (Core DummyStarWarsClient service_status_db)
      (demo_request ''secret-token'' ''/StarShipStatus/1'' ''InAction'') (initial_world demo_service) = Some (Inr (), w')
    \<and> hs_status (snd (app w')) = 200 \<and> sv_db (snd (app w')) ''1'' = Some SS_InAction"
proof -
  let ?r = "demo_request ''secret-token'' ''/StarShipStatus/1'' ''InAction''"
  have "\<exists>w' u1. HttpHandler_updateStatus demo_json True (Core DummyStarWarsClient service_status_db) ?r (initial_world demo_service)
      = Some (Inr (), w') \<and> stack_ok 2 w' \<and>
     (case http_update_decision True dummy_ship_of
         (granted_scopes service_tokens (request_token (ToContextMetadata (rq_headers ?r) True) (initial_world demo_service)))
         (http_extractId (rq_path ?r)) (http_body_status demo_json (rq_body ?r)) of
       (c, change) \<Rightarrow> client_step (\<lambda>b c. True) (app (initial_world demo_service)) u1 \<and> app w' = answered c (set_ship_status change u1) \<and>
         (c = 401 \<or> c = 403 \<longrightarrow> u1 = app (initial_world demo_service)))"
    by (rule http_update_status [OF ready_initial dummy_service_core demo_json_exceptions]) simp_all
  then show ?thesis by (auto simp: demo_decision set_ship_status_def)
qed

text \<open>A run: the ships are listed, the status of one is set, and the ships are listed again.\<close>

abbreviation demo_list :: "string \<Rightarrow> call_token" where
  "demo_list token \<equiv> (HC_List (demo_request token ''/StarShips'' []), Some (Inr token))"

abbreviation demo_update :: "string \<Rightarrow> call_token" where
  "demo_update token \<equiv> (HC_Update (demo_request token ''/StarShipStatus/1'' ''InAction''), Some (Inr token))"

lemma demo_step:
  fixes u :: "(unit, unit) http_app"
  assumes "call_known dummy_knows call" and "service_ok (\<lambda>b c. True) u"
    and "http_call_request call = demo_request token path body"
  shows "\<exists>u'. http_step demo_json True (Core DummyStarWarsClient service_status_db) (call, Some (Inr token)) u
      (fst (http_spec demo_json True dummy_starships dummy_ship_of call (granted_scopes service_tokens (Some (Inr token))) (http_abs u))) u'
    \<and> http_abs u' = snd (http_spec demo_json True dummy_starships dummy_ship_of call (granted_scopes service_tokens (Some (Inr token))) (http_abs u))
    \<and> service_ok (\<lambda>b c. True) u'"
proof -
  let ?w = "initial_world (new_response u)"
  have "\<exists>a u'. http_step demo_json True (Core DummyStarWarsClient service_status_db)
      (call, request_token (ToContextMetadata (rq_headers (http_call_request call)) True) ?w) u a u'"
    by (rule http_step_exists [OF dummy_service_core demo_json_exceptions ready_initial])
      (use assms(1,2) in \<open>simp_all add: clock_ok_def initial_world_def\<close>)
  then obtain a u' where step: "http_step demo_json True (Core DummyStarWarsClient service_status_db) (call, Some (Inr token)) u a u'"
    unfolding assms(3) demo_token by blast
  from http_step_refines [OF dummy_service_core demo_json_exceptions step assms(1,2)] step show ?thesis by fastforce
qed

lemma demo_service_abs [simp]: "http_abs demo_service = (Map.empty, None)" "service_ok (\<lambda>b c. True) demo_service"
  by (simp_all add: http_abs_def demo_service_def cached_list_def service_ok_defs)

definition demo_text :: string where
  "demo_text = concat (map (starship_to_json demo_json \<circ> ship_with_status Map.empty) dummy_starships)"

lemma demo_reply [simp]:
  "http_list_reply demo_json Map.empty dummy_starships None (granted_scopes service_tokens (Some (Inr ''secret-read-only-token'')))
     = (200, Some demo_text)"
  "http_list_reply demo_json db dummy_starships (Some c) (granted_scopes service_tokens (Some (Inr ''secret-read-only-token'')))
     = (200, Some c)"
  "http_list_reply demo_json db dummy_starships first (granted_scopes service_tokens (Some (Inr ''guess''))) = (401, None)"
  by (simp_all add: http_list_reply_def granted_scopes_def starships_to_json_def demo_text_def comp_def list_result_def http_list_text_def)
    (simp_all add: demo_json_def)

lemma demo_run:
  "\<exists>x u'. http_run demo_json True (Core DummyStarWarsClient service_status_db)
      (((demo_list ''secret-read-only-token''), (200, Some demo_text)) #
       [(demo_update ''secret-token'', (200, None))] @ [(demo_list ''secret-read-only-token'', (200, x))]) demo_service u' \<and>
     http_abs u' = ([''1'' \<mapsto> SS_InAction], Some demo_text)"
proof -
  let ?step = "http_step demo_json True (Core DummyStarWarsClient service_status_db)"
  obtain u1 where u1: "?step (demo_list ''secret-read-only-token'') demo_service (200, Some demo_text) u1"
      "http_abs u1 = (Map.empty, Some demo_text)" "service_ok (\<lambda>b c. True) u1"
    using demo_step [where call = "fst (demo_list ''secret-read-only-token'')" and u = demo_service, unfolded fst_conv, OF _ _ http_call_request.simps(1)] by auto
  obtain u2 where u2: "?step (demo_update ''secret-token'') u1 (200, None) u2"
      "http_abs u2 = ([''1'' \<mapsto> SS_InAction], Some demo_text)" "service_ok (\<lambda>b c. True) u2"
    using demo_step [where call = "fst (demo_update ''secret-token'')" and u = u1, unfolded fst_conv, OF _ _ http_call_request.simps(3)] u1 by (auto simp: spec_set_status_def)
  obtain u3 where u3: "?step (demo_list ''secret-read-only-token'') u2 (200, Some demo_text) u3"
      "http_abs u3 = ([''1'' \<mapsto> SS_InAction], Some demo_text)"
    using demo_step [where call = "fst (demo_list ''secret-read-only-token'')" and u = u2, unfolded fst_conv, OF _ _ http_call_request.simps(1)] u2 by auto
  from u1(1) u2(1) u3(1) u3(2) show ?thesis by (auto simp: http_run_Cons_iff)
qed

theorem http_list_frozen_witness:
  "\<exists>u'. http_run demo_json True (Core DummyStarWarsClient service_status_db)
      (((demo_list ''secret-read-only-token''), (200, Some demo_text)) #
       [(demo_update ''secret-token'', (200, None))] @ [(demo_list ''secret-read-only-token'', (200, Some demo_text))])
      demo_service u' \<and> sv_db (snd u') ''1'' = Some SS_InAction"
proof -
  obtain x u' where run: "http_run demo_json True (Core DummyStarWarsClient service_status_db)
      (((demo_list ''secret-read-only-token''), (200, Some demo_text)) #
       [(demo_update ''secret-token'', (200, None))] @ [(demo_list ''secret-read-only-token'', (200, x))]) demo_service u'"
    and abs: "http_abs u' = ([''1'' \<mapsto> SS_InAction], Some demo_text)"
    using demo_run by blast
  have "x = Some demo_text" by (rule http_list_frozen [OF dummy_service_core demo_json_exceptions run]) auto
  with run abs show ?thesis by (auto simp: http_abs_def)
qed

theorem http_service_refines_witness:
  "\<exists>x d'. http_spec_run demo_json True dummy_starships dummy_ship_of
      [demo_list ''secret-read-only-token'', demo_update ''secret-token'', demo_list ''secret-read-only-token''] (Map.empty, None)
     = ([(200, Some demo_text), (200, None), (200, x)], d')"
proof -
  obtain x u' where run: "http_run demo_json True (Core DummyStarWarsClient service_status_db)
      (((demo_list ''secret-read-only-token''), (200, Some demo_text)) #
       [(demo_update ''secret-token'', (200, None))] @ [(demo_list ''secret-read-only-token'', (200, x))]) demo_service u'"
    using demo_run by blast
  from http_service_refines [OF dummy_service_core demo_json_exceptions run] show ?thesis
    by (intro exI [of _ x] exI [of _ "http_abs u'"]) (simp del: http_spec_run.simps)
qed

theorem http_store_guarded_witness:
  "\<exists>tr u' la s. http_run demo_json True (Core DummyStarWarsClient service_status_db) tr demo_service u' \<and> la \<in> set tr \<and>
     authorised_update demo_json dummy_ship_of ''1'' s la"
proof -
  obtain x u' where run: "http_run demo_json True (Core DummyStarWarsClient service_status_db)
      (((demo_list ''secret-read-only-token''), (200, Some demo_text)) #
       [(demo_update ''secret-token'', (200, None))] @ [(demo_list ''secret-read-only-token'', (200, x))]) demo_service u'"
    and abs: "http_abs u' = ([''1'' \<mapsto> SS_InAction], Some demo_text)"
    using demo_run by blast
  have "sv_db (snd u') ''1'' \<noteq> sv_db (snd demo_service) ''1''"
    using abs by (simp add: http_abs_def demo_service_def)
  from http_store_guarded [OF dummy_service_core demo_json_exceptions run _ _ this] run show ?thesis by fastforce
qed

end
