(* ===== verification/Mse_Grpc_Handler.thy ===== *)
theory Mse_Grpc_Handler
  imports Mse_Starships_Endpoints Mse_Status_Converter
begin

text \<open>
  \<open>adapters/grpc-handler\<close>: the same three endpoints over gRPC, with the messages of \<open>api.proto\<close> as
  records. The types of the gRPC library and the text form of messages are a parameter.
\<close>

declare split_paired_Ex [simp del] split_paired_All [simp del]

subsection \<open>Messages\<close>

text \<open>An enumeration of \<open>proto3\<close> is open: its field holds any 32 bit number.\<close>

record PbProperties =
  pb_id :: string
  pb_name :: string
  pb_description :: string

record PbStarShip =
  pb_properties :: "PbProperties option"
  pb_status :: int

record PbUpdateRequest =
  pb_update_id :: string
  pb_update_status :: int

definition empty_PbProperties :: PbProperties where
  "empty_PbProperties = \<lparr>pb_id = [], pb_name = [], pb_description = []\<rparr>"

definition empty_PbStarShip :: PbStarShip where
  "empty_PbStarShip = \<lparr>pb_properties = None, pb_status = 0\<rparr>"

text \<open>\<open>mutable_...\<close> of a message that may be absent.\<close>

definition mutable :: "'a \<Rightarrow> 'a option \<Rightarrow> 'a" where
  "mutable initial x = (case x of Some y \<Rightarrow> y | None \<Rightarrow> initial)"

text \<open>
  The gRPC library: its status codes and statuses, and the serialisation of the list response,
  whose parser starts from the message it is called on.
\<close>

record ('g, 's) grpc_library =
  grpc_code :: "int \<Rightarrow> 'g"
  grpc_Status :: "'g \<Rightarrow> string \<Rightarrow> 's"
  SerializeAsString :: "PbStarShip list \<Rightarrow> string"
  ParseFromString :: "string \<Rightarrow> PbStarShip list \<Rightarrow> PbStarShip list"

text \<open>Parsing clears the message and gives back what was serialised.\<close>

definition protobuf_roundtrip :: "('g, 's) grpc_library \<Rightarrow> bool" where
  "protobuf_roundtrip lib \<longleftrightarrow> (\<forall>m m0. ParseFromString lib (SerializeAsString lib m) m0 = m)"

subsection \<open>Conversions\<close>

fun status_to_protobuf :: "StarshipStatus \<Rightarrow> int" where
  "status_to_protobuf SS_Unknown = 0"
| "status_to_protobuf SS_UnderConstruction = 1"
| "status_to_protobuf SS_OnStandby = 2"
| "status_to_protobuf SS_InAction = 3"
| "status_to_protobuf SS_Damaged = 4"
| "status_to_protobuf SS_Destroyed = 5"

definition status_from_protobuf :: "int \<Rightarrow> exn + StarshipStatus" where
  "status_from_protobuf status =
     (if status = 0 then Inr SS_Unknown
      else if status = 1 then Inr SS_UnderConstruction
      else if status = 2 then Inr SS_OnStandby
      else if status = 3 then Inr SS_InAction
      else if status = 4 then Inr SS_Damaged
      else if status = 5 then Inr SS_Destroyed
      else Inl (LogicError (''invalid status: '' @ show_int status)))"

definition properties_to_protobuf :: "StarshipProperties \<Rightarrow> PbProperties \<Rightarrow> PbProperties" where
  "properties_to_protobuf properties protobuf_properties =
     protobuf_properties\<lparr>pb_id := sp_Id properties, pb_name := sp_Name properties, pb_description := sp_Description properties\<rparr>"

definition starship_to_protobuf :: "Starship \<Rightarrow> PbStarShip \<Rightarrow> PbStarShip" where
  "starship_to_protobuf starship protobuf_starship =
     protobuf_starship
       \<lparr>pb_properties := Some (properties_to_protobuf (ss_Properties starship)
          (mutable empty_PbProperties (pb_properties protobuf_starship))),
        pb_status := status_to_protobuf (ss_Status starship)\<rparr>"

lemma status_protobuf_roundtrip [simp]: "status_from_protobuf (status_to_protobuf s) = Inr s"
  by (cases s) (simp_all add: status_from_protobuf_def)

lemma status_from_protobuf_Inr: "status_from_protobuf k = Inr s \<longleftrightarrow> k = status_to_protobuf s"
  by (cases s) (auto simp: status_from_protobuf_def split: if_splits)

lemma status_from_protobuf_error:
  "status_from_protobuf k = Inl e \<Longrightarrow> e = LogicError (''invalid status: '' @ show_int k) \<and> k \<notin> {0..5}"
  by (auto simp: status_from_protobuf_def split: if_splits)

subsection \<open>The endpoints\<close>

text \<open>Of the call that is served, the state holds the response message.\<close>

record 'c grpc_service = "'c service_parts" +
  gs_starships :: "PbStarShip list"
  gs_starship :: "PbStarShip option"

type_synonym ('b, 'c) grpc_app = "'b \<times> 'c grpc_service"

definition to_grpc_status ::
    "('g, 's) grpc_library \<Rightarrow> (('b, 'c) grpc_app world, Status) comp \<Rightarrow> (('b, 'c) grpc_app world, 's) comp" where
  "to_grpc_status lib m = bindC m (\<lambda>status. liftE (ToGrpcStatus (grpc_code lib) (grpc_Status lib) status))"

definition grpc_list_caching :: "('g, 's) grpc_library \<Rightarrow> (string, ('b, 'c) grpc_app) CachingParameters" where
  "grpc_list_caching lib =
     NeverExpire
       (WithCacheWriter (getC (\<lambda>w. AnyOf ''std::string'' (SerializeAsString lib (gs_starships (snd (app w))))))
       (WithCacheReader (\<lambda>data. bindC (liftE (any_cast ''std::string'' data)) (\<lambda>s.
          on_service (\<lambda>r. r\<lparr>gs_starships := ParseFromString lib s (gs_starships r)\<rparr>)))
       (WithConstantResponse (Caching_Parameters service_cache))))"

primrec add_starships :: "Starship list \<Rightarrow> PbStarShip list \<Rightarrow> PbStarShip list" where
  "add_starships [] response = response"
| "add_starships (starship # starships) response =
     add_starships starships (response @ [starship_to_protobuf starship empty_PbStarShip])"

definition grpc_list_func :: "('b, 'c) grpc_app Api \<Rightarrow> ('b, 'c) grpc_app func" where
  "grpc_list_func api ctx =
     bindC (Api_ListStarShips api) (\<lambda>starships.
       thenC (on_service (\<lambda>r. r\<lparr>gs_starships := add_starships starships (gs_starships r)\<rparr>)) (ret Status_OK))"

definition Grpc_ListStarShips ::
    "('g, 's) grpc_library \<Rightarrow> ('b, 'c) grpc_app Api \<Rightarrow> (string \<times> string) list \<Rightarrow> (('b, 'c) grpc_app world, 's) comp" where
  "Grpc_ListStarShips lib api client_metadata =
     to_grpc_status lib (handle_request ''listStarShips'' (ToContextMetadata client_metadata True)
       [P_ClaimChecker (ScopeContains ''read''), P_Caching (grpc_list_caching lib)] (grpc_list_func api))"

text \<open>
  C++ leaves open whether the ship is fetched before the message in the response is made
  (\<open>ship_first\<close>), which shows when fetching throws.
\<close>

definition grpc_get_func :: "bool \<Rightarrow> ('b, 'c) grpc_app Api \<Rightarrow> string \<Rightarrow> ('b, 'c) grpc_app func" where
  "grpc_get_func ship_first api i ctx =
     thenC (if ship_first then ret ()
            else on_service (\<lambda>r. r\<lparr>gs_starship := Some (mutable empty_PbStarShip (gs_starship r))\<rparr>))
     (bindC (Api_GetStarShip api i) (\<lambda>starship.
       thenC (on_service (\<lambda>r. r\<lparr>gs_starship := Some (starship_to_protobuf starship (mutable empty_PbStarShip (gs_starship r)))\<rparr>))
             (ret (Status_of SC_ok []))))"

definition Grpc_GetStarShip ::
    "('g, 's) grpc_library \<Rightarrow> bool \<Rightarrow> ('b, 'c) grpc_app Api \<Rightarrow> (string \<times> string) list \<Rightarrow> string \<Rightarrow>
     (('b, 'c) grpc_app world, 's) comp" where
  "Grpc_GetStarShip lib ship_first api client_metadata i =
     to_grpc_status lib (handle_request ''GetStarShip'' (ToContextMetadata client_metadata True)
       [P_ClaimChecker (ScopeContains ''read'') :: (string, ('b, 'c) grpc_app) hook_params] (grpc_get_func ship_first api i))"

definition grpc_update_func :: "('b, 'c) grpc_app Api \<Rightarrow> PbUpdateRequest \<Rightarrow> ('b, 'c) grpc_app func" where
  "grpc_update_func api request ctx =
     bindC (liftE (status_from_protobuf (pb_update_status request))) (\<lambda>s.
       thenC (Api_UpdateStatus api (pb_update_id request) s) (ret (Status_of SC_ok [])))"

definition Grpc_UpdateStatus ::
    "('g, 's) grpc_library \<Rightarrow> ('b, 'c) grpc_app Api \<Rightarrow> (string \<times> string) list \<Rightarrow> PbUpdateRequest \<Rightarrow>
     (('b, 'c) grpc_app world, 's) comp" where
  "Grpc_UpdateStatus lib api client_metadata request =
     to_grpc_status lib (handle_request ''UpdateStatus'' (ToContextMetadata client_metadata True)
       [P_ClaimChecker (ScopeContains ''write'') :: (string, ('b, 'c) grpc_app) hook_params] (grpc_update_func api request))"

subsection \<open>The handler\<close>

definition GrpcHandler_Handle :: "('u world, unit) comp \<Rightarrow> ('u world, unit) comp" where
  "GrpcHandler_Handle serve = thenC (mse_log ''grpc-handler.cpp'' ''Handle'' 87 LL_info ''serving'') serve"

definition GrpcHandler_Stop :: "('u world, unit) comp \<Rightarrow> ('u world, unit) comp" where
  "GrpcHandler_Stop shutdown = thenC (mse_log ''grpc-handler.cpp'' ''Stop'' 94 LL_info ''stop requested'') shutdown"

subsection \<open>An endpoint from the token to the status\<close>

definition grpc_status_of :: "('g, 's) grpc_library \<Rightarrow> Status \<Rightarrow> 's" where
  "grpc_status_of lib s = grpc_Status lib (grpc_code lib (status_code_id (code s))) (details s)"

lemma grpc_reply:
  fixes hooks :: "('v, ('b, 'c) grpc_app) hook_params list" and func :: "('b, 'c) grpc_app func"
    and client_metadata :: "(string \<times> string) list"
  assumes "ready n w"
    and func: "\<And>m ctx. hoare (\<lambda>w'. stack_ok m w' \<and> app_clock w' = app_clock w)
        (in_hooks (map (SetRequestType RT_incoming \<circ> hook_of) hooks) func ctx)
        (\<lambda>r w'. stack_ok m w' \<and> r = res \<and> (\<exists>u1. P u1 (steady_clock w') \<and> app w' = after (steady_clock w') u1))"
    and res: "code (handled res) \<noteq> SC_invalid"
  defines "token \<equiv> request_token (ToContextMetadata client_metadata True) w"
  shows "\<exists>w'. to_grpc_status lib (handle_request name (ToContextMetadata client_metadata True)
        (P_ClaimChecker (ScopeContains v) # hooks) func) w = Some (Inr (grpc_status_of lib (reply_status v token res)), w')
    \<and> stack_ok n w' \<and>
     (if permitted v token then \<exists>u1. P u1 (steady_clock w') \<and> app w' = after (steady_clock w') u1
      else app_clock w' = app_clock w)"
proof -
  obtain w' where "handle_request name (ToContextMetadata client_metadata True) (P_ClaimChecker (ScopeContains v) # hooks) func w
      = Some (Inr (reply_status v token res), w')" and rest: "stack_ok n w'"
      "if permitted v token then \<exists>u1. P u1 (steady_clock w') \<and> app w' = after (steady_clock w') u1
       else app_clock w' = app_clock w"
    using request_reply [where P = P and after = after, OF assms(1) mm_sorted_ToContextMetadata func res] unfolding token_def by blast
  moreover have "ToGrpcStatus (grpc_code lib) (grpc_Status lib) (reply_status v token res)
      = Inr (grpc_status_of lib (reply_status v token res))"
    using reply_status_valid [OF res] by (simp add: ToGrpcStatus_def ToGrpcStatusCode_def grpc_status_of_def)
  ultimately show ?thesis by (intro exI [of _ w']) (simp add: to_grpc_status_def bindC_Inr liftE_apply)
qed

subsection \<open>Reading a ship\<close>

definition service_ship :: "status_map \<Rightarrow> (string \<Rightarrow> StarshipProperties option) \<Rightarrow> string \<Rightarrow> exn + Starship" where
  "service_ship db ship_of i =
     (case ship_of i of
        None \<Rightarrow> Inl (OutOfRange ''invalid ship id'')
      | Some p \<Rightarrow> Inr \<lparr>ss_Properties = p, ss_Status = value_or (db i) SS_Unknown\<rparr>)"

definition grpc_prepared :: "bool \<Rightarrow> ('b, 'c) grpc_app \<Rightarrow> ('b, 'c) grpc_app" where
  "grpc_prepared ship_first u =
     (if ship_first then u
      else (fst u, (snd u)\<lparr>gs_starship := Some (mutable empty_PbStarShip (gs_starship (snd u)))\<rparr>))"

lemma grpc_prepared_sel [simp]: "sv_db (snd (grpc_prepared f u)) = sv_db (snd u)"
    "client_usable usable (grpc_prepared f u) = client_usable usable u"
    "sv_cache (snd (grpc_prepared f u)) = sv_cache (snd u)"
  by (simp_all add: grpc_prepared_def client_usable_def)

definition grpc_get_after :: "exn + Starship \<Rightarrow> ('b, 'c) grpc_app \<Rightarrow> ('b, 'c) grpc_app" where
  "grpc_get_after r u =
     (case r of Inl _ \<Rightarrow> u | Inr starship \<Rightarrow>
        (fst u, (snd u)\<lparr>gs_starship := Some (starship_to_protobuf starship (mutable empty_PbStarShip (gs_starship (snd u))))\<rparr>))"

lemma grpc_get_func_run:
  fixes u :: "('b, 'c) grpc_app"
  assumes core: "service_core usable client known catalogue ship_of" and known: "known i" and usable: "client_usable usable u"
  defines "r \<equiv> service_ship (sv_db (snd u)) ship_of i"
  shows "hoare (\<lambda>w. stack_ok m w \<and> app w = u) (grpc_get_func ship_first (Core client service_status_db) i ctx)
    (\<lambda>res w. stack_ok m w \<and> res = map_sum id (\<lambda>_. Status_OK) r \<and>
       (\<exists>u1. client_step usable (grpc_prepared ship_first u) u1 \<and> app w = grpc_get_after r u1))"
proof (rule hoareI)
  fix w :: "('b, 'c) grpc_app world" assume w: "stack_ok m w \<and> app w = u"
  let ?u = "grpc_prepared ship_first u" and ?f = "grpc_get_func ship_first (Core client service_status_db) i ctx"
  let ?g = "\<lambda>starship. thenC (on_service (\<lambda>r. r\<lparr>gs_starship := Some (starship_to_protobuf starship (mutable empty_PbStarShip (gs_starship r)))\<rparr>))
      (ret (Status_of SC_ok []))"
  have E: "?f w = bindC (Core_GetStarShip client service_status_db i) ?g (w\<lparr>app := ?u\<rparr>)"
    using w by (auto simp: grpc_get_func_def Core_def thenC_Inr on_service_run ret_apply grpc_prepared_def)
  have "hoare (\<lambda>w. stack_ok m w \<and> app w = ?u) (Core_GetStarShip client service_status_db i)
      (\<lambda>res w. res = r \<and> stack_ok m w \<and> client_step usable ?u (app w))"
    using starship_core.GetStarShip_run [OF service_core_core [OF core] _ known, of ?u m] usable
    by (cases "ship_of i") (simp_all add: r_def service_ship_def)
  then obtain w1 where get: "Core_GetStarShip client service_status_db i (w\<lparr>app := ?u\<rparr>) = Some (r, w1)"
    and w1: "stack_ok m w1" "client_step usable ?u (app w1)"
    using w by (elim hoareE [where w = "w\<lparr>app := ?u\<rparr>"]) auto
  have "?f w = Some (map_sum id (\<lambda>_. Status_OK) r, w1\<lparr>app := grpc_get_after r (app w1)\<rparr>)"
    using get by (cases r) (simp_all add: E bindC_Inl bindC_Inr thenC_Inr on_service_run ret_apply grpc_get_after_def
        Status_of_def Status_OK_def)
  with w1 show "\<exists>res w'. ?f w = Some (res, w') \<and> (stack_ok m w' \<and> res = map_sum id (\<lambda>_. Status_OK) r \<and>
       (\<exists>u1. client_step usable ?u u1 \<and> app w' = grpc_get_after r u1))"
    by (intro exI [of _ "map_sum id (\<lambda>_. Status_OK) r"] exI [of _ "w1\<lparr>app := grpc_get_after r (app w1)\<rparr>"]
        exI [of _ "app w1"] conjI) simp_all
qed

lemma service_ship_error: "service_ship db ship_of i = Inl e \<Longrightarrow> e = OutOfRange ''invalid ship id''"
  by (auto simp: service_ship_def split: option.splits)

lemma grpc_get_run:
  fixes w :: "('b, 'c) grpc_app world" and client_metadata :: "(string \<times> string) list"
  assumes "ready n w" and "service_core usable client known catalogue ship_of" and "known i" and "client_usable usable (app w)"
  defines "r \<equiv> service_ship (sv_db (snd (app w))) ship_of i"
    and "token \<equiv> request_token (ToContextMetadata client_metadata True) w"
  shows "\<exists>w'. Grpc_GetStarShip lib ship_first (Core client service_status_db) client_metadata i w
      = Some (Inr (grpc_status_of lib (reply_status ''read'' token (map_sum id (\<lambda>_. Status_OK) r))), w') \<and> stack_ok n w' \<and>
    (if permitted ''read'' token
     then \<exists>u1. client_step usable (grpc_prepared ship_first (app w)) u1 \<and> app w' = grpc_get_after r u1
     else app_clock w' = app_clock w)"
  unfolding Grpc_GetStarShip_def token_def
proof (rule grpc_reply [where P = "\<lambda>u1 t. client_step usable (grpc_prepared ship_first (app w)) u1" and after = "\<lambda>t. grpc_get_after r"])
  fix m ctx
  show "hoare (\<lambda>w'. stack_ok m w' \<and> app_clock w' = app_clock w)
      (in_hooks (map (SetRequestType RT_incoming \<circ> hook_of) []) (grpc_get_func ship_first (Core client service_status_db) i) ctx)
      (\<lambda>res w'. stack_ok m w' \<and> res = map_sum id (\<lambda>_. Status_OK) r \<and>
         (\<exists>u1. client_step usable (grpc_prepared ship_first (app w)) u1 \<and> app w' = grpc_get_after r u1))"
    unfolding list.map in_hooks_simps r_def
    by (rule hoare_strengthen, rule grpc_get_func_run [OF assms(2,3,4)]) (simp_all add: app_clock_def)
qed (use assms(1) service_ship_error [of "sv_db (snd (app w))" ship_of i] in
  \<open>auto simp: handled_map_sum r_def default_handling_def split: sum.split\<close>)

subsection \<open>Updating a status\<close>

definition grpc_update_result ::
    "(string \<Rightarrow> StarshipProperties option) \<Rightarrow> PbUpdateRequest \<Rightarrow> exn + StarshipStatus" where
  "grpc_update_result ship_of request =
     (case status_from_protobuf (pb_update_status request) of
        Inl e \<Rightarrow> Inl e
      | Inr s \<Rightarrow> if ship_of (pb_update_id request) = None then Inl (OutOfRange ''invalid ship id'') else Inr s)"

definition grpc_update_change :: "PbUpdateRequest \<Rightarrow> exn + StarshipStatus \<Rightarrow> (string \<times> StarshipStatus) option" where
  "grpc_update_change request r = (case r of Inl _ \<Rightarrow> None | Inr s \<Rightarrow> Some (pb_update_id request, s))"

lemma grpc_update_func_run:
  fixes u :: "('b, 'c) grpc_app"
  assumes core: "service_core usable client known catalogue ship_of" and known: "known (pb_update_id request)"
    and usable: "client_usable usable u"
  defines "r \<equiv> grpc_update_result ship_of request"
  shows "hoare (\<lambda>w. stack_ok m w \<and> app w = u) (grpc_update_func (Core client service_status_db) request ctx)
    (\<lambda>res w. stack_ok m w \<and> res = map_sum id (\<lambda>_. Status_OK) r \<and>
       (\<exists>u1. client_step usable u u1 \<and> app w = set_ship_status (grpc_update_change request r) u1))"
proof (cases "status_from_protobuf (pb_update_status request)")
  case (Inl e)
  then have "grpc_update_func (Core client service_status_db) request ctx = throw e" "r = Inl e"
    by (simp_all add: grpc_update_func_def fun_eq_iff comp_simps r_def grpc_update_result_def)
  moreover have "hoare (\<lambda>w. stack_ok m w \<and> app w = u) (throw e) (\<lambda>res w. stack_ok m w \<and> res = Inl e \<and> client_step usable u (app w))"
    by (rule hoare_throw) (simp add: client_step_refl usable)
  ultimately show ?thesis
    by (simp add: grpc_update_change_def set_ship_status_def)
next
  case (Inr s)
  then have E: "grpc_update_func (Core client service_status_db) request ctx =
      thenC (Core_UpdateStatus client service_status_db (pb_update_id request) s) (ret (Status_of SC_ok []))"
    by (simp add: grpc_update_func_def Core_def fun_eq_iff)
  show ?thesis
    unfolding E
    by (rule hoare_weaken, rule service_update_run [OF core known usable])
      (cases "ship_of (pb_update_id request)"; simp add: r_def Inr grpc_update_result_def grpc_update_change_def
        Status_of_def Status_OK_def)
qed

lemma grpc_update_error: "grpc_update_result ship_of request = Inl e \<Longrightarrow>
    e = OutOfRange ''invalid ship id'' \<or> (\<exists>d. e = LogicError d)"
  by (auto simp: grpc_update_result_def dest: status_from_protobuf_error split: sum.splits if_splits)

lemma grpc_update_run:
  fixes w :: "('b, 'c) grpc_app world" and client_metadata :: "(string \<times> string) list"
  assumes "ready n w" and "service_core usable client known catalogue ship_of" and "known (pb_update_id request)"
    and "client_usable usable (app w)"
  defines "r \<equiv> grpc_update_result ship_of request"
    and "token \<equiv> request_token (ToContextMetadata client_metadata True) w"
  shows "\<exists>w'. Grpc_UpdateStatus lib (Core client service_status_db) client_metadata request w
      = Some (Inr (grpc_status_of lib (reply_status ''write'' token (map_sum id (\<lambda>_. Status_OK) r))), w') \<and> stack_ok n w' \<and>
    (if permitted ''write'' token
     then \<exists>u1. client_step usable (app w) u1 \<and> app w' = set_ship_status (grpc_update_change request r) u1
     else app_clock w' = app_clock w)"
  unfolding Grpc_UpdateStatus_def token_def
proof (rule grpc_reply [where P = "\<lambda>u1 t. client_step usable (app w) u1" and after = "\<lambda>t. set_ship_status (grpc_update_change request r)"])
  fix m ctx
  show "hoare (\<lambda>w'. stack_ok m w' \<and> app_clock w' = app_clock w)
      (in_hooks (map (SetRequestType RT_incoming \<circ> hook_of) []) (grpc_update_func (Core client service_status_db) request) ctx)
      (\<lambda>res w'. stack_ok m w' \<and> res = map_sum id (\<lambda>_. Status_OK) r \<and>
         (\<exists>u1. client_step usable (app w) u1 \<and> app w' = set_ship_status (grpc_update_change request r) u1))"
    unfolding list.map in_hooks_simps r_def
    by (rule hoare_strengthen, rule grpc_update_func_run [OF assms(2,3,4)]) (simp_all add: app_clock_def)
qed (use assms(1) grpc_update_error [of ship_of request] in
  \<open>auto simp: handled_map_sum r_def default_handling_def split: sum.split\<close>)

subsection \<open>Listing the ships\<close>

lemma add_starships_map:
  "add_starships starships response = response @ map (\<lambda>s. starship_to_protobuf s empty_PbStarShip) starships"
  by (induction starships arbitrary: response) simp_all

text \<open>The messages of a new list; the cache holds their text.\<close>

definition grpc_ships :: "status_map \<Rightarrow> StarshipProperties list \<Rightarrow> PbStarShip list" where
  "grpc_ships db catalogue = map (\<lambda>p. starship_to_protobuf (ship_with_status db p) empty_PbStarShip) catalogue"

definition grpc_write :: "('g, 's) grpc_library \<Rightarrow> 'c grpc_service \<Rightarrow> string" where
  "grpc_write lib s = SerializeAsString lib (gs_starships s)"

definition grpc_read :: "('g, 's) grpc_library \<Rightarrow> string \<Rightarrow> 'c grpc_service \<Rightarrow> 'c grpc_service" where
  "grpc_read lib c s = s\<lparr>gs_starships := ParseFromString lib c (gs_starships s)\<rparr>"

definition grpc_filled :: "PbStarShip list \<Rightarrow> string \<Rightarrow> 'c grpc_service \<Rightarrow> 'c grpc_service" where
  "grpc_filled ships c s = s\<lparr>gs_starships := ships\<rparr>"

lemma grpc_list_caching_eq: "grpc_list_caching lib = list_caching (grpc_write lib) (grpc_read lib)"
  by (simp add: grpc_list_caching_def list_caching_def grpc_write_def grpc_read_def [abs_def])

text \<open>The response of the call is a new message.\<close>

lemma grpc_list_func_run:
  fixes u :: "('b, 'c) grpc_app" and lib :: "('g, 's) grpc_library"
  assumes core: "service_core usable client known catalogue ship_of" and usable: "client_usable usable u" and new: "gs_starships (snd u) = []"
  defines "ships \<equiv> grpc_ships (sv_db (snd u)) catalogue"
  defines "d \<equiv> (Inr (SerializeAsString lib ships) :: exn + string)"
  shows "hoare (\<lambda>w. stack_ok m w \<and> app_clock w = (u, t)) (grpc_list_func (Core client service_status_db) ctx)
    (\<lambda>r w. stack_ok m w \<and> r = map_sum id (\<lambda>c. Status_OK) d \<and>
       (\<exists>u1. (client_step usable u u1 \<and> t \<le> steady_clock w) \<and>
          app w = (case d of Inl _ \<Rightarrow> u1 | Inr c \<Rightarrow> (fst u1, grpc_filled ships c (snd u1)))))"
proof (rule hoareI)
  fix w :: "('b, 'c) grpc_app world" assume w: "stack_ok m w \<and> app_clock w = (u, t)"
  let ?f = "grpc_list_func (Core client service_status_db) ctx"
  obtain w1 where list: "Core_ListStarShips client service_status_db w
      = Some (Inr (map (ship_with_status (sv_db (snd u))) catalogue), w1)"
    and w1: "stack_ok m w1" "client_step usable u (app w1)" "t \<le> steady_clock w1"
    using starship_core.ListStarShips_run [OF service_core_core [OF core] usable, of m t] w by (auto elim: hoareE)
  have "gs_starships (snd (app w1)) = []" using w1(2) new by (auto simp: client_step_def client_part_def)
  then have "?f w = Some (Inr Status_OK, w1\<lparr>app := (fst (app w1), grpc_filled ships (SerializeAsString lib ships) (snd (app w1)))\<rparr>)"
    using list by (simp add: grpc_list_func_def Core_def bindC_Inr thenC_Inr on_service_run ret_apply add_starships_map
        grpc_filled_def ships_def grpc_ships_def comp_def)
  with w1 show "\<exists>r w'. ?f w = Some (r, w') \<and> (stack_ok m w' \<and> r = map_sum id (\<lambda>c. Status_OK) d \<and>
       (\<exists>u1. (client_step usable u u1 \<and> t \<le> steady_clock w') \<and>
          app w' = (case d of Inl _ \<Rightarrow> u1 | Inr c \<Rightarrow> (fst u1, grpc_filled ships c (snd u1)))))"
    by (auto simp: d_def)
qed

definition grpc_list_after ::
    "('g, 's) grpc_library \<Rightarrow> string option \<Rightarrow> PbStarShip list \<Rightarrow> int \<Rightarrow> ('b, 'c) grpc_app \<Rightarrow> ('b, 'c) grpc_app" where
  "grpc_list_after lib cached ships t u =
     (case cached of
        Some c \<Rightarrow> (fst u, grpc_read lib c (snd u))
      | None \<Rightarrow> list_cached (SerializeAsString lib ships) t (fst u, (snd u)\<lparr>gs_starships := ships\<rparr>))"

lemma grpc_list_run:
  fixes w :: "('b, 'c) grpc_app world" and client_metadata :: "(string \<times> string) list" and lib :: "('g, 's) grpc_library"
  assumes "ready n w" and "service_core usable client known catalogue ship_of" and "list_cache_ok (app w)"
    and "steady_clock w < 2 ^ 63" and "client_usable usable (app w)" and "gs_starships (snd (app w)) = []"
  defines "ships \<equiv> grpc_ships (sv_db (snd (app w))) catalogue"
    and "token \<equiv> request_token (ToContextMetadata client_metadata True) w"
  shows "\<exists>w'. Grpc_ListStarShips lib (Core client service_status_db) client_metadata w
      = Some (Inr (grpc_status_of lib (reply_status ''read'' token (Inr Status_OK))), w') \<and> stack_ok n w' \<and>
    (if permitted ''read'' token
     then \<exists>u1. (client_step usable (app w) u1 \<and> steady_clock w \<le> steady_clock w') \<and>
       app w' = grpc_list_after lib (cached_list (app w)) ships (steady_clock w') u1
     else app_clock w' = app_clock w)"
  unfolding Grpc_ListStarShips_def token_def
proof (rule grpc_reply [where P = "\<lambda>u1 t. client_step usable (app w) u1 \<and> steady_clock w \<le> t"
      and after = "grpc_list_after lib (cached_list (app w)) ships"])
  fix m ctx
  let ?func = "grpc_list_func (Core client service_status_db)" and ?d = "Inr (SerializeAsString lib ships)"
  have "hoare (\<lambda>w'. stack_ok m w' \<and> app_clock w' = (app w, steady_clock w))
      (CachingRequestHook_Process (list_caching (grpc_write lib) (grpc_read lib)) ?func ctx)
      (\<lambda>r w'. stack_ok m w' \<and> r = map_sum id (\<lambda>c. Status_OK) (list_result ?d (cached_list (app w))) \<and>
       (\<exists>u1. (client_step usable (app w) u1 \<and> steady_clock w \<le> steady_clock w') \<and>
          app w' = list_after (grpc_read lib) (grpc_filled ships) ?d (cached_list (app w)) (steady_clock w') u1))"
    using grpc_list_func_run [OF assms(2,5,6), of m "steady_clock w" ctx lib, folded ships_def] assms(3,4,5)
    by (intro list_run) (simp_all add: grpc_write_def grpc_filled_def)
  then show "hoare (\<lambda>w'. stack_ok m w' \<and> app_clock w' = app_clock w)
      (in_hooks (map (SetRequestType RT_incoming \<circ> hook_of) [P_Caching (grpc_list_caching lib)]) ?func ctx)
      (\<lambda>r w'. stack_ok m w' \<and> r = Inr Status_OK \<and>
         (\<exists>u1. (client_step usable (app w) u1 \<and> steady_clock w \<le> steady_clock w') \<and>
            app w' = grpc_list_after lib (cached_list (app w)) ships (steady_clock w') u1))"
    by (cases "cached_list (app w)")
      (simp_all add: CachingRequestHook_def grpc_list_caching_eq app_clock_def list_result_def list_after_def
        grpc_list_after_def grpc_filled_def)
qed (use assms(1) in simp_all)

end
