(* ===== verification/Mse_Handlers_Agree.thy ===== *)
theory Mse_Handlers_Agree
  imports Mse_Http_Service Mse_Grpc_Handler
begin

text \<open>
  The two handlers side by side: on the same request the HTTP and the gRPC handler decide alike,
  and both freeze the list of ships. The last section instantiates the gRPC library.
\<close>

declare split_paired_Ex [simp del] split_paired_All [simp del]

subsection \<open>Updates and reads\<close>

lemma http_update_decision_status:
  assumes "http_update_decision id_first ship_of (granted_scopes service_tokens token) (Inr i) (Inr s) = (c, change)"
  defines "r \<equiv> grpc_update_result ship_of \<lparr>pb_update_id = i, pb_update_status = status_to_protobuf s\<rparr>"
  shows "c = http_code (code (reply_status ''write'' token (map_sum id (\<lambda>_. Status_OK) r)))"
    and "change = (if permitted ''write'' token
      then grpc_update_change \<lparr>pb_update_id = i, pb_update_status = status_to_protobuf s\<rparr> r else None)"
  using assms(1)
  by (auto simp: http_update_decision_def reply_status_def permitted_def r_def grpc_update_result_def grpc_update_change_def
      default_handling_def split: option.splits if_splits)

text \<open>
  Claim C6: the handlers agree on updates. When an HTTP request and a gRPC request carry the same
  token, id and status, on stores with the same content and clients that know the same ships, both
  are answered, with the same status (HTTP shows its translation), and the stores are the same
  afterwards: changed in both or in neither.
\<close>

theorem handlers_agree_update:
  fixes w :: "('b, 'c) http_app world" and v :: "('d, 'e) grpc_app world"
    and js :: "'j json_library" and lib :: "('g, 's) grpc_library" and client_metadata :: "(string \<times> string) list"
  assumes "ready n w" and "ready m v" and "json_exceptions js"
    and "service_core usable_h client_h known catalogue ship_of" and "service_core usable_g client_g known catalogue ship_of" and "known i"
    and "client_usable usable_h (app w)" and "client_usable usable_g (app v)"
    and "request_token (ToContextMetadata (rq_headers request) True) w = token"
    and "request_token (ToContextMetadata client_metadata True) v = token"
    and "http_extractId (rq_path request) = Inr i" and "http_body_status js (rq_body request) = Inr s"
    and "sv_db (snd (app v)) = sv_db (snd (app w))"
  shows "\<exists>w' v' st.
     HttpHandler_updateStatus js id_first (Core client_h service_status_db) request w = Some (Inr (), w') \<and>
     Grpc_UpdateStatus lib (Core client_g service_status_db) client_metadata
       \<lparr>pb_update_id = i, pb_update_status = status_to_protobuf s\<rparr> v = Some (Inr (grpc_status_of lib st), v') \<and>
     hs_status (snd (app w')) = http_code (code st) \<and> sv_db (snd (app v')) = sv_db (snd (app w'))"
proof -
  let ?request = "\<lparr>pb_update_id = i, pb_update_status = status_to_protobuf s\<rparr>"
  let ?r = "grpc_update_result ship_of ?request"
  let ?st = "reply_status ''write'' token (map_sum id (\<lambda>_. Status_OK) ?r)"
  obtain c change where d: "http_update_decision id_first ship_of (granted_scopes service_tokens token) (Inr i) (Inr s) = (c, change)"
    by fastforce
  obtain w' u1 where h: "HttpHandler_updateStatus js id_first (Core client_h service_status_db) request w = Some (Inr (), w')"
    and u1: "client_step usable_h (app w) u1" "app w' = answered c (set_ship_status change u1)"
    using updateStatus_run [OF assms(1,4,3), of request id_first] assms(6,7,9,11,12) d by auto
  obtain v' where g: "Grpc_UpdateStatus lib (Core client_g service_status_db) client_metadata ?request v
      = Some (Inr (grpc_status_of lib ?st), v')"
    and v': "if permitted ''write'' token
      then \<exists>u1. client_step usable_g (app v) u1 \<and> app v' = set_ship_status (grpc_update_change ?request ?r) u1
      else app_clock v' = app_clock v"
    using grpc_update_run [OF assms(2,5), of ?request lib client_metadata] assms(6,8,10) by auto
  note change = http_update_decision_status [OF d]
  have "hs_status (snd (app w')) = http_code (code ?st)" using u1(2) change(1) by simp
  moreover have "sv_db (snd (app v')) = spec_set_status change (sv_db (snd (app w)))"
    using v' change(2) assms(13)
    by (auto simp: app_clock_def set_ship_status_def spec_set_status_def dest: client_stepD split: if_splits option.split)
  moreover have "sv_db (snd (app w')) = spec_set_status change (sv_db (snd (app w)))"
    using u1 by (auto simp: set_ship_status_def spec_set_status_def dest: client_stepD split: option.split)
  ultimately show ?thesis using h g by (intro exI [of _ w'] exI [of _ v'] exI [of _ ?st]) simp
qed

lemma http_get_reply_status:
  fixes js :: "'j json_library" and db :: status_map
  defines "r \<equiv> (\<lambda>ship_of i. service_ship db ship_of i)"
    and "st \<equiv> (\<lambda>token ship_of i. reply_status ''read'' token (map_sum id (\<lambda>_. Status_OK) (service_ship db ship_of i)))"
  shows "code (st token ship_of i) = SC_ok \<longleftrightarrow> permitted ''read'' token \<and> (\<exists>ship. r ship_of i = Inr ship)"
    and "http_get_reply js db ship_of (granted_scopes service_tokens token) (Inr i) =
      (if code (st token ship_of i) = SC_ok
       then (case json_dump js (starship_to_json js (projr (r ship_of i))) of Inl e \<Rightarrow> (500, None) | Inr t \<Rightarrow> (200, Some t))
       else (http_code (code (st token ship_of i)), None))"
  by (cases "ship_of i"; simp add: st_def r_def http_get_reply_def reply_status_def permitted_def service_ship_def
      default_handling_def Status_OK_def Status_of_def handled_map_sum split: option.split)+

text \<open>
  Claim C7: the handlers agree on reads. When both requests carry the same token and id, on the
  same statuses and ships, both are answered. gRPC answers \<open>ok\<close> exactly when the token may read and
  the client knows the ship; the message is then that ship with its stored status, and HTTP answers
  200 with the JSON text of the same ship, unless the JSON library cannot print it (a name that is
  not UTF-8): then, and only here, the handlers differ, as HTTP answers 500. In all other cases HTTP
  shows the translation of the gRPC status.
\<close>

theorem handlers_agree_get:
  fixes w :: "('b, 'c) http_app world" and v :: "('d, 'e) grpc_app world"
    and js :: "'j json_library" and lib :: "('g, 's) grpc_library" and client_metadata :: "(string \<times> string) list"
  assumes "ready n w" and "ready m v" and "json_exceptions js"
    and "service_core usable_h client_h known catalogue ship_of" and "service_core usable_g client_g known catalogue ship_of" and "known i"
    and "client_usable usable_h (app w)" and "client_usable usable_g (app v)"
    and "request_token (ToContextMetadata (rq_headers request) True) w = token"
    and "request_token (ToContextMetadata client_metadata True) v = token"
    and "http_extractId (rq_path request) = Inr i"
    and "sv_db (snd (app v)) = sv_db (snd (app w))" and "gs_starship (snd (app v)) = None"
  shows "\<exists>w' v' st.
     HttpHandler_getStarShip js (Core client_h service_status_db) request w = Some (Inr (), w') \<and>
     Grpc_GetStarShip lib ship_first (Core client_g service_status_db) client_metadata i v
       = Some (Inr (grpc_status_of lib st), v') \<and>
     (code st = SC_ok \<longleftrightarrow> permitted ''read'' token \<and> ship_of i \<noteq> None) \<and>
     (if code st = SC_ok
      then let ship = \<lparr>ss_Properties = the (ship_of i), ss_Status = value_or (sv_db (snd (app w)) i) SS_Unknown\<rparr>
        in gs_starship (snd (app v')) = Some (starship_to_protobuf ship empty_PbStarShip) \<and>
          (case json_dump js (starship_to_json js ship) of
             Inl e \<Rightarrow> hs_status (snd (app w')) = 500
           | Inr t \<Rightarrow> hs_status (snd (app w')) = 200 \<and> hs_response (snd (app w')) = Some (t, ''text/json''))
      else hs_status (snd (app w')) = http_code (code st))"
proof -
  let ?r = "service_ship (sv_db (snd (app w))) ship_of i"
  let ?st = "reply_status ''read'' token (map_sum id (\<lambda>_. Status_OK) ?r)"
  obtain c content where d: "http_get_reply js (sv_db (snd (app w))) ship_of (granted_scopes service_tokens token) (Inr i) = (c, content)"
    by fastforce
  obtain w' u1 where h: "HttpHandler_getStarShip js (Core client_h service_status_db) request w = Some (Inr (), w')"
    and u1: "app w' = answered c (responded content u1)"
    using getStarShip_run [OF assms(1,4,3), of request] assms(6,7,9,11) d by auto
  obtain v' where g: "Grpc_GetStarShip lib ship_first (Core client_g service_status_db) client_metadata i v
      = Some (Inr (grpc_status_of lib ?st), v')"
    and v': "if permitted ''read'' token
      then \<exists>u1. client_step usable_g (grpc_prepared ship_first (app v)) u1 \<and> app v' = grpc_get_after ?r u1
      else app_clock v' = app_clock v"
    using grpc_get_run [OF assms(2,5,6,8), of lib ship_first client_metadata] unfolding assms(10,12) by blast
  note ok = http_get_reply_status(1) [where db = "sv_db (snd (app w))" and token = token and ship_of = ship_of and i = i]
  have ship: "(\<exists>ship. ?r = Inr ship) \<longleftrightarrow> ship_of i \<noteq> None"
    "ship_of i = Some p \<Longrightarrow> ?r = Inr \<lparr>ss_Properties = p, ss_Status = value_or (sv_db (snd (app w)) i) SS_Unknown\<rparr>" for p
    by (simp_all add: service_ship_def split: option.split)
  have message: "gs_starship (snd (app v')) = Some (starship_to_protobuf s empty_PbStarShip)"
    if "permitted ''read'' token" "?r = Inr s" for s
    using v' that assms(13)
    by (auto simp: grpc_get_after_def client_step_def client_part_def grpc_prepared_def mutable_def split: if_splits)
  have answers: "if code ?st = SC_ok
      then let ship = \<lparr>ss_Properties = the (ship_of i), ss_Status = value_or (sv_db (snd (app w)) i) SS_Unknown\<rparr>
        in gs_starship (snd (app v')) = Some (starship_to_protobuf ship empty_PbStarShip) \<and>
          (case json_dump js (starship_to_json js ship) of
             Inl e \<Rightarrow> hs_status (snd (app w')) = 500
           | Inr t \<Rightarrow> hs_status (snd (app w')) = 200 \<and> hs_response (snd (app w')) = Some (t, ''text/json''))
      else hs_status (snd (app w')) = http_code (code ?st)"
    using u1 d [unfolded http_get_reply_status(2)] ok message ship
    by (auto simp: Let_def split: sum.splits if_splits)
  show ?thesis using h g ok ship(1) answers by (intro exI [of _ w'] exI [of _ v'] exI [of _ ?st] conjI) simp_all
qed

subsection \<open>The list over gRPC\<close>

text \<open>
  The list of ships is frozen over gRPC too. While the cache holds the text of some
  ships, or nothing, a caller who may read gets those ships, or else the current ones; the cache
  then holds the text of exactly what was answered, so every later answer is the same, whatever
  statuses are set. It relies on messages that are parsed as they were serialised.
\<close>

theorem grpc_list_frozen:
  fixes w :: "('b, 'c) grpc_app world" and lib :: "('g, 's) grpc_library" and client_metadata :: "(string \<times> string) list"
  assumes "ready n w" and "service_core usable client known catalogue ship_of" and "protobuf_roundtrip lib"
    and "list_cache_ok (app w)" and "clock_ok w" and "client_usable usable (app w)" and "gs_starships (snd (app w)) = []"
    and "cached_list (app w) = map_option (SerializeAsString lib) first"
    and "permitted ''read'' (request_token (ToContextMetadata client_metadata True) w)"
  defines "ships \<equiv> (case first of Some ships \<Rightarrow> ships | None \<Rightarrow> grpc_ships (sv_db (snd (app w))) catalogue)"
  shows "\<exists>w'. Grpc_ListStarShips lib (Core client service_status_db) client_metadata w
      = Some (Inr (grpc_status_of lib Status_OK), w') \<and> stack_ok n w' \<and>
    gs_starships (snd (app w')) = ships \<and> cached_list (app w') = Some (SerializeAsString lib ships) \<and>
    list_cache_ok (app w') \<and> sv_db (snd (app w')) = sv_db (snd (app w))"
proof -
  let ?token = "request_token (ToContextMetadata client_metadata True) w"
  have clock: "steady_clock w < 2 ^ 63" "- (2 ^ 63) \<le> steady_clock w" using assms(5) by (simp_all add: clock_ok_def)
  obtain w' u1 where run: "Grpc_ListStarShips lib (Core client service_status_db) client_metadata w
      = Some (Inr (grpc_status_of lib (reply_status ''read'' ?token (Inr Status_OK))), w')" "stack_ok n w'"
    and u1: "client_step usable (app w) u1" "steady_clock w \<le> steady_clock w'"
    and app: "app w' = grpc_list_after lib (cached_list (app w)) (grpc_ships (sv_db (snd (app w))) catalogue) (steady_clock w') u1"
    using grpc_list_run [OF assms(1,2,4) clock(1) assms(6,7), of lib client_metadata] assms(9) by auto
  have "reply_status ''read'' ?token (Inr Status_OK) = Status_OK"
    using assms(9) by (auto simp: permitted_def reply_status_def)
  moreover have "sv_db (snd u1) = sv_db (snd (app w))" "sv_cache (snd u1) = sv_cache (snd (app w))" "gs_starships (snd u1) = []"
    using u1(1) assms(7) by (auto simp: client_step_def client_part_def)
  moreover have "list_cache_ok u1" "cached_list u1 = cached_list (app w)"
    using assms(4) calculation(3) by (simp_all add: list_cache_ok_def cached_list_def)
  moreover have "- (2 ^ 63) \<le> steady_clock w'" using u1(2) clock(2) by linarith
  ultimately show ?thesis
    using run assms(3,8) by (intro exI [of _ w'], cases first)
      (simp_all add: app ships_def grpc_list_after_def grpc_read_def list_cached_def protobuf_roundtrip_def,
        simp_all add: cached_list_def list_cache_ok_def)
qed

subsection \<open>Instances\<close>

text \<open>A text form for messages: marked characters, flags for what may be absent, and a count.\<close>

primrec enc_string :: "string \<Rightarrow> string" where
  "enc_string [] = ''.''"
| "enc_string (c # s) = CHR ''x'' # c # enc_string s"

fun dec_string :: "string \<Rightarrow> string \<times> string" where
  "dec_string (m # c # r) = (if m = CHR ''x'' then (case dec_string r of (s, r') \<Rightarrow> (c # s, r')) else ([], c # r))"
| "dec_string r = ([], [])"

lemma dec_enc_string [simp]: "dec_string (enc_string s @ r) = (s, r)"
proof (induction s)
  case Nil
  then show ?case by (cases r) simp_all
qed simp

definition enc_ship :: "PbStarShip \<Rightarrow> string" where
  "enc_ship s =
     (case pb_properties s of
        None \<Rightarrow> ''0'' | Some p \<Rightarrow> ''1'' @ enc_string (pb_id p) @ enc_string (pb_name p) @ enc_string (pb_description p))
     @ (if pb_status s < 0 then ''-'' else ''+'') @ enc_string (replicate (nat \<bar>pb_status s\<bar>) CHR ''x'')"

definition dec_properties :: "string \<Rightarrow> PbProperties option \<times> string" where
  "dec_properties t =
     (if hd t = CHR ''0'' then (None, tl t)
      else (let (i, r1) = dec_string (tl t); (n, r2) = dec_string r1; (d, r3) = dec_string r2
            in (Some \<lparr>pb_id = i, pb_name = n, pb_description = d\<rparr>, r3)))"

definition dec_ship :: "string \<Rightarrow> PbStarShip \<times> string" where
  "dec_ship t =
     (let (p, r) = dec_properties t; (k, r') = dec_string (tl r)
      in (\<lparr>pb_properties = p, pb_status = (if hd r = CHR ''-'' then - int (length k) else int (length k))\<rparr>, r'))"

lemma dec_enc_ship [simp]: "dec_ship (enc_ship s @ r) = (s, r)"
  by (cases s; cases "pb_properties s") (auto simp: enc_ship_def dec_ship_def dec_properties_def)

primrec dec_ships :: "nat \<Rightarrow> string \<Rightarrow> PbStarShip list" where
  "dec_ships 0 t = []"
| "dec_ships (Suc k) t = (case dec_ship t of (s, r) \<Rightarrow> s # dec_ships k r)"

lemma dec_ships_enc [simp]: "dec_ships (length ss) (concat (map enc_ship ss)) = ss"
  by (induction ss) simp_all

definition demo_grpc :: "(int, int \<times> string) grpc_library" where
  "demo_grpc =
     \<lparr>grpc_code = (\<lambda>c. c), grpc_Status = Pair,
      SerializeAsString = (\<lambda>ss. enc_string (replicate (length ss) CHR ''x'') @ concat (map enc_ship ss)),
      ParseFromString = (\<lambda>t m0. case dec_string t of (k, r) \<Rightarrow> dec_ships (length k) r)\<rparr>"

lemma demo_grpc_roundtrip [simp]: "protobuf_roundtrip demo_grpc"
  by (simp add: protobuf_roundtrip_def demo_grpc_def)

definition demo_grpc_service :: "(unit, unit) grpc_app" where
  "demo_grpc_service =
     ((), \<lparr>sv_cache = Map.empty, sv_db = Map.empty, sv_client = (), gs_starships = [], gs_starship = None\<rparr>)"

lemma demo_grpc_service_sel [simp]: "sv_db (snd demo_grpc_service) = Map.empty" "gs_starship (snd demo_grpc_service) = None"
    "gs_starships (snd demo_grpc_service) = []" "cached_list demo_grpc_service = None" "list_cache_ok demo_grpc_service"
  by (simp_all add: demo_grpc_service_def cached_list_def list_cache_ok_def)

lemma demo_service_db [simp]: "sv_db (snd demo_service) = Map.empty"
  by (simp add: demo_service_def)

definition demo_metadata :: "string \<Rightarrow> (string \<times> string) list" where
  "demo_metadata token = [(''authorization'', token)]"

lemma tolower_authorization [simp]: "map tolower_char ''authorization'' = ''authorization''"
  by code_simp

lemma demo_metadata_token [simp]: "request_token (ToContextMetadata (demo_metadata token) True) w = Some (Inr token)"
  by (simp add: request_token_def demo_metadata_def ToContextMetadata_def del: list.map)

theorem grpc_list_frozen_witness:
  "\<exists>w'. Grpc_ListStarShips demo_grpc (Core DummyStarWarsClient service_status_db) (demo_metadata ''secret-token'')
      (initial_world demo_grpc_service) = Some (Inr (0, []), w')
    \<and> gs_starships (snd (app w')) = grpc_ships Map.empty dummy_starships"
proof -
  have "clock_ok (initial_world demo_grpc_service)" by (simp add: clock_ok_def initial_world_def)
  moreover have "permitted ''read'' (Some (Inr ''secret-token''))" by (simp add: permitted_def granted_scopes_def)
  ultimately show ?thesis
    using grpc_list_frozen [OF ready_initial dummy_service_core demo_grpc_roundtrip, of demo_grpc_service None
        "demo_metadata ''secret-token''"]
    by (auto simp: grpc_status_of_def demo_grpc_def Status_OK_def)
qed

theorem handlers_agree_update_witness:
  "\<exists>w' v' st.
     HttpHandler_updateStatus demo_json True (Core DummyStarWarsClient service_status_db)
       (demo_request ''secret-token'' ''/StarShipStatus/1'' ''InAction'') (initial_world demo_service) = Some (Inr (), w') \<and>
     Grpc_UpdateStatus demo_grpc (Core DummyStarWarsClient service_status_db) (demo_metadata ''secret-token'')
       \<lparr>pb_update_id = ''1'', pb_update_status = status_to_protobuf SS_InAction\<rparr> (initial_world demo_grpc_service)
       = Some (Inr (grpc_status_of demo_grpc st), v') \<and>
     hs_status (snd (app w')) = http_code (code st) \<and> sv_db (snd (app v')) = sv_db (snd (app w'))"
  by (rule handlers_agree_update [OF ready_initial ready_initial demo_json_exceptions dummy_service_core dummy_service_core])
    simp_all

theorem handlers_agree_get_witness:
  "let ship = \<lparr>ss_Properties = dummy_starships ! 1, ss_Status = SS_Unknown\<rparr> in
   \<exists>w' v' st.
     HttpHandler_getStarShip demo_json (Core DummyStarWarsClient service_status_db)
       (demo_request ''secret-read-only-token'' ''/StarShipStatus/1'' []) (initial_world demo_service) = Some (Inr (), w') \<and>
     Grpc_GetStarShip demo_grpc True (Core DummyStarWarsClient service_status_db) (demo_metadata ''secret-read-only-token'') ''1''
       (initial_world demo_grpc_service) = Some (Inr (grpc_status_of demo_grpc st), v') \<and> code st = SC_ok \<and>
     hs_status (snd (app w')) = 200 \<and> hs_response (snd (app w')) = Some (starship_to_json demo_json ship, ''text/json'') \<and>
     gs_starship (snd (app v')) = Some (starship_to_protobuf ship empty_PbStarShip)"
proof -
  have one: "nat (the (atoi ''1'')) = 1" by code_simp
  have "permitted ''read'' (Some (Inr ''secret-read-only-token''))" by (simp add: permitted_def granted_scopes_def)
  moreover note handlers_agree_get [where request = "demo_request ''secret-read-only-token'' ''/StarShipStatus/1'' []" and lib = demo_grpc
      and client_metadata = "demo_metadata ''secret-read-only-token''" and i = "''1''" and token = "Some (Inr ''secret-read-only-token'')"
      and ship_first = True,
      OF ready_initial [of demo_service] ready_initial [of demo_grpc_service] demo_json_exceptions
      dummy_service_core dummy_service_core]
  moreover have "json_dump demo_json j = Inr j" for j by (simp add: demo_json_def)
  ultimately show ?thesis by (simp add: one Let_def value_or_def cong: conj_cong) blast
qed

end
