(* ===== verification/Mse_Starwars_Client.thy ===== *)
theory Mse_Starwars_Client
  imports Mse_Starships_Endpoints Mse_Status_Converter Mse_Regex Mse_Json
begin

text \<open>
  \<open>adapters/http-starwars-client\<close>: the client of the public API that lists ships page by page and
  caches single ships. The HTTP client library is a record of its one operation, the JSON library
  and the random numbers of the jitter are parameters. What \<open>main\<close> adds to every outgoing request
  is part of the model, so the state holds the counters of the circuit breaker.
\<close>

declare split_paired_Ex [simp del] split_paired_All [simp del]

subsection \<open>Outgoing requests of the service\<close>

text \<open>\<open>RequestIssuer(name, Context()).BeginWith(first).With(...)...Process(func)\<close>\<close>

definition issue_request ::
    "string \<Rightarrow> ('v, request_data \<times> 's) hook_params \<Rightarrow> ('v, request_data \<times> 's) hook_params list \<Rightarrow>
     (request_data \<times> 's) func \<Rightarrow> ((request_data \<times> 's) world, Status) comp" where
  "issue_request name first hooks func =
     with_context [] None (\<lambda>ctx.
       with_processor (RequestIssuer_construct service_factory (issuer_globals :: ('v, request_data \<times> 's) hook_params any list) name ctx) (\<lambda>p.
         bindC (liftE (BeginWith_params service_factory (params first) p)) (\<lambda>p1.
         bindC (liftE (With_each service_factory (map params hooks) p1)) (\<lambda>p2.
           RequestProcessor_Process p2 func))))"

subsection \<open>The state of the client\<close>

text \<open>The cache, and the variables that the functions behind the hooks capture.\<close>

record client_state =
  hc_cache :: "StarshipProperties option map_data \<times> lru_list"
  hc_starships :: "StarshipProperties list"
  hc_found :: "StarshipProperties option"

type_synonym 'z client_app = "(request_data, client_state, 'z) service_app"

definition on_client :: "(client_state \<Rightarrow> client_state) \<Rightarrow> ('z client_app world, unit) comp" where
  "on_client f = on_service (\<lambda>s. s\<lparr>sv_client := f (sv_client s)\<rparr>)"

record HttpResponse =
  hr_status :: int
  hr_body :: string

text \<open>The HTTP client: a response or a failure of the connection; and which headers are passed on.\<close>

record ('h, 'z) HttpStarWarsClient =
  cli_Get :: "string \<Rightarrow> 'h \<Rightarrow> ('z client_app world, HttpResponse option) comp"
  cli_headers_insert :: "string \<times> string \<Rightarrow> 'h \<Rightarrow> 'h"
  cli_no_headers :: 'h
  headers_to_propagate :: "string list"

definition client_cache :: "(StarshipProperties option, 'z client_app) Cache" where
  "client_cache =
     cache_in (\<lambda>u. hc_cache (sv_client (snd u))) (\<lambda>d (b, s). (b, s\<lparr>sv_client := (sv_client s)\<lparr>hc_cache := d\<rparr>\<rparr>))
       (LRUCache (Some UnorderedMapCache) 5)"

subsection \<open>Reading ships\<close>

definition getDescription :: "string \<Rightarrow> string \<Rightarrow> string" where
  "getDescription model manufacturer = ''A '' @ model @ '' made by '' @ manufacturer"

definition client_id_regex :: regex where
  "client_id_regex = Concat (Group 1 (Many regex_dot)) (Concat (Text ''/api/starships/'')
     (Concat (Group 2 (Many regex_dot)) (Text ''/'')))"

definition client_extractId :: "string \<Rightarrow> exn + string" where
  "client_extractId path =
     (case regex_match client_id_regex path of
        None \<Rightarrow> Inl (InvalidArgument ''invalid URL'')
      | Some ip_result \<Rightarrow> Inr (sub_match ip_result 2))"

definition json_text_at :: "'j json_library \<Rightarrow> 'j \<Rightarrow> string \<Rightarrow> exn + string" where
  "json_text_at js node key = (case json_at js node key of Inl e \<Rightarrow> Inl e | Inr v \<Rightarrow> json_get js v)"

text \<open>
  The members are read from left to right; which argument of \<open>getDescription\<close> is first is left
  open (\<open>model_first\<close>).
\<close>

definition from_json :: "'j json_library \<Rightarrow> bool \<Rightarrow> 'j \<Rightarrow> exn + StarshipProperties" where
  "from_json js model_first node =
     (case json_text_at js node ''url'' of Inl e \<Rightarrow> Inl e | Inr url \<Rightarrow>
     (case client_extractId url of Inl e \<Rightarrow> Inl e | Inr i \<Rightarrow>
     (case json_text_at js node ''name'' of Inl e \<Rightarrow> Inl e | Inr name \<Rightarrow>
     (case (json_text_at js node ''model'', json_text_at js node ''manufacturer'') of
        (Inr model, Inr manufacturer) \<Rightarrow>
          Inr \<lparr>sp_Id = i, sp_Name = name, sp_Description = getDescription model manufacturer\<rparr>
      | (Inl e, Inr _) \<Rightarrow> Inl e
      | (Inr _, Inl e) \<Rightarrow> Inl e
      | (Inl e, Inl e') \<Rightarrow> Inl (if model_first then e else e')))))"

subsection \<open>Listing\<close>

definition filtered_headers ::
    "('h, 'z) HttpStarWarsClient \<Rightarrow> addr \<Rightarrow> ('z client_app world, 'h) comp" where
  "filtered_headers cli ctx =
     bindC (readC (\<lambda>w. map_option Inr (GetFilteredMetadata (contexts w) ctx (headers_to_propagate cli)))) (\<lambda>md.
       ret (FromContextMetadata (cli_headers_insert cli) (cli_no_headers cli) md))"

primrec emplace_starships :: "'j json_library \<Rightarrow> bool \<Rightarrow> 'j list \<Rightarrow> ('z client_app world, unit) comp" where
  "emplace_starships js model_first [] = ret ()"
| "emplace_starships js model_first (node # nodes) =
     bindC (liftE (from_json js model_first node)) (\<lambda>p.
       thenC (on_client (\<lambda>c. c\<lparr>hc_starships := hc_starships c @ [p]\<rparr>)) (emplace_starships js model_first nodes))"

text \<open>One page: the path of the next one, which is empty behind the last.\<close>

definition read_page :: "'j json_library \<Rightarrow> bool \<Rightarrow> string \<Rightarrow> ('z client_app world, string) comp" where
  "read_page js model_first body =
     bindC (liftE (json_parse js body)) (\<lambda>data.
     bindC (liftE (json_at js data ''next'')) (\<lambda>nextNode.
     bindC (liftE (if json_is_null js nextNode then Inr [] else json_get js nextNode)) (\<lambda>path.
     bindC (liftE (json_at js data ''results'')) (\<lambda>results.
       thenC (emplace_starships js model_first (json_elements js results)) (ret path)))))"

partial_function (option) client_list_func ::
    "'j json_library \<Rightarrow> bool \<Rightarrow> ('h, 'z) HttpStarWarsClient \<Rightarrow> addr \<Rightarrow> string \<Rightarrow> 'z client_app world \<Rightarrow>
     ((exn + Status) \<times> 'z client_app world) option" where
  "client_list_func js model_first cli ctx path w =
     (if path = [] then ret Status_OK
      else bindC (filtered_headers cli ctx) (\<lambda>headers.
        bindC (cli_Get cli path headers) (\<lambda>resp.
          case resp of
            None \<Rightarrow> ret (Status_of SC_unknown [])
          | Some r \<Rightarrow>
              bindC (liftE (FromHttpStatusCode DefaultHttpStatusCodeToStatusCode (hr_status r))) (\<lambda>c.
                if \<not> succeeded (Status_of c []) then ret (Status_of c [])
                else bindC (read_page js model_first (hr_body r)) (\<lambda>path' w.
                       client_list_func js model_first cli ctx path' w))))) w"

text \<open>The backoff of both requests; \<open>draw\<close> samples the normal distribution.\<close>

definition client_retry :: "(rat \<Rightarrow> rat \<Rightarrow> ('u world, rat) comp) \<Rightarrow> 'u RetryParameters" where
  "client_retry draw =
     \<lparr>backoff_strategy = BackoffGaussianJitterDecorator draw (LinearRetryBackoff 3 10000) 1000,
      retry_error_codes = default_retry_error_codes\<rparr>"

definition Http_ListStarShipProperties ::
    "'j json_library \<Rightarrow> bool \<Rightarrow> (rat \<Rightarrow> rat \<Rightarrow> ('z client_app world, rat) comp) \<Rightarrow> ('h, 'z) HttpStarWarsClient \<Rightarrow>
     ('z client_app world, StarshipProperties list) comp" where
  "Http_ListStarShipProperties js model_first draw cli =
     thenC (on_client (\<lambda>c. c\<lparr>hc_starships := []\<rparr>))
     (thenC (bindC (issue_request ''ListStarShipProperties''
               (P_ErrorForwarding (EF_IncludeAllErrorCodes default_map_to Map.empty)
                  :: (StarshipProperties option, 'z client_app) hook_params)
               [P_Retry (client_retry draw)]
               (\<lambda>ctx. client_list_func js model_first cli ctx ''/api/starships/?format=json'')) (\<lambda>_. ret ()))
            (getC (\<lambda>w. hc_starships (sv_client (snd (app w))))))"

subsection \<open>Looking up a ship\<close>

definition with_copied :: "addr \<Rightarrow> (addr \<Rightarrow> ('u world, 'a) comp) \<Rightarrow> ('u world, 'a) comp" where
  "with_copied other body =
     bindC (getC stack_top) (\<lambda>a.
       thenC (on_contexts (Context_copy_construct a other))
       (thenC (modifyC (\<lambda>w. w\<lparr>stack_top := a + 1\<rparr>))
              (cleanupC (body a) (pop_context a))))"

definition client_get_func ::
    "'j json_library \<Rightarrow> bool \<Rightarrow> ('h, 'z) HttpStarWarsClient \<Rightarrow> string \<Rightarrow> 'z client_app func" where
  "client_get_func js model_first cli starshipId ctx =
     with_copied ThreadLocalContext (\<lambda>client_context.
       bindC (filtered_headers cli client_context) (\<lambda>headers.
       bindC (cli_Get cli (''/api/starships/'' @ starshipId @ ''/?format=json'') headers) (\<lambda>resp.
         case resp of
           None \<Rightarrow> ret (Status_of SC_unknown [])
         | Some r \<Rightarrow>
             bindC (liftE (FromHttpStatusCode DefaultHttpStatusCodeToStatusCode (hr_status r))) (\<lambda>c.
               thenC (if succeeded (Status_of c [])
                      then bindC (liftE (case json_parse js (hr_body r) of Inl e \<Rightarrow> Inl e | Inr j \<Rightarrow> from_json js model_first j))
                             (\<lambda>p. on_client (\<lambda>s. s\<lparr>hc_found := Some p\<rparr>))
                      else ret ())
                     (ret (Status_of c []))))))"

definition client_get_caching :: "string \<Rightarrow> (StarshipProperties option, 'z client_app) CachingParameters" where
  "client_get_caching starshipId =
     Caching_Include [SC_not_found]
       (NeverExpire
         (WithCachedObject ''std::optional<StarshipProperties>'' (\<lambda>u. hc_found (sv_client (snd u)))
            (\<lambda>v (b, s). (b, s\<lparr>sv_client := (sv_client s)\<lparr>hc_found := v\<rparr>\<rparr>))
           (WithKey starshipId (Caching_Parameters client_cache))))"

definition Http_GetStarShipProperties ::
    "'j json_library \<Rightarrow> bool \<Rightarrow> (rat \<Rightarrow> rat \<Rightarrow> ('z client_app world, rat) comp) \<Rightarrow> ('h, 'z) HttpStarWarsClient \<Rightarrow> string \<Rightarrow>
     ('z client_app world, StarshipProperties option) comp" where
  "Http_GetStarShipProperties js model_first draw cli starshipId =
     thenC (on_client (\<lambda>c. c\<lparr>hc_found := None\<rparr>))
     (thenC (bindC (issue_request ''GetStarShipProperties''
               (P_ErrorForwarding (EF_Exclude SC_not_found (EF_IncludeAllErrorCodes default_map_to Map.empty)))
               [P_Caching (client_get_caching starshipId), P_Retry (client_retry draw)]
               (client_get_func js model_first cli starshipId)) (\<lambda>_. ret ()))
            (getC (\<lambda>w. hc_found (sv_client (snd (app w))))))"

definition HttpStarWarsClient_of ::
    "'j json_library \<Rightarrow> bool \<Rightarrow> (rat \<Rightarrow> rat \<Rightarrow> ('z client_app world, rat) comp) \<Rightarrow> ('h, 'z) HttpStarWarsClient \<Rightarrow>
     'z client_app StarWarsClient" where
  "HttpStarWarsClient_of js model_first draw cli =
     \<lparr>ListStarShipProperties = Http_ListStarShipProperties js model_first draw cli,
      GetStarShipProperties = Http_GetStarShipProperties js model_first draw cli\<rparr>"

text \<open>The state of a new client.\<close>

definition new_client_state :: client_state where
  "new_client_state = \<lparr>hc_cache = (Map.empty, lru_empty), hc_starships = [], hc_found = None\<rparr>"

end
