(* ===== verification/Mse_Starwars_Client_Run.thy ===== *)
theory Mse_Starwars_Client_Run
  imports Mse_Starwars_Client
begin

text \<open>
  What the client of the public API does: an outgoing request through the hooks of the service,
  the pages of the list, and the single ship with its cache.
\<close>

declare split_paired_Ex [simp del] split_paired_All [simp del]

subsection \<open>An outgoing request\<close>

text \<open>The hooks from the outermost to the innermost.\<close>

definition issuer_hooks ::
    "('v, request_data \<times> 's) hook_params \<Rightarrow> ('v, request_data \<times> 's) hook_params list \<Rightarrow> (request_data \<times> 's) hook list" where
  "issuer_hooks first hooks =
     map (SetRequestType RT_outgoing)
       [hook_of first, LoggingRequestHook Logging_Parameters, CircuitBreakerRequestHook (MaxPending 2) default_errorStatus]
     @ map (SetRequestType RT_outgoing \<circ> hook_of) hooks"

lemma issuer_globals_hooks:
  "GlobalRequestHookConstructionHolder service_factory issuer_globals p
   = Inr (p\<lparr>pr_hooks := pr_hooks p @ map (SetRequestType (pr_type p))
       [LoggingRequestHook Logging_Parameters, CircuitBreakerRequestHook (MaxPending 2) default_errorStatus]\<rparr>)"
  by (simp add: issuer_globals_def With_params_def With_hook_def)

lemma issue_request_steps:
  fixes w :: "(request_data \<times> 's) world" and hooks :: "('v, request_data \<times> 's) hook_params list"
    and first :: "('v, request_data \<times> 's) hook_params"
  assumes ok: "stack_ok n w"
  shows "\<exists>w3. issue_request name first hooks func w =
      (case in_hooks (issuer_hooks first hooks) func (Suc (Suc n)) w3 of
         None \<Rightarrow> None | Some (r, w') \<Rightarrow> Some (r, pop_context n (pop_context (Suc n) (pop_context (Suc (Suc n)) w'))))
    \<and> stack_ok (Suc (Suc (Suc n))) w3 \<and> app_clock w3 = app_clock w
    \<and> (\<forall>d. Context_AtOr (contexts w3) (Suc (Suc n)) ''request'' d = Some name)"
proof -
  let ?oc = "\<lparr>ctx_metadata = [], ctx_parent = Some ThreadLocalContext\<rparr>"
  let ?p = "\<lparr>pr_hooks = [], pr_name = name, pr_type = RT_outgoing, pr_context = Suc n\<rparr> :: (request_data \<times> 's) processor"
  let ?p' = "?p\<lparr>pr_hooks := issuer_hooks first hooks\<rparr>"
  define w1 where "w1 = push_context [] None w"
  have top: "stack_top w = n" by (rule stack_ok_top [OF ok])
  have ok1: "stack_ok (Suc n) w1" unfolding w1_def by (rule stack_ok_push [OF ok]) simp_all
  have w1: "contexts w1 n = Some ?oc" "app_clock w1 = app_clock w"
    using top by (simp_all add: w1_def) (simp_all add: push_context_def)
  obtain w2 where c: "RequestProcessor_construct name RT_outgoing n w1 = Some (Inr ?p, w2)" and ok2: "stack_ok (Suc (Suc n)) w2"
    using RequestProcessor_construct_stack [OF ok1 lessI] by blast
  have w2: "app_clock w2 = app_clock w"
    using c RequestProcessor_construct_run [OF ok1 lessI w1(1), of name RT_outgoing] w1(2) by auto
  let ?globals = "issuer_globals :: ('v, request_data \<times> 's) hook_params any list"
  have "RequestIssuer_construct service_factory ?globals name n w1 =
      Some (Inr (?p\<lparr>pr_hooks := map (SetRequestType RT_outgoing)
        [LoggingRequestHook Logging_Parameters, CircuitBreakerRequestHook (MaxPending 2) default_errorStatus]\<rparr>), w2)"
    unfolding RequestIssuer_construct_def construct_with_globals_def bindC_Inr [where m = "RequestProcessor_construct name RT_outgoing n", OF c]
      issuer_globals_hooks
    by (simp add: ret_apply)
  then have body: "with_processor (RequestIssuer_construct service_factory ?globals name n) (\<lambda>p.
        bindC (liftE (BeginWith_params service_factory (params first) p)) (\<lambda>p1.
        bindC (liftE (With_each service_factory (map params hooks) p1)) (\<lambda>p2. RequestProcessor_Process p2 func))) w1
    = cleanupC (RequestProcessor_Process ?p' func) (pop_context (Suc n)) w2"
    by (simp add: with_processor_def bindC_Inr With_each_hooks BeginWith_params_def BeginWith_hook_def issuer_hooks_def
        cleanupC_def split: option.split)
  have top2: "stack_top w2 = Suc (Suc n)" by (rule stack_ok_top [OF ok2])
  have parent: "parent_ok w2 (Some (Suc n))" by (rule stack_ok_parent [OF ok2]) simp
  define w3 where "w3 = push_context (mm_of_list [(''request'', name)]) (Some (Suc n)) w2"
  have ok3: "stack_ok (Suc (Suc (Suc n))) w3" unfolding w3_def by (rule stack_ok_push [OF ok2]) simp_all
  have "RequestProcessor_Process ?p' func w2 = (case in_hooks (issuer_hooks first hooks) func (Suc (Suc n)) w3 of
         None \<Rightarrow> None | Some (r, w') \<Rightarrow> Some (r, pop_context (Suc (Suc n)) w'))"
    by (simp add: with_context_run [OF stack_ok_world [OF ok2] parent, unfolded top2] RequestProcessor_Process_def
        in_hooks_def Let_def w3_def)
  with body have "issue_request name first hooks func w =
      (case in_hooks (issuer_hooks first hooks) func (Suc (Suc n)) w3 of
         None \<Rightarrow> None | Some (r, w') \<Rightarrow> Some (r, pop_context n (pop_context (Suc n) (pop_context (Suc (Suc n)) w'))))"
    by (cases "in_hooks (issuer_hooks first hooks) func (Suc (Suc n)) w3")
      (auto simp: issue_request_def with_context_run [OF stack_ok_world [OF ok] parent_ok_None] top cleanupC_def
        w1_def split: prod.split)
  moreover have "contexts w3 (Suc (Suc n)) = Some \<lparr>ctx_metadata = [(''request'', name)], ctx_parent = Some (Suc n)\<rparr>"
    using top2 by (simp add: w3_def push_context_def mm_of_list_def)
  then have "Context_AtOr (contexts w3) (Suc (Suc n)) ''request'' d = Some name" for d
    by (simp add: Context_AtOr.simps [of _ "Suc (Suc n)"])
  moreover have "app_clock w3 = app_clock w" using w2 by (simp add: w3_def)
  ultimately show ?thesis using ok3 by (intro exI [of _ w3]) simp
qed

text \<open>What the logging hook leaves of an exception.\<close>

definition logged :: "exn + Status \<Rightarrow> exn + Status" where
  "logged r = (case r of Inl e \<Rightarrow> Inl invalid_status_exn | Inr s \<Rightarrow> Inr s)"

lemma logged_simps [simp]: "logged (Inl e) = Inl invalid_status_exn" "logged (Inr s) = Inr s"
  by (simp_all add: logged_def)

text \<open>
  A request while the breaker is closed: the function runs behind the inner hooks, and its result
  is logged and forwarded; the count of pending requests is what it was.
\<close>

lemma issue_request_outcome:
  fixes w :: "(request_data \<times> 's) world" and hooks :: "('v, request_data \<times> 's) hook_params list" and func :: "(request_data \<times> 's) func"
  assumes ok: "stack_ok n w" and closed: "pending_request_count (fst (app w)) name + 1 \<le> 2"
    and mapping: "mapping SC_invalid = None"
    and func: "\<And>m ctx. ctx < m \<Longrightarrow> hoare
        (pending_with m ctx name (pending_request_count (fst (app w)) name + 1) (\<lambda>x t. x = apart_from name (app w) \<and> t = steady_clock w))
        (in_hooks (map (SetRequestType RT_outgoing \<circ> hook_of) hooks) func ctx)
        (\<lambda>r. pending_with m ctx name (pending_request_count (fst (app w)) name + 1) (R r))"
    and valid: "\<And>s x t. R (Inr s) x t \<Longrightarrow> code s \<noteq> SC_invalid"
  shows "\<exists>r0 r w'. issue_request name (P_ErrorForwarding mapping) hooks func w = Some (r, w') \<and> stack_ok n w' \<and>
    R r0 (apart_from name (app w')) (steady_clock w') \<and> forwards mapping (logged r0) r \<and>
    pending_request_count (fst (app w')) name = pending_request_count (fst (app w)) name"
proof -
  let ?hooks = "issuer_hooks (P_ErrorForwarding mapping) hooks" and ?m = "Suc (Suc (Suc n))" and ?ctx = "Suc (Suc n)"
  let ?k = "pending_request_count (fst (app w)) name"
  let ?same = "\<lambda>x t. x = apart_from name (app w) \<and> t = steady_clock w"
  obtain w3 where run: "issue_request name (P_ErrorForwarding mapping) hooks func w = (case in_hooks ?hooks func ?ctx w3 of
         None \<Rightarrow> None | Some (r, w') \<Rightarrow> Some (r, pop_context n (pop_context (Suc n) (pop_context (Suc (Suc n)) w'))))"
    and ok3: "stack_ok ?m w3" and w3: "app_clock w3 = app_clock w"
      "\<forall>d. Context_AtOr (contexts w3) ?ctx ''request'' d = Some name"
    using issue_request_steps [OF ok] by blast
  have start: "pending_with ?m ?ctx name ?k ?same w3"
    using ok3 w3 by (simp add: pending_with_def pending_is_def app_clock_def)
  let ?inner = "in_hooks (map (SetRequestType RT_outgoing \<circ> hook_of) hooks) func"
  let ?breaker = "hook_Process (SetRequestType RT_outgoing (CircuitBreakerRequestHook (MaxPending 2) default_errorStatus)) ?inner"
  let ?logging = "hook_Process (SetRequestType RT_outgoing (LoggingRequestHook Logging_Parameters)) ?breaker"
  let ?B = "\<lambda>r. pending_with ?m ?ctx name ?k (R r)"
  have breaker: "hoare (pending_with ?m ?ctx name ?k ?same) (?breaker ?ctx) ?B"
    by (rule hoare_breaker) (use closed func [OF lessI] valid in auto)
  have validB: "code s \<noteq> SC_invalid" if "?B (Inr s) w" for s w using that valid unfolding pending_with_def by blast
  have levels: "loglevel_success Logging_Parameters \<noteq> LL_invalid" "loglevel_failure Logging_Parameters \<noteq> LL_invalid"
    by (simp_all add: Logging_Parameters_def)
  let ?L = "\<lambda>r w. \<exists>r0. ?B r0 w \<and> r = logged r0"
  have logging: "hoare (pending_with ?m ?ctx name ?k ?same) (?logging ?ctx) ?L"
    unfolding logged_def
    by (rule hoare_logging [where n = ?m, OF lessI levels(1) levels(2)]) (use breaker validB in simp_all)
  have stableL: "log_stable ?m (?L r)" for r by (auto simp: log_stable_def pending_with_def pending_is_def)
  have validL: "code s \<noteq> SC_invalid" if "?L (Inr s) w" for s w
    using that validB by (metis logged_def old.sum.exhaust old.sum.simps(5) old.sum.simps(6) sum.distinct(1) sum.inject(2))
  have all: "hoare (pending_with ?m ?ctx name ?k ?same) (in_hooks ?hooks func ?ctx)
      (\<lambda>r w. \<exists>r1. ?L r1 w \<and> forwards mapping r1 r)"
  proof -
    have E: "in_hooks ?hooks func = hook_Process (SetRequestType RT_outgoing (ErrorForwardingRequestHook mapping)) ?logging"
      by (simp add: issuer_hooks_def)
    show ?thesis
      unfolding E by (rule hoare_forwarding [where n = ?m, OF lessI]) (use logging stableL validL mapping in auto)
  qed
  from hoareE [OF all start] obtain r w4 r0 where run4: "in_hooks ?hooks func ?ctx w3 = Some (r, w4)"
    and w4: "?B r0 w4" "forwards mapping (logged r0) r" by blast
  let ?w' = "pop_context n (pop_context (Suc n) (pop_context (Suc (Suc n)) w4))"
  have "stack_ok n ?w'"
    using w4(1) stack_ok_ThreadLocal [OF ok] by (intro stack_ok_pop) (simp_all add: pending_with_def pending_is_def)
  moreover have "app ?w' = app w4" "steady_clock ?w' = steady_clock w4" by (simp_all add: pop_context_def)
  moreover have "issue_request name (P_ErrorForwarding mapping) hooks func w = Some (r, ?w')" using run run4 by simp
  ultimately have "issue_request name (P_ErrorForwarding mapping) hooks func w = Some (r, ?w') \<and> stack_ok n ?w' \<and>
      R r0 (apart_from name (app ?w')) (steady_clock ?w') \<and> forwards mapping (logged r0) r \<and>
      pending_request_count (fst (app ?w')) name = ?k"
    using w4 by (simp add: pending_with_def pending_is_def)
  then show ?thesis by blast
qed


subsection \<open>Pages\<close>

definition timed :: "int \<Rightarrow> 'u world \<Rightarrow> 'u world" where
  "timed t w = w\<lparr>system_clock := system_clock w + t, steady_clock := steady_clock w + t\<rparr>"

lemma timed_sel [simp]:
  "contexts (timed t w) = contexts w" "stack_top (timed t w) = stack_top w" "app (timed t w) = app w"
  "steady_clock (timed t w) = steady_clock w + t" "system_clock (timed t w) = system_clock w + t"
  "stack_ok n (timed t w) = stack_ok n w" "timed 0 w = w" "timed s (timed t w) = timed (t + s) w"
  "timed t (w\<lparr>app := u\<rparr>) = (timed t w)\<lparr>app := u\<rparr>"
  by (simp_all add: timed_def add.assoc)

text \<open>
  A connection to a server: \<open>Get\<close> takes time and answers what the server has at that time for the
  path, or nothing; it changes nothing else.
\<close>

definition http_server :: "('h, 'z) HttpStarWarsClient \<Rightarrow> (string \<Rightarrow> int \<Rightarrow> HttpResponse option) \<Rightarrow> bool" where
  "http_server cli answer \<longleftrightarrow>
     (\<forall>path headers w. \<exists>t \<ge> 0. cli_Get cli path headers w = Some (Inr (answer path (steady_clock w)), timed t w))"

primrec ships_of_nodes :: "'j json_library \<Rightarrow> bool \<Rightarrow> 'j list \<Rightarrow> exn + StarshipProperties list" where
  "ships_of_nodes js model_first [] = Inr []"
| "ships_of_nodes js model_first (node # nodes) =
     (case from_json js model_first node of Inl e \<Rightarrow> Inl e | Inr p \<Rightarrow>
       (case ships_of_nodes js model_first nodes of Inl e \<Rightarrow> Inl e | Inr ps \<Rightarrow> Inr (p # ps)))"

text \<open>The path of the next page and the ships of a page.\<close>

definition page_content :: "'j json_library \<Rightarrow> bool \<Rightarrow> string \<Rightarrow> exn + string \<times> StarshipProperties list" where
  "page_content js model_first body =
     (case json_parse js body of Inl e \<Rightarrow> Inl e | Inr data \<Rightarrow>
     (case json_at js data ''next'' of Inl e \<Rightarrow> Inl e | Inr nextNode \<Rightarrow>
     (case (if json_is_null js nextNode then Inr [] else json_get js nextNode) of Inl e \<Rightarrow> Inl e | Inr path \<Rightarrow>
     (case json_at js data ''results'' of Inl e \<Rightarrow> Inl e | Inr results \<Rightarrow>
     (case ships_of_nodes js model_first (json_elements js results) of Inl e \<Rightarrow> Inl e | Inr ps \<Rightarrow> Inr (path, ps))))))"

definition listed :: "StarshipProperties list \<Rightarrow> 'z client_app \<Rightarrow> 'z client_app" where
  "listed ps u = (fst u, (snd u)\<lparr>sv_client := (sv_client (snd u))\<lparr>hc_starships := hc_starships (sv_client (snd u)) @ ps\<rparr>\<rparr>)"

lemma listed_simps [simp]: "listed [] u = u" "listed qs (listed ps u) = listed (ps @ qs) u" "fst (listed ps u) = fst u"
  "hc_starships (sv_client (snd (listed ps u))) = hc_starships (sv_client (snd u)) @ ps"
  by (simp_all add: listed_def)

lemma emplace_starships_run:
  "ships_of_nodes js model_first nodes = Inr ps \<Longrightarrow>
   emplace_starships js model_first nodes w = Some (Inr (), w\<lparr>app := listed ps (app w)\<rparr>)"
proof (induction nodes arbitrary: ps w)
  case (Cons node nodes)
  from Cons.prems obtain p qs where p: "from_json js model_first node = Inr p" "ships_of_nodes js model_first nodes = Inr qs"
      "ps = p # qs"
    by (auto split: sum.splits)
  have "on_client (\<lambda>c. c\<lparr>hc_starships := hc_starships c @ [p]\<rparr>) w = Some (Inr (), w\<lparr>app := listed [p] (app w)\<rparr>)"
    by (simp add: on_client_def on_service_run listed_def)
  then show ?case using p Cons.IH [OF p(2), of "w\<lparr>app := listed [p] (app w)\<rparr>"] by (simp add: thenC_Inr)
qed (simp add: ret_apply)

lemma read_page_run:
  "page_content js model_first body = Inr (path, ps) \<Longrightarrow>
   read_page js model_first body w = Some (Inr path, w\<lparr>app := listed ps (app w)\<rparr>)"
  by (auto simp: page_content_def read_page_def thenC_Inr emplace_starships_run ret_apply split: sum.splits)

text \<open>The ships that a server lists from a path on, while its pages stay the same.\<close>

inductive served_pages ::
    "'j json_library \<Rightarrow> bool \<Rightarrow> (string \<Rightarrow> HttpResponse option) \<Rightarrow> string \<Rightarrow> StarshipProperties list \<Rightarrow> bool"
  for js :: "'j json_library" and model_first :: bool and answer :: "string \<Rightarrow> HttpResponse option" where
  no_page: "served_pages js model_first answer [] []"
| page: "path \<noteq> [] \<Longrightarrow> answer path = Some r \<Longrightarrow>
     FromHttpStatusCode DefaultHttpStatusCodeToStatusCode (hr_status r) = Inr SC_ok \<Longrightarrow>
     page_content js model_first (hr_body r) = Inr (path', ps) \<Longrightarrow> served_pages js model_first answer path' qs \<Longrightarrow>
     served_pages js model_first answer path (ps @ qs)"

lemma filtered_headers_run:
  assumes "stack_ok n w" and "ctx < n"
  shows "\<exists>headers. filtered_headers cli ctx w = Some (Inr headers, w)"
proof -
  from store_ok_reads [OF stack_ok_store [OF assms(1)] stack_ok_live [OF assms]]
  obtain all where "GetAllMetadata (contexts w) ctx = Some all" by blast
  then show ?thesis by (simp add: filtered_headers_def GetFilteredMetadata_def bindC_readC ret_apply)
qed

lemmas client_list_func_step =
  client_list_func.simps [THEN ext [where f = "client_list_func js model_first cli ctx path" for js model_first cli ctx path]]

lemma client_list_func_response:
  assumes "path \<noteq> []" and h: "filtered_headers cli ctx w = Some (Inr headers, w)"
    and get: "cli_Get cli path headers w = Some (Inr resp, w1)"
  shows "client_list_func js model_first cli ctx path w =
     (case resp of
        None \<Rightarrow> Some (Inr (Status_of SC_unknown []), w1)
      | Some r \<Rightarrow> (case FromHttpStatusCode DefaultHttpStatusCodeToStatusCode (hr_status r) of
          Inl e \<Rightarrow> Some (Inl e, w1)
        | Inr c \<Rightarrow> if c = SC_ok
            then bindC (read_page js model_first (hr_body r)) (client_list_func js model_first cli ctx) w1
            else Some (Inr (Status_of c []), w1)))"
proof -
  let ?k = "\<lambda>resp. case resp of
            None \<Rightarrow> ret (Status_of SC_unknown [])
          | Some r \<Rightarrow>
              bindC (liftE (FromHttpStatusCode DefaultHttpStatusCodeToStatusCode (hr_status r))) (\<lambda>c.
                if \<not> succeeded (Status_of c []) then ret (Status_of c [])
                else bindC (read_page js model_first (hr_body r)) (client_list_func js model_first cli ctx))"
  have E: "client_list_func js model_first cli ctx path w = ?k resp w1"
    unfolding client_list_func_step [of js model_first cli ctx path] using assms(1) h get
    by (cases resp) (simp_all add: bindC_Inr)
  have OK: "succeeded (Status_of c []) \<longleftrightarrow> c = SC_ok" for c by (simp add: succeeded_def Status_of_def)
  show ?thesis
  proof (cases resp)
    case None
    with E show ?thesis by (simp add: ret_apply)
  next
    case (Some r)
    have "?k (Some r) w1 = (case FromHttpStatusCode DefaultHttpStatusCodeToStatusCode (hr_status r) of
          Inl e \<Rightarrow> Some (Inl e, w1)
        | Inr c \<Rightarrow> if c = SC_ok
            then bindC (read_page js model_first (hr_body r)) (client_list_func js model_first cli ctx) w1
            else Some (Inr (Status_of c []), w1))"
      by (cases "FromHttpStatusCode DefaultHttpStatusCodeToStatusCode (hr_status r)")
        (simp_all add: OK bindC_Inl liftE_apply ret_apply)
    with E Some show ?thesis by simp
  qed
qed

lemma client_list_func_page:
  assumes "path \<noteq> []" and "filtered_headers cli ctx w = Some (Inr headers, w)"
    and "cli_Get cli path headers w = Some (Inr (Some r), w1)"
    and "FromHttpStatusCode DefaultHttpStatusCodeToStatusCode (hr_status r) = Inr SC_ok"
    and "page_content js model_first (hr_body r) = Inr (path', ps)"
  shows "client_list_func js model_first cli ctx path w
    = client_list_func js model_first cli ctx path' (w1\<lparr>app := listed ps (app w1)\<rparr>)"
  using client_list_func_response [OF assms(1-3), of js model_first] read_page_run [OF assms(5), of w1] assms(4)
  by (simp add: bindC_def)

lemma server_get:
  assumes "stack_ok n w" and "ctx < n" and "http_server cli answer"
  obtains headers t where "filtered_headers cli ctx w = Some (Inr headers, w)" "0 \<le> t"
    "cli_Get cli path headers w = Some (Inr (answer path (steady_clock w)), timed t w)"
  using filtered_headers_run [OF assms(1,2), of cli] assms(3) unfolding http_server_def by blast

lemma client_list_func_run:
  assumes "served_pages js model_first answer path ps" and "http_server cli (\<lambda>path t. answer path)"
  shows "stack_ok n w \<Longrightarrow> ctx < n \<Longrightarrow>
    \<exists>t \<ge> 0. client_list_func js model_first cli ctx path w = Some (Inr Status_OK, (timed t w)\<lparr>app := listed ps (app w)\<rparr>)"
  using assms(1)
proof (induction arbitrary: w)
  case no_page
  then show ?case by (intro exI [of _ 0]) (simp add: client_list_func_step [of _ _ _ _ "[]"] ret_apply)
next
  case (page path r path' ps qs)
  obtain headers t where h: "filtered_headers cli ctx w = Some (Inr headers, w)" and t: "0 \<le> t"
    and get: "cli_Get cli path headers w = Some (Inr (answer path), timed t w)"
    by (rule server_get [OF page.prems assms(2)])
  let ?w = "(timed t w)\<lparr>app := listed ps (app w)\<rparr>"
  have "client_list_func js model_first cli ctx path w = client_list_func js model_first cli ctx path' ?w"
    using client_list_func_page [OF page.hyps(1) h get [unfolded page.hyps(2)] page.hyps(3,4)] by simp
  moreover obtain t' where "0 \<le> t'" "client_list_func js model_first cli ctx path' ?w
      = Some (Inr Status_OK, (timed t' ?w)\<lparr>app := listed qs (app ?w)\<rparr>)"
    using page.IH [of ?w] page.prems by auto
  ultimately show ?case using t by (intro exI [of _ "t + t'"]) simp
qed


subsection \<open>The list of ships\<close>

definition first_page :: string where
  "first_page = ''/api/starships/?format=json''"

abbreviation list_pending :: "request_data \<Rightarrow> 32 word" where
  "list_pending d \<equiv> pending_request_count d ''ListStarShipProperties''"

lemma retry_hook [simp]:
  "hook_Process (SetRequestType t (RetryRequestHook ps)) func ctx = RetryRequestHook_Process ps func ctx"
  by (simp add: RetryRequestHook_def)

lemma client_retry_codes [simp]: "retry_error_codes (client_retry draw) = {SC_unavailable, SC_resource_exhausted, SC_internal, SC_unknown}"
  by (simp add: client_retry_def default_retry_error_codes_def)

text \<open>
  Behind the retry hook: a function that ends with one result which is not retried, a status or an
  exception.
\<close>

lemma retried_once:
  fixes func :: "'z client_app func" and draw :: "rat \<Rightarrow> rat \<Rightarrow> ('z client_app world, rat) comp"
  assumes ctx: "ctx < m"
    and func: "\<And>w'. stack_ok m w' \<Longrightarrow> apart_from name (app w') = y0 \<Longrightarrow> steady_clock w' = now \<Longrightarrow>
        \<exists>t. 0 \<le> t \<and> func ctx w' = Some (r0, (timed t w')\<lparr>app := (fst (app w'), x)\<rparr>)"
    and once: "\<And>s. r0 = Inr s \<Longrightarrow> code s \<noteq> SC_invalid \<and> code s \<notin> retry_error_codes (client_retry draw)"
  shows "hoare (pending_with m ctx name k (\<lambda>y t. y = y0 \<and> t = now)) (RetryRequestHook_Process (client_retry draw) func ctx)
    (\<lambda>r. pending_with m ctx name k (\<lambda>y t. r = r0 \<and> y = apart_from name (fst y0, x) \<and> now \<le> t))"
proof (rule hoare_retry_once [where n = m])
  show "hoare (pending_with m ctx name k (\<lambda>y t. y = y0 \<and> t = now)) (func ctx)
      (\<lambda>r. pending_with m ctx name k (\<lambda>y t. r = r0 \<and> y = apart_from name (fst y0, x) \<and> now \<le> t))"
  proof (rule hoareI)
    fix w1 :: "'z client_app world"
    assume w1: "pending_with m ctx name k (\<lambda>y t. y = y0 \<and> t = now) w1"
    then obtain t where "0 \<le> t" "func ctx w1 = Some (r0, (timed t w1)\<lparr>app := (fst (app w1), x)\<rparr>)"
      using func [of w1] by (auto simp: pending_with_def pending_is_def)
    with w1 show "\<exists>r w'. func ctx w1 = Some (r, w') \<and> pending_with m ctx name k (\<lambda>y t. r = r0 \<and> y = apart_from name (fst y0, x) \<and> now \<le> t) w'"
      by (auto simp: pending_with_def pending_is_def)
  qed
qed (use once in \<open>auto simp: pending_with_def\<close>)

lemma issue_inner:
  fixes w :: "'z client_app world" and func :: "'z client_app func"
    and draw :: "rat \<Rightarrow> rat \<Rightarrow> ('z client_app world, rat) comp"
  assumes ok: "stack_ok n w" and closed: "pending_request_count (fst (app w)) name + 1 \<le> 2"
    and mapping: "mapping SC_invalid = None"
    and inner: "\<And>m ctx. ctx < m \<Longrightarrow> hoare
        (pending_with m ctx name (pending_request_count (fst (app w)) name + 1) (\<lambda>y t. y = apart_from name (app w) \<and> t = steady_clock w))
        (RetryRequestHook_Process (client_retry draw) func ctx)
        (\<lambda>r. pending_with m ctx name (pending_request_count (fst (app w)) name + 1) (\<lambda>y t. r = r0 \<and> y = x \<and> steady_clock w \<le> t))"
    and valid: "\<And>s. r0 = Inr s \<Longrightarrow> code s \<noteq> SC_invalid"
  shows "\<exists>r w'. issue_request name (P_ErrorForwarding mapping :: ('v, 'z client_app) hook_params) [P_Retry (client_retry draw)] func w
      = Some (r, w') \<and> stack_ok n w' \<and>
    apart_from name (app w') = x \<and> steady_clock w \<le> steady_clock w' \<and> forwards mapping (logged r0) r \<and>
    pending_request_count (fst (app w')) name = pending_request_count (fst (app w)) name"
proof -
  let ?R = "\<lambda>r y t. r = r0 \<and> y = x \<and> steady_clock w \<le> t"
  have "\<exists>r0' r w'. issue_request name (P_ErrorForwarding mapping :: ('v, 'z client_app) hook_params) [P_Retry (client_retry draw)] func w
      = Some (r, w') \<and> stack_ok n w' \<and> ?R r0' (apart_from name (app w')) (steady_clock w') \<and> forwards mapping (logged r0') r \<and>
      pending_request_count (fst (app w')) name = pending_request_count (fst (app w)) name"
    by (rule issue_request_outcome [where R = ?R]) (use ok closed mapping inner valid in auto)
  then show ?thesis by blast
qed

lemma EF_all_invalid: "EF_IncludeAllErrorCodes default_map_to Map.empty SC_invalid = None"
  by (simp add: EF_IncludeAllErrorCodes_apply)

definition no_ships :: "'z client_app \<Rightarrow> 'z client_app" where
  "no_ships u = (fst u, (snd u)\<lparr>sv_client := (sv_client (snd u))\<lparr>hc_starships := []\<rparr>\<rparr>)"

lemma no_ships_sel [simp]: "fst (no_ships u) = fst u" "hc_starships (sv_client (snd (no_ships u))) = []"
  by (simp_all add: no_ships_def)

lemma client_part_list [simp]: "client_part u (d, snd (listed ps (no_ships u)))"
  by (auto simp: client_part_def listed_def no_ships_def intro!: exI [of _ "(sv_client (snd u))\<lparr>hc_starships := ps\<rparr>"])

lemma listed_apart: "apart_from name (listed ps u) = apart_from name (fst (apart_from name u), snd (listed ps u))"
  by (simp add: listed_def)

lemma Http_List_inner:
  fixes w :: "'z client_app world" and cli :: "('h, 'z) HttpStarWarsClient"
  assumes ok: "stack_ok n w" and closed: "list_pending (fst (app w)) + 1 \<le> 2"
    and inner: "\<And>m ctx. ctx < m \<Longrightarrow> hoare
        (pending_with m ctx ''ListStarShipProperties'' (list_pending (fst (app w)) + 1)
           (\<lambda>y t. y = apart_from ''ListStarShipProperties'' (no_ships (app w)) \<and> t = steady_clock w))
        (RetryRequestHook_Process (client_retry draw) (\<lambda>ctx. client_list_func js model_first cli ctx first_page) ctx)
        (\<lambda>r. pending_with m ctx ''ListStarShipProperties'' (list_pending (fst (app w)) + 1)
           (\<lambda>y t. r = r0 \<and> y = apart_from ''ListStarShipProperties'' (listed ps (no_ships (app w))) \<and> steady_clock w \<le> t))"
    and valid: "\<And>s. r0 = Inr s \<Longrightarrow> code s \<noteq> SC_invalid"
  shows "\<exists>r w'. Http_ListStarShipProperties js model_first draw cli w = Some (map_sum id (\<lambda>_. ps) r, w') \<and> stack_ok n w' \<and>
    client_part (app w) (app w') \<and> hc_cache (sv_client (snd (app w'))) = hc_cache (sv_client (snd (app w))) \<and>
    steady_clock w \<le> steady_clock w' \<and> pending_request_count (fst (app w')) = pending_request_count (fst (app w)) \<and>
    forwards (EF_IncludeAllErrorCodes default_map_to Map.empty) (logged r0) r"
proof -
  let ?w = "w\<lparr>app := no_ships (app w)\<rparr>" and ?m = "EF_IncludeAllErrorCodes default_map_to Map.empty"
  let ?func = "\<lambda>ctx. client_list_func js model_first cli ctx first_page"
  let ?issue = "issue_request ''ListStarShipProperties'' (P_ErrorForwarding ?m :: (StarshipProperties option, 'z client_app) hook_params)
      [P_Retry (client_retry draw)] ?func"
  have "\<exists>r w'. ?issue ?w = Some (r, w') \<and> stack_ok n w' \<and> apart_from ''ListStarShipProperties'' (app w') = apart_from ''ListStarShipProperties'' (listed ps (no_ships (app w))) \<and>
      steady_clock ?w \<le> steady_clock w' \<and> forwards ?m (logged r0) r \<and>
      list_pending (fst (app w')) = list_pending (fst (app ?w))"
    by (rule issue_inner) (use ok closed inner valid EF_all_invalid in simp_all)
  then obtain r w' where run: "?issue ?w = Some (r, w')" and w': "stack_ok n w'"
      "apart_from ''ListStarShipProperties'' (app w') = apart_from ''ListStarShipProperties'' (listed ps (no_ships (app w)))" "steady_clock w \<le> steady_clock w'" "forwards ?m (logged r0) r"
      "list_pending (fst (app w')) = list_pending (fst (app w))"
    by auto
  have "on_client (\<lambda>c. c\<lparr>hc_starships := []\<rparr>) w = Some (Inr (), ?w)" by (simp add: on_client_def on_service_run no_ships_def)
  then have "Http_ListStarShipProperties js model_first draw cli w = Some (map_sum id (\<lambda>_. ps) r, w')"
    using run arg_cong [OF w'(2), of snd] by (cases r)
      (simp_all add: Http_ListStarShipProperties_def first_page_def [symmetric] thenC_Inr bindC_Inr thenC_Inl bindC_Inl ret_apply getC_apply)
  moreover have "client_part (app w) (app w')"
    using client_part_list [of "app w" "fst (app w')" ps] arg_cong [OF w'(2), of snd] by (metis apart_from_simps(3) prod.collapse)
  moreover have "pending_request_count (fst (app w')) = pending_request_count (fst (app w))"
    using w'(5) by (intro apart_from_counts [where y = "snd (listed ps (no_ships (app w)))"]) (simp_all add: w'(2) listed_def no_ships_def)
  moreover have "hc_cache (sv_client (snd (app w'))) = hc_cache (sv_client (snd (app w)))"
    using arg_cong [OF w'(2), of snd] by (simp add: listed_def no_ships_def)
  ultimately show ?thesis using w' by (intro exI [of _ r] exI [of _ w']) simp
qed

lemma Http_List_once:
  fixes w :: "'z client_app world" and cli :: "('h, 'z) HttpStarWarsClient"
  assumes ok: "stack_ok n w" and closed: "list_pending (fst (app w)) + 1 \<le> 2"
    and func: "\<And>m ctx w'. stack_ok m w' \<Longrightarrow> ctx < m \<Longrightarrow> steady_clock w' = steady_clock w \<Longrightarrow>
        \<exists>t \<ge> 0. client_list_func js model_first cli ctx first_page w' = Some (r0, (timed t w')\<lparr>app := listed ps (app w')\<rparr>)"
    and once: "\<And>s. r0 = Inr s \<Longrightarrow> code s \<noteq> SC_invalid \<and> code s \<notin> retry_error_codes (client_retry draw)"
  shows "\<exists>r w'. Http_ListStarShipProperties js model_first draw cli w = Some (map_sum id (\<lambda>_. ps) r, w') \<and> stack_ok n w' \<and>
    client_part (app w) (app w') \<and> hc_cache (sv_client (snd (app w'))) = hc_cache (sv_client (snd (app w))) \<and>
    steady_clock w \<le> steady_clock w' \<and> pending_request_count (fst (app w')) = pending_request_count (fst (app w)) \<and>
    forwards (EF_IncludeAllErrorCodes default_map_to Map.empty) (logged r0) r"
proof (rule Http_List_inner [OF ok closed])
  fix m ctx :: nat assume ctx: "ctx < m"
  show "hoare (pending_with m ctx ''ListStarShipProperties'' (list_pending (fst (app w)) + 1)
           (\<lambda>y t. y = apart_from ''ListStarShipProperties'' (no_ships (app w)) \<and> t = steady_clock w))
        (RetryRequestHook_Process (client_retry draw) (\<lambda>ctx. client_list_func js model_first cli ctx first_page) ctx)
        (\<lambda>r. pending_with m ctx ''ListStarShipProperties'' (list_pending (fst (app w)) + 1)
           (\<lambda>y t. r = r0 \<and> y = apart_from ''ListStarShipProperties'' (listed ps (no_ships (app w))) \<and> steady_clock w \<le> t))"
    unfolding listed_apart
  proof (rule retried_once [OF ctx])
    fix w' :: "'z client_app world"
    assume w': "stack_ok m w'" "apart_from ''ListStarShipProperties'' (app w') = apart_from ''ListStarShipProperties'' (no_ships (app w))" "steady_clock w' = steady_clock w"
    then obtain t where "0 \<le> t" "client_list_func js model_first cli ctx first_page w' = Some (r0, (timed t w')\<lparr>app := listed ps (app w')\<rparr>)"
      using func [of m w' ctx] ctx by auto
    moreover have "listed ps (app w') = (fst (app w'), snd (listed ps (no_ships (app w))))"
      using arg_cong [OF w'(2), of snd] by (simp add: listed_def)
    ultimately show "\<exists>t. 0 \<le> t \<and> client_list_func js model_first cli ctx first_page w'
        = Some (r0, (timed t w')\<lparr>app := (fst (app w'), snd (listed ps (no_ships (app w))))\<rparr>)"
      by auto
  qed (rule once)
qed (use once in blast)

text \<open>Over a server that works the client lists the ships of the pages.\<close>

lemma Http_List_run:
  fixes w :: "'z client_app world" and js :: "'j json_library" and cli :: "('h, 'z) HttpStarWarsClient"
  assumes "stack_ok n w" and "list_pending (fst (app w)) + 1 \<le> 2"
    and "http_server cli (\<lambda>path t. answer path)" and "served_pages js model_first answer first_page ps"
  shows "\<exists>w'. Http_ListStarShipProperties js model_first draw cli w = Some (Inr ps, w') \<and> stack_ok n w' \<and>
    client_part (app w) (app w') \<and> hc_cache (sv_client (snd (app w'))) = hc_cache (sv_client (snd (app w))) \<and>
    steady_clock w \<le> steady_clock w' \<and> pending_request_count (fst (app w')) = pending_request_count (fst (app w))"
proof -
  have "\<exists>r w'. Http_ListStarShipProperties js model_first draw cli w = Some (map_sum id (\<lambda>_. ps) r, w') \<and> stack_ok n w' \<and>
    client_part (app w) (app w') \<and> hc_cache (sv_client (snd (app w'))) = hc_cache (sv_client (snd (app w))) \<and>
    steady_clock w \<le> steady_clock w' \<and> pending_request_count (fst (app w')) = pending_request_count (fst (app w)) \<and>
    forwards (EF_IncludeAllErrorCodes default_map_to Map.empty) (logged (Inr Status_OK)) r"
    by (rule Http_List_once [OF assms(1,2)])
      (use client_list_func_run [OF assms(4,3)] in \<open>auto simp: Status_OK_def\<close>)
  moreover have "r = Inr Status_OK"
    if "forwards (EF_IncludeAllErrorCodes default_map_to Map.empty) (logged (Inr Status_OK)) r" for r
    using that by (simp add: forwards_def EF_IncludeAllErrorCodes_apply Status_OK_def)
  ultimately show ?thesis by fastforce
qed

end
