(* ===== verification/Mse_Starwars_Client_Props.thy ===== *)
theory Mse_Starwars_Client_Props
  imports Mse_Starwars_Client_Run
begin

text \<open>
  The properties of the client of the public API: what a list is, over servers that work, fail,
  recover between two attempts or link their pages in a circle.
\<close>

declare split_paired_Ex [simp del] split_paired_All [simp del]

subsection \<open>Properties\<close>

text \<open>
  Claim C9: listing over a server that works. When the pages of the server, from the first one on
  and by their links, hold the ships \<open>ps\<close>, and the breaker lets the request pass, the client
  returns exactly these ships, in order. It changes its own part of the state only, and of the
  counters of the breaker none.
\<close>

theorem http_client_lists:
  fixes w :: "'z client_app world" and js :: "'j json_library" and cli :: "('h, 'z) HttpStarWarsClient"
  assumes "stack_ok n w" and "list_pending (fst (app w)) + 1 \<le> 2"
    and "http_server cli (\<lambda>path t. answer path)" and "served_pages js model_first answer first_page ps"
  shows "\<exists>w'. Http_ListStarShipProperties js model_first draw cli w = Some (Inr ps, w') \<and> stack_ok n w' \<and>
    client_part (app w) (app w') \<and> steady_clock w \<le> steady_clock w' \<and> pending_request_count (fst (app w')) = pending_request_count (fst (app w))"
  using Http_List_run [OF assms] by blast

text \<open>
  An error of the server becomes an error of the service. When the first page is answered
  with an HTTP code that means a failure which is not retried, the list is not returned: the
  client throws the exception that carries the status \<open>unavailable\<close> to the own caller.
\<close>

theorem http_client_forwards_error:
  fixes w :: "'z client_app world" and js :: "'j json_library" and cli :: "('h, 'z) HttpStarWarsClient"
  assumes "stack_ok n w" and "list_pending (fst (app w)) + 1 \<le> 2"
    and "http_server cli answer" and "answer first_page (steady_clock w) = Some r"
    and "FromHttpStatusCode DefaultHttpStatusCodeToStatusCode (hr_status r) = Inr c"
    and "c \<notin> {SC_ok, SC_invalid, SC_unavailable, SC_resource_exhausted, SC_internal, SC_unknown}"
  shows "\<exists>detail w'. Http_ListStarShipProperties js model_first draw cli w
      = Some (Inl (ErrorForwardingException default_map_to detail), w') \<and> stack_ok n w' \<and>
    client_part (app w) (app w') \<and> pending_request_count (fst (app w')) = pending_request_count (fst (app w))"
proof -
  have "\<exists>t \<ge> 0. client_list_func js model_first cli ctx first_page w'
      = Some (Inr (Status_of c []), (timed t w')\<lparr>app := listed [] (app w')\<rparr>)"
    if w': "stack_ok m w'" "ctx < m" "steady_clock w' = steady_clock w" for m ctx w'
  proof -
    obtain headers t where h: "filtered_headers cli ctx w' = Some (Inr headers, w')" and t: "0 \<le> t"
      and get: "cli_Get cli first_page headers w' = Some (Inr (answer first_page (steady_clock w')), timed t w')"
      by (rule server_get [OF w'(1,2) assms(3)])
    have "client_list_func js model_first cli ctx first_page w' = Some (Inr (Status_of c []), timed t w')"
      using client_list_func_response [OF _ h get, of js model_first] assms(4-6) w'(3) by (simp add: first_page_def)
    with t show ?thesis by (intro exI [of _ t]) simp
  qed
  then have "\<exists>r w'. Http_ListStarShipProperties js model_first draw cli w = Some (map_sum id (\<lambda>_. []) r, w') \<and> stack_ok n w' \<and>
    client_part (app w) (app w') \<and> hc_cache (sv_client (snd (app w'))) = hc_cache (sv_client (snd (app w))) \<and>
    steady_clock w \<le> steady_clock w' \<and> pending_request_count (fst (app w')) = pending_request_count (fst (app w)) \<and>
    forwards (EF_IncludeAllErrorCodes default_map_to Map.empty) (logged (Inr (Status_of c []))) r"
    by (intro Http_List_once [OF assms(1,2)]) (use assms(6) in \<open>auto simp: Status_of_def\<close>)
  then obtain r w' where "Http_ListStarShipProperties js model_first draw cli w = Some (map_sum id (\<lambda>_. []) r, w')" "stack_ok n w'"
    "client_part (app w) (app w')" "pending_request_count (fst (app w')) = pending_request_count (fst (app w))"
    "forwards (EF_IncludeAllErrorCodes default_map_to Map.empty) (logged (Inr (Status_of c []))) r"
    by blast
  moreover obtain detail where "r = Inl (ErrorForwardingException default_map_to detail)"
    using calculation(5) assms(6) by (auto simp: forwards_def EF_IncludeAllErrorCodes_apply Status_of_def split: if_splits)
  ultimately show ?thesis by auto
qed


subsection \<open>When the list ends\<close>

text \<open>A page that the server has and the client can read: its link and its ships.\<close>

definition readable_page ::
    "'j json_library \<Rightarrow> bool \<Rightarrow> (string \<Rightarrow> HttpResponse option) \<Rightarrow> string \<Rightarrow> string \<Rightarrow> StarshipProperties list \<Rightarrow> bool" where
  "readable_page js model_first answer path path' ps \<longleftrightarrow>
     (\<exists>r. answer path = Some r \<and> FromHttpStatusCode DefaultHttpStatusCodeToStatusCode (hr_status r) = Inr SC_ok \<and>
        page_content js model_first (hr_body r) = Inr (path', ps))"

lemma readable_page_run:
  fixes K :: "string \<Rightarrow> ('z client_app world, Status) comp"
  assumes "stack_ok n w" and "ctx < n" and "http_server cli (\<lambda>path t. answer path)" and "path \<noteq> []"
    and "readable_page js model_first answer path path' ps"
  shows "\<exists>t. (if path = [] then ret Status_OK
      else bindC (filtered_headers cli ctx) (\<lambda>headers.
        bindC (cli_Get cli path headers) (\<lambda>resp.
          case resp of
            None \<Rightarrow> ret (Status_of SC_unknown [])
          | Some r \<Rightarrow>
              bindC (liftE (FromHttpStatusCode DefaultHttpStatusCodeToStatusCode (hr_status r))) (\<lambda>c.
                if \<not> succeeded (Status_of c []) then ret (Status_of c [])
                else bindC (read_page js model_first (hr_body r)) K)))) w
    = K path' ((timed t w)\<lparr>app := listed ps (app w)\<rparr>)"
proof -
  from assms(5) obtain r where r: "answer path = Some r" "FromHttpStatusCode DefaultHttpStatusCodeToStatusCode (hr_status r) = Inr SC_ok"
      "page_content js model_first (hr_body r) = Inr (path', ps)"
    unfolding readable_page_def by blast
  obtain headers t where h: "filtered_headers cli ctx w = Some (Inr headers, w)"
    and get: "cli_Get cli path headers w = Some (Inr (answer path), timed t w)"
    by (rule server_get [OF assms(1-3)])
  have OK: "succeeded (Status_of SC_ok [])" by (simp add: succeeded_def Status_of_def)
  show ?thesis
    using assms(4) by (intro exI [of _ t])
      (simp add: bindC_Inr [where m = "filtered_headers cli ctx", OF h] bindC_Inr [where m = "cli_Get cli path headers", OF get]
        r(1,2) OK bindC_Inr [where m = "read_page js model_first (hr_body r)", OF read_page_run [OF r(3)]])
qed

lemma client_list_func_ends:
  assumes "client_list_func js model_first cli ctx path w = Some x"
  shows "stack_ok n w \<Longrightarrow> ctx < n \<Longrightarrow> path \<in> S \<Longrightarrow> http_server cli (\<lambda>path t. answer path) \<Longrightarrow>
    (\<And>path. path \<in> S \<Longrightarrow> path \<noteq> [] \<Longrightarrow> \<exists>path' ps. readable_page js model_first answer path path' ps \<and> path' \<in> S) \<Longrightarrow>
    \<exists>ps. served_pages js model_first answer path ps"
  using assms
proof (induction rule: client_list_func.raw_induct [rotated 1, consumes 1, case_names step])
  case (step f js model_first cli ctx path w x)
  show ?case
  proof (cases "path = []")
    case True
    then show ?thesis using served_pages.no_page by blast
  next
    case False
    from step.prems(5) [OF step.prems(3) this] obtain path' ps
      where page: "readable_page js model_first answer path path' ps" "path' \<in> S" by blast
    obtain t where "f js model_first cli ctx path' ((timed t w)\<lparr>app := listed ps (app w)\<rparr>) = Some x"
      using readable_page_run [OF step.prems(1,2,4) False page(1), of "\<lambda>path' w. f js model_first cli ctx path' w"] step.hyps by auto
    from step.IH [OF this _ step.prems(2) page(2) step.prems(4,5)] step.prems(1)
    obtain qs where "served_pages js model_first answer path' qs" by auto
    with page(1) False show ?thesis by (auto simp: readable_page_def intro: served_pages.page)
  qed
qed

text \<open>
  Claim C11: when listing ends. Over a server whose pages can be read and link to pages that can be
  read, the loop over the pages returns exactly when the links come to an end; it never
  notices that a page leads resumed to one it has read.
\<close>

theorem client_list_ends_iff:
  fixes w :: "'z client_app world" and js :: "'j json_library" and cli :: "('h, 'z) HttpStarWarsClient"
  assumes "stack_ok n w" and "ctx < n" and "http_server cli (\<lambda>path t. answer path)" and "path \<in> S"
    and "\<And>path. path \<in> S \<Longrightarrow> path \<noteq> [] \<Longrightarrow> \<exists>path' ps. readable_page js model_first answer path path' ps \<and> path' \<in> S"
  shows "client_list_func js model_first cli ctx path w \<noteq> None \<longleftrightarrow> (\<exists>ps. served_pages js model_first answer path ps)"
proof
  assume "client_list_func js model_first cli ctx path w \<noteq> None"
  then obtain x where "client_list_func js model_first cli ctx path w = Some x" by blast
  from client_list_func_ends [OF this assms(1,2,4,3,5)] show "\<exists>ps. served_pages js model_first answer path ps" .
next
  assume "\<exists>ps. served_pages js model_first answer path ps"
  then show "client_list_func js model_first cli ctx path w \<noteq> None"
    using client_list_func_run [OF _ assms(3,1,2)] by fastforce
qed


subsection \<open>Retrying a list\<close>

lemma listed_apart_cong: "apart_from name u = apart_from name v \<Longrightarrow> apart_from name (listed ps u) = apart_from name (listed ps v)"
  by (simp add: listed_def apart_from_def)

lemma client_list_func_two_pages:
  fixes w :: "'z client_app world" and cli :: "('h, 'z) HttpStarWarsClient"
  assumes w: "stack_ok m w" "ctx < m"
    and server: "\<And>path headers w. cli_Get cli path headers w = Some (Inr (answer path (steady_clock w)), w)"
    and first: "answer first_page (steady_clock w) = Some r1" "FromHttpStatusCode DefaultHttpStatusCodeToStatusCode (hr_status r1) = Inr SC_ok"
      "page_content js model_first (hr_body r1) = Inr (path, ps)" "path \<noteq> []"
    and second: "answer path (steady_clock w) = Some r2" "FromHttpStatusCode DefaultHttpStatusCodeToStatusCode (hr_status r2) = Inr c"
      "c = SC_ok \<Longrightarrow> page_content js model_first (hr_body r2) = Inr ([], qs)"
  shows "client_list_func js model_first cli ctx first_page w =
    Some (Inr (Status_of c []), w\<lparr>app := listed (if c = SC_ok then ps @ qs else ps) (app w)\<rparr>)"
proof -
  let ?w = "w\<lparr>app := listed ps (app w)\<rparr>"
  have first_page: "first_page \<noteq> []" by (simp add: first_page_def)
  obtain headers where h: "filtered_headers cli ctx w = Some (Inr headers, w)" using filtered_headers_run [OF w, of cli] by blast
  have get: "cli_Get cli first_page headers w = Some (Inr (Some r1), w)" using server [of first_page headers w] first(1) by simp
  have "stack_ok m ?w" using w(1) by simp
  then obtain headers' where h': "filtered_headers cli ctx ?w = Some (Inr headers', ?w)" using filtered_headers_run [OF _ w(2), of ?w cli] by blast
  have "client_list_func js model_first cli ctx first_page w = client_list_func js model_first cli ctx path ?w"
    by (rule client_list_func_page [OF first_page h get first(2,3)])
  also have "\<dots> = Some (Inr (Status_of c []), w\<lparr>app := listed (if c = SC_ok then ps @ qs else ps) (app w)\<rparr>)"
  proof (cases "c = SC_ok")
    case True
    have "client_list_func js model_first cli ctx path ?w = client_list_func js model_first cli ctx [] (?w\<lparr>app := listed qs (app ?w)\<rparr>)"
      by (rule client_list_func_page [OF first(4) h' _ second(2) [unfolded True] second(3) [OF True]])
        (simp add: server second(1))
    with True show ?thesis by (simp add: client_list_func_step [of _ _ _ _ "[]"] ret_apply Status_OK_def Status_of_def)
  next
    case False
    then show ?thesis
      using client_list_func_response [OF first(4) h' server, of js model_first] second(1,2) by simp
  qed
  finally show ?thesis .
qed

text \<open>The list that is made so far, and one attempt at a server that is down until \<open>resumed\<close>.\<close>

definition listing ::
    "nat \<Rightarrow> addr \<Rightarrow> 'z client_app \<Rightarrow> StarshipProperties list \<Rightarrow> int \<Rightarrow> 'z client_app world \<Rightarrow> bool" where
  "listing m ctx u ps now = pending_with m ctx ''ListStarShipProperties'' (list_pending (fst u) + 1)
     (\<lambda>y t. y = apart_from ''ListStarShipProperties'' (listed ps (no_ships u)) \<and> t = now)"

lemma listing_stable [simp]: "log_stable m (listing m ctx u ps now)"
  by (simp add: listing_def)

lemma listing_sleep:
  "hoare (listing m ctx u ps now) (sleep_for x) (\<lambda>r w. r = Inr () \<and> listing m ctx u ps (now + sleep_ns x) w)"
  by (auto simp: hoare_def sleep_for_def modifyC_def listing_def pending_with_def pending_is_def)

lemma listing_attempt:
  fixes cli :: "('h, 'z) HttpStarWarsClient" and u :: "'z client_app"
  assumes ctx: "ctx < m"
    and server: "\<And>path headers w. cli_Get cli path headers w = Some (Inr (answer path (steady_clock w)), w)"
    and first: "\<And>t. answer first_page t = Some r1" "FromHttpStatusCode DefaultHttpStatusCodeToStatusCode (hr_status r1) = Inr SC_ok"
      "page_content js model_first (hr_body r1) = Inr (path, ps)" "path \<noteq> []"
    and second: "answer path now = Some r" "FromHttpStatusCode DefaultHttpStatusCodeToStatusCode (hr_status r) = Inr c"
      "c = SC_ok \<Longrightarrow> page_content js model_first (hr_body r) = Inr ([], qs)"
  shows "hoare (listing m ctx u zs now) (client_list_func js model_first cli ctx first_page)
    (\<lambda>r w. r = Inr (Status_of c []) \<and> listing m ctx u (zs @ (if c = SC_ok then ps @ qs else ps)) now w)"
proof (rule hoareI)
  fix w assume w: "listing m ctx u zs now w"
  let ?ps = "if c = SC_ok then ps @ qs else ps"
  have "client_list_func js model_first cli ctx first_page w = Some (Inr (Status_of c []), w\<lparr>app := listed ?ps (app w)\<rparr>)"
    by (rule client_list_func_two_pages [where answer = answer, OF _ ctx server first])
      (use w second in \<open>simp_all add: listing_def pending_with_def pending_is_def\<close>)
  moreover have "apart_from ''ListStarShipProperties'' (listed ?ps (app w))
      = apart_from ''ListStarShipProperties'' (listed (zs @ ?ps) (no_ships u))"
    using w listed_apart_cong [of "''ListStarShipProperties''" "app w" "listed zs (no_ships u)" ?ps]
    by (simp add: listing_def pending_with_def)
  ultimately show "\<exists>r w'. client_list_func js model_first cli ctx first_page w = Some (r, w') \<and> r = Inr (Status_of c []) \<and>
      listing m ctx u (zs @ ?ps) now w'"
    using w by (simp add: listing_def pending_with_def pending_is_def)
qed

text \<open>
  Claim C12: a retry keeps the ships of the attempt that failed. The second page is answered with a
  code that is retried until the time \<open>resumed\<close>, and well after it: when the pause behind the first
  attempt reaches \<open>resumed\<close>, the client returns the ships of the first page twice.
\<close>

theorem http_client_retry_duplicates:
  fixes w :: "'z client_app world" and js :: "'j json_library" and cli :: "('h, 'z) HttpStarWarsClient"
  assumes "stack_ok n w" and "list_pending (fst (app w)) + 1 \<le> 2"
    and "\<And>path headers w. cli_Get cli path headers w = Some (Inr (answer path (steady_clock w)), w)"
    and "\<And>t. answer first_page t = Some r1" and "FromHttpStatusCode DefaultHttpStatusCodeToStatusCode (hr_status r1) = Inr SC_ok"
    and "page_content js model_first (hr_body r1) = Inr (path, ps)" and "path \<noteq> []"
    and "\<And>t. answer path t = Some (if t < resumed then r_bad else r2)"
    and "FromHttpStatusCode DefaultHttpStatusCodeToStatusCode (hr_status r_bad) = Inr c" and "c \<in> retry_error_codes (client_retry draw)"
    and "FromHttpStatusCode DefaultHttpStatusCodeToStatusCode (hr_status r2) = Inr SC_ok"
    and "page_content js model_first (hr_body r2) = Inr ([], qs)"
    and "draw = (\<lambda>mean sigma. ret x)" and "steady_clock w < resumed" and "resumed \<le> steady_clock w + sleep_ns x"
  shows "\<exists>w'. Http_ListStarShipProperties js model_first draw cli w = Some (Inr (ps @ ps @ qs), w') \<and> stack_ok n w'"
proof -
  let ?func = "\<lambda>ctx. client_list_func js model_first cli ctx first_page" and ?later = "steady_clock w + sleep_ns x"
  have "\<exists>r w'. Http_ListStarShipProperties js model_first draw cli w = Some (map_sum id (\<lambda>_. ps @ ps @ qs) r, w') \<and> stack_ok n w' \<and>
    client_part (app w) (app w') \<and> hc_cache (sv_client (snd (app w'))) = hc_cache (sv_client (snd (app w))) \<and>
    steady_clock w \<le> steady_clock w' \<and>
    pending_request_count (fst (app w')) = pending_request_count (fst (app w)) \<and>
    forwards (EF_IncludeAllErrorCodes default_map_to Map.empty) (logged (Inr (Status_of SC_ok []))) r"
  proof (rule Http_List_inner [OF assms(1,2)])
    fix m ctx :: nat assume ctx: "ctx < m"
    note attempt = listing_attempt [where u = "app w" and answer = answer, OF ctx assms(3-7)]
    have "hoare (listing m ctx (app w) [] (steady_clock w)) (RetryRequestHook_Process (client_retry draw) ?func ctx)
        (\<lambda>r w'. r = Inr (Status_of SC_ok []) \<and> listing m ctx (app w) (ps @ ps @ qs) ?later w')"
    proof (rule hoare_retry_twice [where n = m and x = x and F = "listing m ctx (app w) ps (steady_clock w)"
          and ?P2.0 = "listing m ctx (app w) ps ?later" and ?s1.0 = "Status_of c []" and ?s2.0 = "Status_of SC_ok []"])
      show "backoff_strategy (client_retry draw) 1 duration = ret (Some x)" for duration
        by (simp add: client_retry_def BackoffGaussianJitterDecorator_def LinearRetryBackoff_def getDurationUntilNextRetry_def
            assms(13) bindC_ret_left)
      show "hoare (listing m ctx (app w) [] (steady_clock w)) (?func ctx)
          (\<lambda>r w'. r = Inr (Status_of c []) \<and> listing m ctx (app w) ps (steady_clock w) w')"
        using attempt [where zs = "[]" and c = c] assms(8,9,10,14) by (simp only: client_retry_codes) auto
      show "hoare (listing m ctx (app w) ps ?later) (?func ctx)
          (\<lambda>r w'. r = Inr (Status_of SC_ok []) \<and> listing m ctx (app w) (ps @ ps @ qs) ?later w')"
        using attempt [where zs = ps and c = SC_ok and now = ?later and qs = qs] assms(8,11,12,15) by simp
    qed (use assms(10) in \<open>auto simp: Status_of_def listing_sleep\<close>)
    then show "hoare (pending_with m ctx ''ListStarShipProperties'' (list_pending (fst (app w)) + 1)
          (\<lambda>y t. y = apart_from ''ListStarShipProperties'' (no_ships (app w)) \<and> t = steady_clock w))
        (RetryRequestHook_Process (client_retry draw) ?func ctx)
        (\<lambda>r. pending_with m ctx ''ListStarShipProperties'' (list_pending (fst (app w)) + 1)
           (\<lambda>y t. r = Inr (Status_of SC_ok []) \<and>
             y = apart_from ''ListStarShipProperties'' (listed (ps @ ps @ qs) (no_ships (app w))) \<and> steady_clock w \<le> t))"
      unfolding listing_def listed_simps(1)
      by (rule hoare_weaken) (use assms(14,15) in \<open>auto simp: pending_with_def\<close>)
  qed (simp add: Status_of_def)
  then obtain r w' where "Http_ListStarShipProperties js model_first draw cli w = Some (map_sum id (\<lambda>_. ps @ ps @ qs) r, w')" "stack_ok n w'"
    "forwards (EF_IncludeAllErrorCodes default_map_to Map.empty) (logged (Inr (Status_of SC_ok []))) r"
    by blast
  moreover have "r = Inr (Status_of SC_ok [])"
    using calculation(3) by (simp add: forwards_def EF_IncludeAllErrorCodes_apply Status_of_def)
  ultimately show ?thesis by auto
qed


subsection \<open>Instances\<close>

text \<open>JSON values, an interface with two pages and one that links to itself, and a connection without delay.\<close>

datatype demo_value = JNull | JText string | JList "demo_value list" | JObject "(string \<times> demo_value) list"

definition demo_ship :: "string \<Rightarrow> string \<Rightarrow> demo_value" where
  "demo_ship i name = JObject [(''url'', JText (''https://swapi.dev/api/starships/'' @ i @ ''/'')), (''name'', JText name),
     (''model'', JText ''freighter''), (''manufacturer'', JText ''Corellia'')]"

definition demo_documents :: "string \<Rightarrow> demo_value option" where
  "demo_documents = map_of
     [(''page 1'', JObject [(''next'', JText ''/page2''), (''results'', JList [demo_ship ''2'' ''Corvette''])]),
      (''page 2'', JObject [(''next'', JNull), (''results'', JList [demo_ship ''10'' ''Falcon''])]),
      (''circle'', JObject [(''next'', JText ''/circle''), (''results'', JList [])]),
      (''ship 2'', demo_ship ''2'' ''Corvette''), (''in action'', JObject [(''status'', JText ''InAction'')])]"

primrec demo_print :: "demo_value \<Rightarrow> string" where
  "demo_print JNull = ''null''"
| "demo_print (JText s) = s"
| "demo_print (JList vs) = concat (map (\<lambda>s. s @ '';'') (map demo_print vs))"
| "demo_print (JObject kvs) = concat (map (\<lambda>(k, s). k @ '':'' @ s @ '','') (map (map_prod id demo_print) kvs))"

definition demo_reader :: "demo_value json_library" where
  "demo_reader =
     \<lparr>json_string = JText, json_object = JObject, json_array = JList, json_dump = (\<lambda>j. Inr (demo_print j)),
      json_parse = (\<lambda>s. case demo_documents s of None \<Rightarrow> Inl (StdException ''parse error'') | Some j \<Rightarrow> Inr j),
      json_at = (\<lambda>j k. case j of JObject kvs \<Rightarrow> (case map_of kvs k of None \<Rightarrow> Inl (StdException ''no member'') | Some v \<Rightarrow> Inr v)
                       | _ \<Rightarrow> Inl (StdException ''no object'')),
      json_get = (\<lambda>j. case j of JText s \<Rightarrow> Inr s | _ \<Rightarrow> Inl (StdException ''no text'')),
      json_is_null = (\<lambda>j. j = JNull), json_elements = (\<lambda>j. case j of JList js \<Rightarrow> js | _ \<Rightarrow> [])\<rparr>"

definition demo_connection :: "(string \<Rightarrow> int \<Rightarrow> HttpResponse option) \<Rightarrow> (unit, 'z) HttpStarWarsClient" where
  "demo_connection answer =
     \<lparr>cli_Get = (\<lambda>path headers w. Some (Inr (answer path (steady_clock w)), w)), cli_headers_insert = (\<lambda>p h. h),
      cli_no_headers = (), headers_to_propagate = []\<rparr>"

definition demo_client_app :: "unit client_app" where
  "demo_client_app = (Map.empty, \<lparr>sv_cache = Map.empty, sv_db = Map.empty, sv_client = new_client_state, \<dots> = ()\<rparr>)"

definition demo_pages :: "string \<Rightarrow> HttpResponse option" where
  "demo_pages path =
     (if path = first_page then Some \<lparr>hr_status = 200, hr_body = ''page 1''\<rparr>
      else if path = ''/page2'' then Some \<lparr>hr_status = 200, hr_body = ''page 2''\<rparr>
      else if path = ''/circle'' then Some \<lparr>hr_status = 200, hr_body = ''circle''\<rparr> else None)"

abbreviation demo_corvette :: StarshipProperties where
  "demo_corvette \<equiv> \<lparr>sp_Id = ''2'', sp_Name = ''Corvette'', sp_Description = ''A freighter made by Corellia''\<rparr>"

abbreviation demo_falcon :: StarshipProperties where
  "demo_falcon \<equiv> \<lparr>sp_Id = ''10'', sp_Name = ''Falcon'', sp_Description = ''A freighter made by Corellia''\<rparr>"

lemma demo_contents [simp]:
  "page_content demo_reader True ''page 1'' = Inr (''/page2'', [demo_corvette])"
  "page_content demo_reader True ''page 2'' = Inr ([], [demo_falcon])"
  "page_content demo_reader True ''circle'' = Inr (''/circle'', [])"
  by code_simp+

lemma demo_http_codes [simp]:
  "FromHttpStatusCode DefaultHttpStatusCodeToStatusCode 200 = Inr SC_ok"
  "FromHttpStatusCode DefaultHttpStatusCodeToStatusCode 503 = Inr SC_unavailable"
  "FromHttpStatusCode DefaultHttpStatusCodeToStatusCode 404 = Inr SC_not_found"
  by code_simp+

lemma demo_connection_Get: "cli_Get (demo_connection answer) path headers w = Some (Inr (answer path (steady_clock w)), w)"
  by (simp add: demo_connection_def)

lemma demo_connection_server: "http_server (demo_connection answer) answer"
  unfolding http_server_def demo_connection_Get by (intro allI exI [of _ 0]) simp

lemma demo_stack [simp]: "stack_ok 2 (initial_world demo_client_app)"
  by (rule stack_ok_initial)

lemma demo_app [simp]: "app (initial_world demo_client_app) = demo_client_app" "list_pending (fst demo_client_app) = 0"
  "steady_clock (initial_world demo_client_app) = 0"
  by (simp_all add: initial_world_def demo_client_app_def pending_request_count_def)

theorem http_client_lists_witness:
  "\<exists>w'. Http_ListStarShipProperties demo_reader True (\<lambda>m s. ret m) (demo_connection (\<lambda>path t. demo_pages path))
      (initial_world demo_client_app) = Some (Inr [demo_corvette, demo_falcon], w')"
proof -
  have "served_pages demo_reader True demo_pages ''/page2'' ([demo_falcon] @ [])"
    by (rule served_pages.page [where r = "\<lparr>hr_status = 200, hr_body = ''page 2''\<rparr>", OF _ _ _ _ served_pages.no_page])
      (simp_all add: demo_pages_def first_page_def)
  then have "served_pages demo_reader True demo_pages first_page ([demo_corvette] @ [demo_falcon] @ [])"
    by - (rule served_pages.page [where r = "\<lparr>hr_status = 200, hr_body = ''page 1''\<rparr>" and path' = "''/page2''"],
        simp_all add: demo_pages_def first_page_def)
  from http_client_lists [OF demo_stack _ demo_connection_server this] show ?thesis by auto
qed

theorem http_client_forwards_error_witness:
  "\<exists>detail w'. Http_ListStarShipProperties demo_reader True (\<lambda>m s. ret m)
      (demo_connection (\<lambda>path t. Some \<lparr>hr_status = 404, hr_body = []\<rparr>)) (initial_world demo_client_app)
     = Some (Inl (ErrorForwardingException default_map_to detail), w')"
  using http_client_forwards_error [OF demo_stack _ demo_connection_server, where r = "\<lparr>hr_status = 404, hr_body = []\<rparr>" and c = SC_not_found
      and answer = "\<lambda>path t. Some \<lparr>hr_status = 404, hr_body = []\<rparr>" and js = demo_reader and model_first = True and draw = "\<lambda>m s. ret m"]
  by auto

theorem client_list_ends_iff_witness:
  "client_list_func demo_reader True (demo_connection (\<lambda>path t. demo_pages path)) 0 ''/circle'' (initial_world demo_client_app) = None"
proof -
  have "\<not> (\<exists>ps. served_pages demo_reader True demo_pages ''/circle'' ps)"
  proof
    assume "\<exists>ps. served_pages demo_reader True demo_pages ''/circle'' ps"
    then obtain ps where "served_pages demo_reader True demo_pages ''/circle'' ps" ..
    then show False
      by (induction "''/circle''" ps rule: served_pages.induct) (auto simp: demo_pages_def first_page_def)
  qed
  moreover have "readable_page demo_reader True demo_pages ''/circle'' ''/circle'' []"
    by (simp add: readable_page_def demo_pages_def first_page_def)
  ultimately show ?thesis
    using client_list_ends_iff [OF demo_stack _ demo_connection_server, of 0 "''/circle''" "{''/circle''}" demo_reader True demo_pages]
    by auto
qed

theorem http_client_retry_duplicates_witness:
  "\<exists>w'. Http_ListStarShipProperties demo_reader True (\<lambda>m s. ret 10000)
      (demo_connection (\<lambda>path t. if path = first_page then Some \<lparr>hr_status = 200, hr_body = ''page 1''\<rparr>
         else Some (if t < 5000000000 then \<lparr>hr_status = 503, hr_body = []\<rparr> else \<lparr>hr_status = 200, hr_body = ''page 2''\<rparr>)))
      (initial_world demo_client_app) = Some (Inr [demo_corvette, demo_corvette, demo_falcon], w')"
proof -
  let ?answer = "\<lambda>path t. if path = first_page then Some \<lparr>hr_status = 200, hr_body = ''page 1''\<rparr>
         else Some (if t < 5000000000 then \<lparr>hr_status = 503, hr_body = []\<rparr> else \<lparr>hr_status = 200, hr_body = ''page 2''\<rparr>)"
  have "\<exists>w'. Http_ListStarShipProperties demo_reader True (\<lambda>m s. ret 10000) (demo_connection ?answer)
      (initial_world demo_client_app) = Some (Inr ([demo_corvette] @ [demo_corvette] @ [demo_falcon]), w') \<and> stack_ok 2 w'"
    by (rule http_client_retry_duplicates [where answer = ?answer and path = "''/page2''" and resumed = 5000000000 and x = 10000
          and ?r1.0 = "\<lparr>hr_status = 200, hr_body = ''page 1''\<rparr>" and r_bad = "\<lparr>hr_status = 503, hr_body = []\<rparr>"
          and ?r2.0 = "\<lparr>hr_status = 200, hr_body = ''page 2''\<rparr>" and c = SC_unavailable])
      (simp_all add: demo_connection_Get first_page_def sleep_ns_def)
  then show ?thesis by auto
qed

end
