(* ===== verification/Mse_Starwars_Client_Get.thy ===== *)
theory Mse_Starwars_Client_Get
  imports Mse_Starwars_Client_Run
begin

text \<open>
  Looking up one ship: the request behind the copied context, the cache of the client, and what
  \<open>GetStarShipProperties\<close> returns over a server that answers for the id.
\<close>

declare split_paired_Ex [simp del] split_paired_All [simp del]

subsection \<open>A copy of the thread local context\<close>

lemma parents_below:
  assumes "stack_ok n w"
  shows "a < n \<Longrightarrow> getAllParents (contexts w) a = Some ps \<Longrightarrow> ps \<subseteq> {..<a}"
proof (induction a arbitrary: ps rule: less_induct)
  case (less a)
  obtain c where c: "contexts w a = Some c" "case ctx_parent c of None \<Rightarrow> True | Some p \<Rightarrow> p < a"
    using assms less.prems(1) unfolding stack_ok_def by blast
  show ?case
  proof (cases "ctx_parent c")
    case None
    with c(1) less.prems(2) show ?thesis by (simp add: getAllParents.simps [of _ a])
  next
    case (Some p)
    with c(2) have p: "p < a" by simp
    obtain ps' where ps': "getAllParents (contexts w) p = Some ps'" "ps = insert p ps'"
      using c(1) Some less.prems(2) by (auto simp: getAllParents.simps [of _ a] bind_eq_Some_conv)
    have "ps' \<subseteq> {..<p}" using less.IH [OF p _ ps'(1)] p less.prems(1) by simp
    then show ?thesis using p ps'(2) by auto
  qed
qed

definition push_copy :: "Context \<Rightarrow> 'u world \<Rightarrow> 'u world" where
  "push_copy c w = w\<lparr>contexts := (contexts w)(stack_top w \<mapsto> c), stack_top := stack_top w + 1\<rparr>"

lemma push_copy_sel [simp]:
  "app (push_copy c w) = app w" "steady_clock (push_copy c w) = steady_clock w"
  by (simp_all add: push_copy_def)

lemma stack_ok_push_copy:
  assumes "stack_ok n w" and "mm_sorted (ctx_metadata c)" and "case ctx_parent c of None \<Rightarrow> True | Some p \<Rightarrow> p < n"
  shows "stack_ok (Suc n) (push_copy c w)"
  using assms unfolding stack_ok_def push_copy_def by (auto split: option.splits if_splits)

lemma copy_construct_run:
  assumes w: "stack_ok n w" and a: "a < n" and c: "contexts w a = Some c"
  shows "on_contexts (Context_copy_construct n a) w = Some (Inr (), w\<lparr>contexts := (contexts w)(n \<mapsto> c)\<rparr>)"
proof -
  let ?empty = "\<lparr>ctx_metadata = [], ctx_parent = None\<rparr>" and ?w = "push_copy \<lparr>ctx_metadata = [], ctx_parent = None\<rparr> w"
  have ok: "stack_ok (Suc n) ?w" by (rule stack_ok_push_copy [OF w]) (simp_all add: mm_sorted_def)
  have h: "contexts ?w = (contexts w)(n \<mapsto> ?empty)" using stack_ok_top [OF w] by (simp add: push_copy_def)
  have a': "a < Suc n" "a \<noteq> n" using a by simp_all
  obtain ps where ps: "getAllParents (contexts ?w) a = Some ps"
    using getAllParents_defined [OF stack_ok_rooted [OF ok a'(1)]] by blast
  have "n \<notin> ps" using parents_below [OF ok a'(1) ps] a by auto
  moreover have "ctx_parent c \<noteq> Some n" using w c a unfolding stack_ok_def by force
  moreover have "n \<noteq> GlobalContext" using stack_ok_ThreadLocal [OF w] by (simp add: GlobalContext_def ThreadLocalContext_def)
  ultimately have "Context_copy_assign n a (contexts ?w) = Some (Inr (), (contexts w)(n \<mapsto> c))"
    using Context_copy_assign_run [OF stack_ok_store [OF ok] _ _ ps, of n ?empty c] h c a'(2)
    by (cases c) (simp add: reparented_def)
  then have "Context_copy_construct n a (contexts w) = Some (Inr (), (contexts w)(n \<mapsto> c))"
    by (simp add: Context_copy_construct_def Context_construct_by_def thenC_def bindC_def modifyC_def catchC_def h)
  then show ?thesis by (rule on_contexts_Some)
qed

lemma with_copied_run:
  assumes w: "stack_ok n w" and a: "a < n"
  shows "\<exists>c. stack_ok (Suc n) (push_copy c w) \<and> (\<forall>body. with_copied a body w =
      (case body n (push_copy c w) of None \<Rightarrow> None | Some (r, w') \<Rightarrow> Some (r, pop_context n w')))"
proof -
  obtain c where c: "contexts w a = Some c" using stack_ok_live [OF w a] by blast
  have "stack_ok (Suc n) (push_copy c w)"
  proof (rule stack_ok_push_copy [OF w])
    show "mm_sorted (ctx_metadata c)" using w c unfolding stack_ok_def by blast
    show "case ctx_parent c of None \<Rightarrow> True | Some p \<Rightarrow> p < n" using w c a unfolding stack_ok_def by (fastforce split: option.splits)
  qed
  moreover have "with_copied a body w =
      (case body n (push_copy c w) of None \<Rightarrow> None | Some (r, w') \<Rightarrow> Some (r, pop_context n w'))" for body
    using copy_construct_run [OF w a c] stack_ok_top [OF w]
    by (simp add: with_copied_def comp_simps cleanupC_def push_copy_def split: option.split)
  ultimately show ?thesis by blast
qed

lemma pop_push_copy [simp]:
  assumes "stack_ok n w"
  shows "pop_context n ((timed t (push_copy c w))\<lparr>app := u\<rparr>) = (timed t w)\<lparr>app := u\<rparr>"
    "pop_context n (timed t (push_copy c w)) = timed t w"
proof -
  have "n \<notin> dom (contexts w)" using stack_ok_dom [OF assms] by simp
  then have "contexts w n = None" by blast
  then show "pop_context n ((timed t (push_copy c w))\<lparr>app := u\<rparr>) = (timed t w)\<lparr>app := u\<rparr>"
    "pop_context n (timed t (push_copy c w)) = timed t w"
    using stack_ok_top [OF assms] by (simp_all add: pop_context_def push_copy_def timed_def fun_upd_idem)
qed


subsection \<open>The cache of the client\<close>

text \<open>The entry that answers for an id: the ship that was found, or that there is none.\<close>

definition found_status :: "StarshipProperties option \<Rightarrow> Status" where
  "found_status x = Status_of (if x = None then SC_not_found else SC_ok) []"

definition ship_entry :: "(string \<Rightarrow> StarshipProperties option) \<Rightarrow> string \<Rightarrow> StarshipProperties option element \<Rightarrow> bool" where
  "ship_entry ship_of i e \<longleftrightarrow>
     el_data e = AnyOf ''std::optional<StarshipProperties>'' (ship_of i) \<and> el_status e = found_status (ship_of i)"

definition ships_cached :: "(string \<Rightarrow> StarshipProperties option) \<Rightarrow> StarshipProperties option map_data \<times> lru_list \<Rightarrow> bool" where
  "ships_cached ship_of d \<longleftrightarrow> lru_exact_of (\<lambda>d. d) 5 d \<and> (\<forall>(i, e) \<in> set (lru_abs_of (\<lambda>d. d) d). ship_entry ship_of i e)"

definition cached_ids :: "StarshipProperties option map_data \<times> lru_list \<Rightarrow> string set" where
  "cached_ids d = fst ` set (lru_abs_of (\<lambda>d. d) d)"

definition with_cache :: "StarshipProperties option map_data \<times> lru_list \<Rightarrow> 'z client_app \<Rightarrow> 'z client_app" where
  "with_cache d u = (fst u, (snd u)\<lparr>sv_client := (sv_client (snd u))\<lparr>hc_cache := d\<rparr>\<rparr>)"

lemma with_cache_simps [simp]:
  "with_cache d (with_cache d' u) = with_cache d u" "fst (with_cache d u) = fst u"
  "hc_cache (sv_client (snd (with_cache d u))) = d" "hc_found (sv_client (snd (with_cache d u))) = hc_found (sv_client (snd u))"
  by (simp_all add: with_cache_def)

lemma ships_cached_empty: "ships_cached ship_of (Map.empty, lru_empty)"
  by (simp add: ships_cached_def lru_exact_empty lru_abs_empty)

lemma ships_cachedD: "ships_cached ship_of d \<Longrightarrow> lru_inv_of (\<lambda>d. d) 5 d \<and> lru_exact_of (\<lambda>d. d) 5 d"
  by (simp add: ships_cached_def lru_exact_of_def)

lemma client_cache_zoom:
  "Cache_Get client_cache i u = (case LRU_Get (Some UnorderedMapCache) i (hc_cache (sv_client (snd u))) of
     None \<Rightarrow> None | Some (r, d) \<Rightarrow> Some (r, with_cache d u))"
  "Cache_Remove client_cache i u = (case LRU_Remove (Some UnorderedMapCache) i (hc_cache (sv_client (snd u))) of
     None \<Rightarrow> None | Some (r, d) \<Rightarrow> Some (r, with_cache d u))"
  "Cache_Insert client_cache i e u = (case LRU_Insert (Some UnorderedMapCache) 5 i e (hc_cache (sv_client (snd u))) of
     None \<Rightarrow> None | Some (r, d) \<Rightarrow> Some (r, with_cache d u))"
  by (cases u; simp add: client_cache_def cache_in_def zoomC_def with_cache_def split: option.split prod.split)+

lemma client_cache_Get:
  assumes "ships_cached ship_of (hc_cache (sv_client (snd u)))"
  shows "\<exists>e d. Cache_Get client_cache i u = Some (Inr e, with_cache d u) \<and> ships_cached ship_of d \<and>
    (if Cache_IsValid e then ship_entry ship_of i e else i \<notin> cached_ids d)"
proof -
  let ?d = "hc_cache (sv_client (snd u))" and ?abs = "lru_abs_of (\<lambda>d. d)"
  obtain e d where run: "LRU_Get (Some UnorderedMapCache) i ?d = Some (Inr e, d)" and d: "lru_exact_of (\<lambda>d. d) 5 d"
    and e: "case map_of (?abs ?d) i of None \<Rightarrow> e = InvalidElement \<and> ?abs d = ?abs ?d
         | Some v \<Rightarrow> e = v \<and> ?abs d = (i, v) # filter (\<lambda>y. fst y \<noteq> i) (?abs ?d)"
    using unordered.LRU_Get_run [of 5 ?d i] ships_cachedD [OF assms] by blast
  have entries: "\<forall>(i, e) \<in> set (?abs ?d). ship_entry ship_of i e" using assms by (simp add: ships_cached_def)
  have "ships_cached ship_of d \<and> (if Cache_IsValid e then ship_entry ship_of i e else i \<notin> cached_ids d)"
  proof (cases "map_of (?abs ?d) i")
    case None
    then show ?thesis
      using d e entries None
      by (simp add: ships_cached_def InvalidElement_def Cache_IsValid_def any_has_value_def cached_ids_def map_of_eq_None_iff)
  next
    case (Some v)
    then have "ship_entry ship_of i v" using entries map_of_SomeD [OF Some] by blast
    then show ?thesis
      using d e entries Some by (auto simp: ships_cached_def Cache_IsValid_def ship_entry_def any_has_value_def)
  qed
  with run show ?thesis by (intro exI [of _ e] exI [of _ d]) (simp add: client_cache_zoom)
qed

lemma client_cache_Remove:
  assumes "ships_cached ship_of (hc_cache (sv_client (snd u)))"
  shows "\<exists>d. Cache_Remove client_cache i u = Some (Inr (), with_cache d u) \<and> ships_cached ship_of d \<and> i \<notin> cached_ids d"
proof -
  let ?d = "hc_cache (sv_client (snd u))" and ?abs = "lru_abs_of (\<lambda>d. d)"
  obtain d where "LRU_Remove (Some UnorderedMapCache) i ?d = Some (Inr (), d)" "lru_exact_of (\<lambda>d. d) 5 d"
    "?abs d = filter (\<lambda>y. fst y \<noteq> i) (?abs ?d)"
    using unordered.LRU_Remove_run [of 5 ?d i] ships_cachedD [OF assms] by blast
  then show ?thesis
    using assms by (intro exI [of _ d]) (auto simp: client_cache_zoom ships_cached_def cached_ids_def)
qed

lemma client_cache_Insert:
  assumes "ships_cached ship_of (hc_cache (sv_client (snd u)))" and "i \<notin> cached_ids (hc_cache (sv_client (snd u)))"
    and "ship_entry ship_of i e"
  shows "\<exists>d. Cache_Insert client_cache i e u = Some (Inr (), with_cache d u) \<and> ships_cached ship_of d"
proof -
  let ?d = "hc_cache (sv_client (snd u))" and ?abs = "lru_abs_of (\<lambda>d. d)"
  obtain d where "LRU_Insert (Some UnorderedMapCache) 5 i e ?d = Some (Inr (), d)" "lru_exact_of (\<lambda>d. d) 5 d"
    "?abs d = (i, e) # take (5 - 1) (?abs ?d)"
    using unordered.LRU_Insert_run [of 5 i e ?d] ships_cachedD [OF assms(1)] assms(2) unfolding cached_ids_def by auto
  then show ?thesis
    using assms by (intro exI [of _ d]) (auto simp: client_cache_zoom ships_cached_def dest: in_set_takeD)
qed


subsection \<open>The request\<close>

definition ship_path :: "string \<Rightarrow> string" where
  "ship_path i = ''/api/starships/'' @ i @ ''/?format=json''"

definition ship_content :: "'j json_library \<Rightarrow> bool \<Rightarrow> string \<Rightarrow> exn + StarshipProperties" where
  "ship_content js model_first body = (case json_parse js body of Inl e \<Rightarrow> Inl e | Inr j \<Rightarrow> from_json js model_first j)"

text \<open>The server answers for an id with a ship that can be read, or that there is none.\<close>

definition serves_ship ::
    "'j json_library \<Rightarrow> bool \<Rightarrow> (string \<Rightarrow> HttpResponse option) \<Rightarrow> string \<Rightarrow> StarshipProperties option \<Rightarrow> bool" where
  "serves_ship js model_first answer i x \<longleftrightarrow>
     (\<exists>r. answer (ship_path i) = Some r \<and>
        FromHttpStatusCode DefaultHttpStatusCodeToStatusCode (hr_status r) = Inr (code (found_status x)) \<and>
        (case x of None \<Rightarrow> True | Some p \<Rightarrow> ship_content js model_first (hr_body r) = Inr p))"

definition found :: "StarshipProperties option \<Rightarrow> 'z client_app \<Rightarrow> 'z client_app" where
  "found x u = (fst u, (snd u)\<lparr>sv_client := (sv_client (snd u))\<lparr>hc_found := x\<rparr>\<rparr>)"

lemma found_simps [simp]:
  "fst (found x u) = fst u" "hc_found (sv_client (snd (found x u))) = x"
  "hc_cache (sv_client (snd (found x u))) = hc_cache (sv_client (snd u))" "found x (found y u) = found x u"
  "found x (with_cache d u) = with_cache d (found x u)"
  by (simp_all add: found_def with_cache_def)

lemma found_same: "hc_found (sv_client (snd u)) = x \<Longrightarrow> found x u = u"
  by (cases u) (auto simp: found_def)

lemma on_client_found: "on_client (\<lambda>s. s\<lparr>hc_found := x\<rparr>) w = Some (Inr (), w\<lparr>app := found x (app w)\<rparr>)"
  by (simp add: on_client_def on_service_run found_def)

lemma found_status_simps [simp]:
  "code (found_status x) = (if x = None then SC_not_found else SC_ok)" "found_status None = Status_of SC_not_found []"
  "found_status (Some p) = Status_of SC_ok []"
  by (simp_all add: found_status_def Status_of_def)

lemma client_get_func_run:
  fixes w :: "'z client_app world" and cli :: "('h, 'z) HttpStarWarsClient"
  assumes w: "stack_ok n w" and server: "http_server cli (\<lambda>path t. answer path)" and ship: "serves_ship js model_first answer i x"
    and none: "hc_found (sv_client (snd (app w))) = None"
  shows "\<exists>t \<ge> 0. client_get_func js model_first cli i ctx w = Some (Inr (found_status x), (timed t w)\<lparr>app := found x (app w)\<rparr>)"
proof -
  obtain c where ok: "stack_ok (Suc n) (push_copy c w)" and run: "\<And>body :: addr \<Rightarrow> ('z client_app world, Status) comp. with_copied ThreadLocalContext body w =
      (case body n (push_copy c w) of None \<Rightarrow> None | Some (r, w') \<Rightarrow> Some (r, pop_context n w'))"
    using with_copied_run [OF w stack_ok_ThreadLocal [OF w]] by blast
  obtain r where r: "answer (ship_path i) = Some r"
    "FromHttpStatusCode DefaultHttpStatusCodeToStatusCode (hr_status r) = Inr (code (found_status x))"
    "case x of None \<Rightarrow> True | Some p \<Rightarrow> ship_content js model_first (hr_body r) = Inr p"
    using ship unfolding serves_ship_def by blast
  obtain headers t where h: "filtered_headers cli n (push_copy c w) = Some (Inr headers, push_copy c w)" and t: "0 \<le> t"
    and get: "cli_Get cli (ship_path i) headers (push_copy c w) = Some (Inr (answer (ship_path i)), timed t (push_copy c w))"
    by (rule server_get [OF ok lessI server])
  let ?w = "timed t (push_copy c w)"
  have "client_get_func js model_first cli i ctx w
      = Some (Inr (found_status x), pop_context n (?w\<lparr>app := found x (app ?w)\<rparr>))"
  proof (cases x)
    case None
    then have "found x (app ?w) = app ?w" using none by (intro found_same) simp
    then have "?w\<lparr>app := found x (app ?w)\<rparr> = ?w" by simp
    then show ?thesis
      unfolding client_get_func_def ship_path_def [symmetric] using h get r(1,2) None
      by (simp add: run bindC_Inr thenC_Inr liftE_apply ret_apply succeeded_def Status_of_def)
  next
    case (Some p)
    then have "(case json_parse js (hr_body r) of Inl e \<Rightarrow> Inl e | Inr j \<Rightarrow> from_json js model_first j) = Inr p"
      using r(3) by (simp add: ship_content_def)
    then show ?thesis
      unfolding client_get_func_def ship_path_def [symmetric] using h get r(1,2) Some
      by (simp add: run bindC_Inr thenC_Inr liftE_apply ret_apply succeeded_def Status_of_def
          on_client_found)
  qed
  then show ?thesis using t w by (intro exI [of _ t]) simp
qed


subsection \<open>The request behind its cache\<close>

lemma on_app_Some: "m (app w) = Some (r, u) \<Longrightarrow> on_app m w = Some (r, w\<lparr>app := u\<rparr>)"
  by (simp add: on_app_def zoomC_def)

lemma found_case: "(case u of (b, s) \<Rightarrow> (b, s\<lparr>sv_client := (sv_client s)\<lparr>hc_found := x\<rparr>\<rparr>)) = found x u"
  by (cases u) (simp add: found_def)

lemma client_get_caching_sel [simp]:
  "CachingParameters.cache (client_get_caching i) = client_cache" "key_generator (client_get_caching i) = ret i"
  "status_codes_to_cache (client_get_caching i) = {SC_not_found, SC_ok}"
  "cache_writer (client_get_caching i) = getC (\<lambda>w. AnyOf ''std::optional<StarshipProperties>'' (hc_found (sv_client (snd (app w)))))"
  "cache_reader (client_get_caching i) = (\<lambda>data. bindC (liftE (any_cast ''std::optional<StarshipProperties>'' data))
     (\<lambda>v. modifyC (\<lambda>w. w\<lparr>app := found v (app w)\<rparr>)))"
  by (simp_all add: client_get_caching_def Caching_Include_def NeverExpire_def WithMaxAge_def WithCachedObject_def WithKey_def
      Caching_Parameters_def found_case)

lemma apart_from_client [simp]:
  "apart_from name (with_cache d u) = with_cache d (apart_from name u)" "apart_from name (found x u) = found x (apart_from name u)"
  by (simp_all add: apart_from_def with_cache_def found_def)

lemma client_get_miss:
  assumes f: "func ctx w = Some (Inr (found_status (ship_of i)), w1)" and x: "hc_found (sv_client (snd (app w1))) = ship_of i"
    and d: "ships_cached ship_of (hc_cache (sv_client (snd (app w1))))" "i \<notin> cached_ids (hc_cache (sv_client (snd (app w1))))"
  shows "\<exists>d. cache_miss (client_get_caching i) i func ctx w
      = Some (Inr (found_status (ship_of i)), w1\<lparr>app := with_cache d (app w1)\<rparr>) \<and> ships_cached ship_of d"
proof -
  let ?e = "\<lparr>el_data = AnyOf ''std::optional<StarshipProperties>'' (ship_of i), el_status = found_status (ship_of i),
      insertion_time = steady_clock w1\<rparr>"
  have "ship_entry ship_of i ?e" by (simp add: ship_entry_def)
  from client_cache_Insert [OF d this] obtain d where ins: "Cache_Insert client_cache i ?e (app w1) = Some (Inr (), with_cache d (app w1))"
    and ok: "ships_cached ship_of d" by blast
  have "cache_miss (client_get_caching i) i func ctx w = Some (Inr (found_status (ship_of i)), w1\<lparr>app := with_cache d (app w1)\<rparr>)"
    using on_app_Some [where m = "Cache_Insert client_cache i ?e", OF ins] x
    by (simp del: found_status_simps(2,3) add: cache_miss_def bindC_Inr [where m = "func ctx", OF f] comp_simps)
  with ok show ?thesis by blast
qed

lemma client_get_lookup:
  fixes w :: "'z client_app world" and func :: "'z client_app func"
  assumes ok: "ships_cached ship_of (hc_cache (sv_client (snd (app w))))"
  shows "\<exists>d. ships_cached ship_of d \<and>
    (CachingRequestHook_Process (client_get_caching i) func ctx w
        = Some (Inr (found_status (ship_of i)), w\<lparr>app := with_cache d (found (ship_of i) (app w))\<rparr>) \<or>
     i \<notin> cached_ids d \<and> CachingRequestHook_Process (client_get_caching i) func ctx w
        = cache_miss (client_get_caching i) i func ctx (w\<lparr>app := with_cache d (app w)\<rparr>))"
proof -
  let ?ps = "client_get_caching i :: (StarshipProperties option, 'z client_app) CachingParameters" and ?T = "''std::optional<StarshipProperties>''"
  obtain e d where get: "Cache_Get client_cache i (app w) = Some (Inr e, with_cache d (app w))" and d: "ships_cached ship_of d"
    and e: "if Cache_IsValid e then ship_entry ship_of i e else i \<notin> cached_ids d"
    using client_cache_Get [OF ok] by blast
  let ?w = "w\<lparr>app := with_cache d (app w)\<rparr>"
  have run: "CachingRequestHook_Process ?ps func ctx w =
      (if Cache_IsValid e then
         (if cache_age (insertion_time e) (steady_clock w) \<le> max_age ?ps
          then thenC (cache_reader ?ps (el_data e)) (ret (el_status e)) ?w
          else thenC (on_app (Cache_Remove client_cache i)) (cache_miss ?ps i func ctx) ?w)
       else cache_miss ?ps i func ctx ?w)"
    using on_app_Some [where m = "Cache_Get client_cache i", OF get]
    by (auto simp del: client_get_caching_sel(5) simp: CachingRequestHook_Process_def comp_simps)
  consider (hit) "Cache_IsValid e" "cache_age (insertion_time e) (steady_clock w) \<le> max_age ?ps"
    | (old) "Cache_IsValid e" "\<not> cache_age (insertion_time e) (steady_clock w) \<le> max_age ?ps"
    | (miss) "\<not> Cache_IsValid e" by blast
  then show ?thesis
  proof cases
    case hit
    with e have "ship_entry ship_of i e" by simp
    then have "CachingRequestHook_Process ?ps func ctx w = Some (Inr (found_status (ship_of i)), w\<lparr>app := with_cache d (found (ship_of i) (app w))\<rparr>)"
      using run hit by (simp del: found_status_simps(2,3) add: ship_entry_def comp_simps)
    with d show ?thesis by blast
  next
    case old
    obtain d' where rm: "Cache_Remove client_cache i (app ?w) = Some (Inr (), with_cache d' (app ?w))"
      and d': "ships_cached ship_of d'" "i \<notin> cached_ids d'"
      using client_cache_Remove [of ship_of "app ?w" i] d by auto
    have "CachingRequestHook_Process ?ps func ctx w = cache_miss ?ps i func ctx (w\<lparr>app := with_cache d' (app w)\<rparr>)"
      using run old on_app_Some [where m = "Cache_Remove client_cache i", OF rm] by (simp add: thenC_Inr)
    with d' show ?thesis by blast
  next
    case miss
    with run e d show ?thesis by auto
  qed
qed

lemma client_get_cached:
  fixes func :: "'z client_app func"
  assumes ok: "ships_cached ship_of (hc_cache (sv_client (snd y0)))"
    and func: "\<And>d. ships_cached ship_of d \<Longrightarrow> hoare (pending_with m ctx name k (\<lambda>y t. y = with_cache d y0 \<and> t = now)) (func ctx)
      (\<lambda>r. pending_with m ctx name k (\<lambda>y t. r = Inr (found_status (ship_of i)) \<and> y = with_cache d (found (ship_of i) y0) \<and> now \<le> t))"
  shows "hoare (pending_with m ctx name k (\<lambda>y t. y = y0 \<and> t = now)) (CachingRequestHook_Process (client_get_caching i) func ctx)
    (\<lambda>r. pending_with m ctx name k (\<lambda>y t. r = Inr (found_status (ship_of i)) \<and>
       (\<exists>d. y = with_cache d (found (ship_of i) y0) \<and> ships_cached ship_of d) \<and> now \<le> t))"
proof (rule hoareI)
  fix w assume w: "pending_with m ctx name k (\<lambda>y t. y = y0 \<and> t = now) w"
  let ?post = "\<lambda>r. pending_with m ctx name k (\<lambda>y t. r = Inr (found_status (ship_of i)) \<and>
       (\<exists>d. y = with_cache d (found (ship_of i) y0) \<and> ships_cached ship_of d) \<and> now \<le> t)"
  have "snd (app w) = snd y0" using w by (auto simp: pending_with_def)
  then obtain d where d: "ships_cached ship_of d" and run: "CachingRequestHook_Process (client_get_caching i) func ctx w
        = Some (Inr (found_status (ship_of i)), w\<lparr>app := with_cache d (found (ship_of i) (app w))\<rparr>) \<or>
     i \<notin> cached_ids d \<and> CachingRequestHook_Process (client_get_caching i) func ctx w
        = cache_miss (client_get_caching i) i func ctx (w\<lparr>app := with_cache d (app w)\<rparr>)"
    using client_get_lookup [of ship_of w i func ctx] ok by auto
  from run show "\<exists>r w'. CachingRequestHook_Process (client_get_caching i) func ctx w = Some (r, w') \<and> ?post r w'"
  proof
    assume "CachingRequestHook_Process (client_get_caching i) func ctx w
        = Some (Inr (found_status (ship_of i)), w\<lparr>app := with_cache d (found (ship_of i) (app w))\<rparr>)"
    then show ?thesis using w d by (auto simp: pending_with_def pending_is_def)
  next
    assume miss: "i \<notin> cached_ids d \<and> CachingRequestHook_Process (client_get_caching i) func ctx w
        = cache_miss (client_get_caching i) i func ctx (w\<lparr>app := with_cache d (app w)\<rparr>)"
    have "pending_with m ctx name k (\<lambda>y t. y = with_cache d y0 \<and> t = now) (w\<lparr>app := with_cache d (app w)\<rparr>)"
      using w by (simp add: pending_with_def pending_is_def)
    from hoareE [OF func [OF d] this] obtain w1 where f: "func ctx (w\<lparr>app := with_cache d (app w)\<rparr>) = Some (Inr (found_status (ship_of i)), w1)"
      and w1: "pending_with m ctx name k (\<lambda>y t. y = with_cache d (found (ship_of i) y0) \<and> now \<le> t) w1"
      by (auto simp: pending_with_def)
    have "snd (app w1) = snd (with_cache d (found (ship_of i) y0))"
      using w1 unfolding pending_with_def by (metis apart_from_simps(3))
    then obtain d' where "cache_miss (client_get_caching i) i func ctx (w\<lparr>app := with_cache d (app w)\<rparr>)
        = Some (Inr (found_status (ship_of i)), w1\<lparr>app := with_cache d' (app w1)\<rparr>)" "ships_cached ship_of d'"
      using client_get_miss [where func = func and ship_of = ship_of and i = i, OF f] d miss by auto
    then show ?thesis using miss w1 by (auto simp: pending_with_def pending_is_def)
  qed
qed


subsection \<open>The ship that is returned\<close>

abbreviation get_mapping :: status_code_mapping where
  "get_mapping \<equiv> EF_Exclude SC_not_found (EF_IncludeAllErrorCodes default_map_to Map.empty)"

lemma get_hooks: "in_hooks (map (SetRequestType t \<circ> hook_of) [P_Caching ps, P_Retry rs]) func =
    CachingRequestHook_Process ps (RetryRequestHook_Process rs func)"
proof -
  have "hook_Process (SetRequestType t (RetryRequestHook rs)) func = RetryRequestHook_Process rs func" by (rule ext) simp
  then show ?thesis by (intro ext) (simp add: CachingRequestHook_def)
qed

lemma forwards_found: "forwards get_mapping (logged (Inr (found_status x))) r \<Longrightarrow> r = Inr (found_status x)"
  by (simp add: forwards_def EF_Exclude_def EF_IncludeAllErrorCodes_apply split: if_splits)

lemma client_get_retried:
  fixes u :: "'z client_app" and cli :: "('h, 'z) HttpStarWarsClient" and name :: string
  assumes ctx: "ctx < m" and server: "http_server cli (\<lambda>path t. answer path)" and ship: "serves_ship js model_first answer i x"
  defines "y0 \<equiv> apart_from name (found None u)"
  shows "hoare (pending_with m ctx name k (\<lambda>y t. y = with_cache d y0 \<and> t = now))
      (RetryRequestHook_Process (client_retry draw) (client_get_func js model_first cli i) ctx)
      (\<lambda>r. pending_with m ctx name k (\<lambda>y t. r = Inr (found_status x) \<and> y = with_cache d (found x y0) \<and> now \<le> t))"
proof -
  have E: "with_cache d (found x y0) = apart_from name (fst (with_cache d y0), snd (found x (with_cache d y0)))"
    by (simp add: y0_def apart_from_def with_cache_def found_def)
  show ?thesis
    unfolding E
  proof (rule retried_once [OF ctx])
    fix w' :: "'z client_app world"
    assume w': "stack_ok m w'" "apart_from name (app w') = with_cache d y0"
    from w'(2) have s: "snd (app w') = snd (with_cache d y0)" by (metis apart_from_simps(3))
    then have "hc_found (sv_client (snd (app w'))) = None" by (simp add: y0_def)
    from client_get_func_run [OF w'(1) server ship this] obtain t where t: "0 \<le> t"
      "client_get_func js model_first cli i ctx w' = Some (Inr (found_status x), (timed t w')\<lparr>app := found x (app w')\<rparr>)" by blast
    moreover have "found x (app w') = (fst (app w'), snd (found x (with_cache d y0)))" using s by (simp add: found_def)
    ultimately show "\<exists>t. 0 \<le> t \<and> client_get_func js model_first cli i ctx w' = Some (Inr (found_status x),
        (timed t w')\<lparr>app := (fst (app w'), snd (found x (with_cache d y0)))\<rparr>)" by auto
  qed (auto split: if_splits)
qed

lemma client_part_get: "snd u' = snd (with_cache d (found x u)) \<Longrightarrow> client_part u u'"
  by (auto simp: client_part_def with_cache_def found_def)

lemma Http_Get_run:
  fixes w :: "'z client_app world" and cli :: "('h, 'z) HttpStarWarsClient"
  assumes ok: "stack_ok n w" and closed: "pending_request_count (fst (app w)) ''GetStarShipProperties'' + 1 \<le> 2"
    and server: "http_server cli (\<lambda>path t. answer path)" and ship: "serves_ship js model_first answer i (ship_of i)"
    and cached: "ships_cached ship_of (hc_cache (sv_client (snd (app w))))"
  shows "\<exists>w'. Http_GetStarShipProperties js model_first draw cli i w = Some (Inr (ship_of i), w') \<and> stack_ok n w' \<and>
    client_part (app w) (app w') \<and> steady_clock w \<le> steady_clock w' \<and>
    pending_request_count (fst (app w')) = pending_request_count (fst (app w)) \<and>
    ships_cached ship_of (hc_cache (sv_client (snd (app w'))))"
proof -
  let ?name = "''GetStarShipProperties''" and ?x = "ship_of i" and ?w = "w\<lparr>app := found None (app w)\<rparr>"
  let ?y = "apart_from ?name (found None (app w))" and ?func = "client_get_func js model_first cli i"
  let ?R = "\<lambda>r y t. r = Inr (found_status ?x) \<and> (\<exists>d. y = with_cache d (found ?x ?y) \<and> ships_cached ship_of d) \<and> steady_clock w \<le> t"
  let ?issue = "issue_request ?name (P_ErrorForwarding get_mapping) [P_Caching (client_get_caching i), P_Retry (client_retry draw)] ?func"
  have "\<exists>r0 r w'. ?issue ?w = Some (r, w') \<and> stack_ok n w' \<and>
      ?R r0 (apart_from ?name (app w')) (steady_clock w') \<and> forwards get_mapping (logged r0) r \<and>
      pending_request_count (fst (app w')) ?name = pending_request_count (fst (app ?w)) ?name"
  proof (rule issue_request_outcome [where R = ?R])
    fix m ctx :: nat assume ctx: "ctx < m"
    have "hoare (pending_with m ctx ?name k (\<lambda>y t. y = ?y \<and> t = steady_clock w))
        (CachingRequestHook_Process (client_get_caching i) (RetryRequestHook_Process (client_retry draw) ?func) ctx)
        (\<lambda>r. pending_with m ctx ?name k (?R r))" for k
    proof (rule client_get_cached)
      show "ships_cached ship_of (hc_cache (sv_client (snd ?y)))" using cached by simp
    qed (rule client_get_retried [OF ctx server ship])
    then show "hoare (pending_with m ctx ?name (pending_request_count (fst (app ?w)) ?name + 1)
          (\<lambda>x t. x = apart_from ?name (app ?w) \<and> t = steady_clock ?w))
        (in_hooks (map (SetRequestType RT_outgoing \<circ> hook_of) [P_Caching (client_get_caching i), P_Retry (client_retry draw)]) ?func ctx)
        (\<lambda>r. pending_with m ctx ?name (pending_request_count (fst (app ?w)) ?name + 1) (?R r))"
      unfolding get_hooks by simp
  qed (use ok closed in \<open>auto simp: EF_Exclude_def EF_IncludeAllErrorCodes_apply split: if_splits\<close>)
  then obtain r0 r w' where run: "?issue ?w = Some (r, w')" and w': "stack_ok n w'"
      "pending_request_count (fst (app w')) ?name = pending_request_count (fst (app ?w)) ?name"
      and R: "?R r0 (apart_from ?name (app w')) (steady_clock w')" and fwd: "forwards get_mapping (logged r0) r" by blast
  from R obtain d where d: "apart_from ?name (app w') = with_cache d (found ?x ?y)" "ships_cached ship_of d" by blast
  have r: "r = Inr (found_status ?x)" using fwd R by (intro forwards_found) simp
  have s: "snd (app w') = snd (with_cache d (found ?x (app w)))" using arg_cong [OF d(1), of snd] by (simp add: with_cache_def found_def)
  have "Http_GetStarShipProperties js model_first draw cli i w = Some (Inr ?x, w')"
    using run r s by (simp add: Http_GetStarShipProperties_def on_client_found thenC_Inr bindC_Inr getC_apply ret_apply del: found_status_simps(2,3))
  moreover have "pending_request_count (fst (app w')) = pending_request_count (fst (app w))"
    using d(1) w'(2) by (intro apart_from_counts [where y = "snd (with_cache d (found ?x (app w)))"]) (simp_all add: with_cache_def found_def apart_from_def)
  ultimately show ?thesis using w' R d client_part_get [OF s] s by (intro exI [of _ w']) simp
qed

end
