(* ===== verification/Mse_Service_Composed.thy ===== *)
theory Mse_Service_Composed
  imports Mse_Starwars_Client_Get Mse_Starwars_Client_Props Mse_Http_Service
begin

text \<open>
  The service as it runs: the HTTP handler, the core and the store of statuses over the client of
  the public API. Over a server that works, the client keeps the contract that the core is proved
  against, so the results about the service hold for the whole.
\<close>

declare split_paired_Ex [simp del] split_paired_All [simp del]

subsection \<open>The client keeps its contract\<close>

text \<open>
  The client can be used while the breaker lets a request of each name pass and its cache holds
  answers of the server only.
\<close>

definition http_usable ::
    "(string \<Rightarrow> StarshipProperties option) \<Rightarrow> request_data \<Rightarrow> client_state \<Rightarrow> bool" where
  "http_usable ship_of b c \<longleftrightarrow>
     pending_request_count b ''ListStarShipProperties'' + 1 \<le> 2 \<and>
     pending_request_count b ''GetStarShipProperties'' + 1 \<le> 2 \<and> ships_cached ship_of (hc_cache c)"

text \<open>The public interface works: it has the pages of the catalogue, and an answer for each known id.\<close>

definition working_server ::
    "'j json_library \<Rightarrow> bool \<Rightarrow> ('h, 'z) HttpStarWarsClient \<Rightarrow> (string \<Rightarrow> bool) \<Rightarrow> StarshipProperties list \<Rightarrow>
     (string \<Rightarrow> StarshipProperties option) \<Rightarrow> bool" where
  "working_server js model_first cli known catalogue ship_of \<longleftrightarrow>
     (\<exists>answer. http_server cli (\<lambda>path t. answer path) \<and> served_pages js model_first answer first_page catalogue \<and>
        (\<forall>i. known i \<longrightarrow> serves_ship js model_first answer i (ship_of i)))"

lemma http_client_core:
  fixes cli :: "('h, 'z) HttpStarWarsClient"
  assumes "working_server js model_first cli known catalogue ship_of"
  shows "service_core (http_usable ship_of) (HttpStarWarsClient_of js model_first draw cli) known catalogue ship_of"
proof -
  obtain answer where server: "http_server cli (\<lambda>path t. answer path)"
    and pages: "served_pages js model_first answer first_page catalogue"
    and ships: "known i \<Longrightarrow> serves_ship js model_first answer i (ship_of i)" for i
    using assms unfolding working_server_def by blast
  note defs = HttpStarWarsClient_of_def client_step_def client_usable_def http_usable_def
  show ?thesis
  proof
    fix n t and u :: "'z client_app"
    assume u: "client_usable (http_usable ship_of) u"
    show "hoare (\<lambda>w. stack_ok n w \<and> app_clock w = (u, t)) (ListStarShipProperties (HttpStarWarsClient_of js model_first draw cli))
      (\<lambda>r w. r = Inr catalogue \<and> stack_ok n w \<and> client_step (http_usable ship_of) u (app w) \<and> t \<le> steady_clock w)"
    proof (rule hoareI)
      fix w :: "'z client_app world" assume w: "stack_ok n w \<and> app_clock w = (u, t)"
      then have "app w = u" "steady_clock w = t" by (simp_all add: app_clock_def)
      with Http_List_run [OF _ _ server pages, of n w draw] w u
      show "\<exists>r w'. ListStarShipProperties (HttpStarWarsClient_of js model_first draw cli) w = Some (r, w') \<and>
          r = Inr catalogue \<and> stack_ok n w' \<and> client_step (http_usable ship_of) u (app w') \<and> t \<le> steady_clock w'"
        by (auto simp: defs)
    qed
    show "hoare (\<lambda>w. stack_ok n w \<and> app w = u) (GetStarShipProperties (HttpStarWarsClient_of js model_first draw cli) i)
      (\<lambda>r w. r = Inr (ship_of i) \<and> stack_ok n w \<and> client_step (http_usable ship_of) u (app w))" if "known i" for i
    proof (rule hoareI)
      fix w :: "'z client_app world" assume w: "stack_ok n w \<and> app w = u"
      with Http_Get_run [where i = i and ship_of = ship_of and w = w and n = n and draw = draw, OF _ _ server ships [OF that]] u
      show "\<exists>r w'. GetStarShipProperties (HttpStarWarsClient_of js model_first draw cli) i w = Some (r, w') \<and>
          r = Inr (ship_of i) \<and> stack_ok n w' \<and> client_step (http_usable ship_of) u (app w')"
        by (auto simp: defs)
    qed
  qed (simp add: client_step_def)
qed

text \<open>
  Claim C10: looking up a ship over a server that works. The client returns the ship that the server
  has for the id, or none when the server answers 404, whether the answer is in the cache of the
  client or not, and whatever an earlier lookup left. The cache holds answers of the server
  afterwards, within its bound, and no counter of the breaker has changed.
\<close>

theorem http_client_gets:
  fixes w :: "'z client_app world" and js :: "'j json_library" and cli :: "('h, 'z) HttpStarWarsClient"
  assumes "stack_ok n w" and "pending_request_count (fst (app w)) ''GetStarShipProperties'' + 1 \<le> 2"
    and "http_server cli (\<lambda>path t. answer path)" and "serves_ship js model_first answer i (ship_of i)"
    and "ships_cached ship_of (hc_cache (sv_client (snd (app w))))"
  shows "\<exists>w'. Http_GetStarShipProperties js model_first draw cli i w = Some (Inr (ship_of i), w') \<and> stack_ok n w' \<and>
    client_part (app w) (app w') \<and> steady_clock w \<le> steady_clock w' \<and>
    pending_request_count (fst (app w')) = pending_request_count (fst (app w)) \<and>
    ships_cached ship_of (hc_cache (sv_client (snd (app w'))))"
  by (rule Http_Get_run [where ship_of = ship_of and i = i, OF assms])

text \<open>
  Claim C2: the whole service over a working public interface. Whatever requests come in, each on
  a new thread, each is answered, with the status and content that the abstract service
  gives: the statuses that were set and the list that was answered first are all that shows. The
  client's own requests, their retries, the cache of ships and the breaker do not show, and the
  service is afterwards ready for more requests.
\<close>

theorem service_over_http_client:
  fixes js :: "'j json_library" and u :: "(request_data, client_state) http_app"
  assumes "working_server js model_first cli known catalogue ship_of" and "json_exceptions js"
    and "\<forall>call \<in> set calls. call_known known call" and "service_ok (http_usable ship_of) u"
  shows "\<exists>as u'.
     http_run js id_first (Core (HttpStarWarsClient_of js model_first draw cli) service_status_db) (zip (tokened calls) as) u u' \<and>
     http_spec_run js id_first catalogue ship_of (tokened calls) (http_abs u) = (as, http_abs u') \<and>
     service_ok (http_usable ship_of) u'"
  by (rule http_run_exists [OF http_client_core [OF assms(1)] assms(2-4)])


subsection \<open>An instance\<close>

text \<open>The two pages, one ship by its id, and one id without a ship.\<close>

definition demo_public :: "string \<Rightarrow> HttpResponse option" where
  "demo_public path =
     (if path = ship_path ''2'' then Some \<lparr>hr_status = 200, hr_body = ''ship 2''\<rparr>
      else if path = ship_path ''3'' then Some \<lparr>hr_status = 404, hr_body = []\<rparr> else demo_pages path)"

definition demo_ship_of :: "string \<Rightarrow> StarshipProperties option" where
  "demo_ship_of i = (if i = ''2'' then Some demo_corvette else None)"

lemma demo_public_ships: "i = ''2'' \<or> i = ''3'' \<Longrightarrow> serves_ship demo_reader True demo_public i (demo_ship_of i)"
proof -
  have "ship_content demo_reader True ''ship 2'' = Inr demo_corvette" by code_simp
  then show "i = ''2'' \<or> i = ''3'' \<Longrightarrow> serves_ship demo_reader True demo_public i (demo_ship_of i)"
    by (auto simp: serves_ship_def demo_public_def demo_ship_of_def ship_path_def)
qed

lemma demo_public_works:
  "working_server demo_reader True (demo_connection (\<lambda>path t. demo_public path)) (\<lambda>i. i = ''2'' \<or> i = ''3'')
     [demo_corvette, demo_falcon] demo_ship_of"
proof -
  have pages: "served_pages demo_reader True demo_public first_page ([demo_corvette] @ [demo_falcon] @ [])"
    by (rule served_pages.page [where r = "\<lparr>hr_status = 200, hr_body = ''page 1''\<rparr>" and path' = "''/page2''"],
        simp_all add: demo_public_def demo_pages_def first_page_def ship_path_def)
      (rule served_pages.page [where r = "\<lparr>hr_status = 200, hr_body = ''page 2''\<rparr>" and qs = "[]", OF _ _ _ _ served_pages.no_page, simplified],
        simp_all add: demo_public_def demo_pages_def first_page_def ship_path_def)
  from demo_connection_server pages demo_public_ships show ?thesis
    unfolding working_server_def by (intro exI [of _ demo_public]) simp
qed

definition demo_live_service :: "(request_data, client_state) http_app" where
  "demo_live_service = (Map.empty, \<lparr>sv_cache = Map.empty, sv_db = Map.empty, sv_client = new_client_state,
     hs_content = [], hs_response = None, hs_status = -1\<rparr>)"

lemma demo_live_ok: "service_ok (http_usable ship_of) demo_live_service" "http_abs demo_live_service = (Map.empty, None)"
  by (simp_all add: service_ok_defs http_usable_def demo_live_service_def pending_request_count_def new_client_state_def
      ships_cached_empty http_abs_def cached_list_def)

lemma demo_reader_exceptions: "json_exceptions demo_reader"
  by (auto simp: json_exceptions_def json_exception_def demo_reader_def split: option.split demo_value.split)

definition demo_calls :: "http_call list" where
  "demo_calls =
     [HC_List (demo_request ''secret-read-only-token'' ''/StarShips'' []),
      HC_Update (demo_request ''secret-token'' ''/StarShipStatus/2'' ''in action''),
      HC_Get (demo_request ''secret-read-only-token'' ''/StarShip/2'' []),
      HC_List (demo_request ''secret-read-only-token'' ''/StarShips'' [])]"

lemma demo_paths [simp]: "http_extractId ''/StarShipStatus/2'' = Inr ''2''" "http_extractId ''/StarShip/2'' = Inr ''2''"
  using http_extractId_last [of "''StarShipStatus''" "''2''"] http_extractId_last [of "''StarShip''" "''2''"]
  by (simp_all add: regex_dot_def)

text \<open>What the abstract service answers to the calls.\<close>

abbreviation demo_list_text :: string where
  "demo_list_text \<equiv> demo_print (starships_to_json demo_reader (map (ship_with_status Map.empty) [demo_corvette, demo_falcon]))"

abbreviation demo_ship_text :: string where
  "demo_ship_text \<equiv> demo_print (starship_to_json demo_reader \<lparr>ss_Properties = demo_corvette, ss_Status = SS_InAction\<rparr>)"

lemma demo_scopes:
  "granted_scopes service_tokens (Some (Inr ''secret-read-only-token'')) = Some [''read'']"
  "granted_scopes service_tokens (Some (Inr ''secret-token'')) = Some [''read'', ''write'']"
  by (simp_all add: granted_scopes_def)

lemma demo_tokened: "tokened demo_calls = zip demo_calls
    (map (\<lambda>t. Some (Inr t)) [''secret-read-only-token'', ''secret-token'', ''secret-read-only-token'', ''secret-read-only-token''])"
  by (simp add: tokened_def demo_calls_def new_thread_token_def)

lemma demo_in_action: "http_body_status demo_reader ''in action'' = Inr SS_InAction"
  by code_simp

lemma demo_dump [simp]: "json_dump demo_reader j = Inr (demo_print j)"
  by (simp add: demo_reader_def)

lemma demo_request_sel [simp]: "rq_path (demo_request token path body) = path" "rq_body (demo_request token path body) = body"
  by (simp_all add: demo_request_def)

lemma demo_spec_run:
  "http_spec_run demo_reader True [demo_corvette, demo_falcon] demo_ship_of (tokened demo_calls) (Map.empty, None) =
    ([(200, Some demo_list_text), (200, None), (200, Some demo_ship_text), (200, Some demo_list_text)],
     ([''2'' \<mapsto> SS_InAction], Some demo_list_text))"
  unfolding demo_tokened unfolding demo_calls_def
  by (simp add: demo_scopes http_list_reply_def list_result_def http_list_text_def http_update_decision_def demo_in_action
      demo_ship_of_def spec_set_status_def http_get_reply_def value_or_def del: demo_print.simps)

theorem service_over_http_client_witness:
  "\<exists>u'. http_run demo_reader True
      (Core (HttpStarWarsClient_of demo_reader True (\<lambda>m s. ret m) (demo_connection (\<lambda>path t. demo_public path))) service_status_db)
      (zip (tokened demo_calls) [(200, Some demo_list_text), (200, None), (200, Some demo_ship_text), (200, Some demo_list_text)])
      demo_live_service u' \<and> sv_db (snd u') = [''2'' \<mapsto> SS_InAction]"
proof -
  have "\<forall>call \<in> set demo_calls. call_known (\<lambda>i. i = ''2'' \<or> i = ''3'') call" by (simp add: demo_calls_def)
  from service_over_http_client [OF demo_public_works demo_reader_exceptions this demo_live_ok(1), of True "\<lambda>m s. ret m"]
  show ?thesis
    unfolding demo_live_ok(2) demo_spec_run by (auto simp: http_abs_def)
qed

theorem http_client_gets_witness:
  "\<exists>w w'. Http_GetStarShipProperties demo_reader True (\<lambda>m s. ret m) (demo_connection (\<lambda>path t. demo_public path)) ''2''
      (initial_world demo_live_service) = Some (Inr (Some demo_corvette), w) \<and>
    Http_GetStarShipProperties demo_reader True (\<lambda>m s. ret m) (demo_connection (\<lambda>path t. demo_public path)) ''3'' w
      = Some (Inr None, w')"
proof -
  let ?cli = "demo_connection (\<lambda>path t. demo_public path)" and ?name = "''GetStarShipProperties''"
  note gets = http_client_gets [where ship_of = demo_ship_of and draw = "\<lambda>m s. ret m", OF _ _ demo_connection_server demo_public_ships]
  have start: "app (initial_world demo_live_service) = demo_live_service"
      "pending_request_count (fst demo_live_service) ?name + 1 \<le> 2"
      "ships_cached demo_ship_of (hc_cache (sv_client (snd demo_live_service)))"
    by (simp_all add: initial_world_def demo_live_service_def pending_request_count_def new_client_state_def ships_cached_empty)
  obtain w where w: "Http_GetStarShipProperties demo_reader True (\<lambda>m s. ret m) ?cli ''2''
      (initial_world demo_live_service) = Some (Inr (demo_ship_of ''2''), w)" "stack_ok 2 w"
      "pending_request_count (fst (app w)) = pending_request_count (fst demo_live_service)"
      "ships_cached demo_ship_of (hc_cache (sv_client (snd (app w))))"
    using gets [of 2 "initial_world demo_live_service" "''2''"] start by auto
  obtain w' where "Http_GetStarShipProperties demo_reader True (\<lambda>m s. ret m) ?cli ''3'' w = Some (Inr (demo_ship_of ''3''), w')"
    using gets [of 2 w "''3''"] w start by auto
  with w(1) show ?thesis unfolding demo_ship_of_def by auto
qed

end
