(* ===== verification/Mse_Service_Main.thy ===== *)
theory Mse_Service_Main
  imports Mse_Service_Composed Mse_Grpc_Handler Mse_Environment Mse_Shutdown
begin

text \<open>
  \<open>app/main.cpp\<close>: the process from its start to its end, over any environment. What the servers
  do in \<open>listen\<close> and \<open>Wait\<close> is a parameter. The client, the store and the core are made without an
  effect on the rest. The state of the application holds the static lists of hooks, the registry of
  handlers, the events of the signal handler that the main thread causes (its own thread is in
  \<open>Mse_Signal_Handler\<close>), and the rest of the service.
\<close>

declare split_paired_Ex [simp del] split_paired_All [simp del]

subsection \<open>The process\<close>

text \<open>The constructors of the handlers take the address from the environment by default.\<close>

datatype made_handler = Made_HttpHandler string int | Made_GrpcHandler string int

definition HttpHandler_construct :: "environment \<Rightarrow> exn + made_handler" where
  "HttpHandler_construct env =
     (case getenv_or_string env ''HOST'' ''0.0.0.0'' of Inl e \<Rightarrow> Inl e | Inr host \<Rightarrow>
     (case getenv_or (getenv_optional extract_int env) ''PORT'' 8080 of Inl e \<Rightarrow> Inl e | Inr port \<Rightarrow>
        Inr (Made_HttpHandler host port)))"

definition GrpcHandler_construct :: "environment \<Rightarrow> exn + made_handler" where
  "GrpcHandler_construct env =
     (case getenv_or_string env ''HOST'' ''0.0.0.0'' of Inl e \<Rightarrow> Inl e | Inr host \<Rightarrow>
     (case getenv_or (getenv_optional extract_int env) ''PORT'' 50051 of Inl e \<Rightarrow> Inl e | Inr port \<Rightarrow>
        Inr (Made_GrpcHandler host port)))"

definition make_handler :: "environment \<Rightarrow> exn + made_handler" where
  "make_handler env =
     (case getenv_or_string env ''HANDLER_TYPE'' ''HTTP'' of Inl e \<Rightarrow> Inl e | Inr handlerType \<Rightarrow>
        if handlerType = ''HTTP'' then HttpHandler_construct env
        else if handlerType = ''GRPC'' then GrpcHandler_construct env
        else Inl (InvalidArgument ''invalid handler type''))"

definition main_context :: "environment \<Rightarrow> ('u world, unit) comp" where
  "main_context env =
     bindC (liftE (getenv_or_string env ''APP'' ''star-wars-starships'')) (\<lambda>name.
     bindC (liftE (getenv_or_string env ''VERSION'' ''1.0.0'')) (\<lambda>version.
       on_contexts (Context_Insert_list GlobalContext [(''app'', name), (''version'', version)])))"

text \<open>
  An automatic object of \<open>main\<close>: constructed, used, and destroyed when its block is left. When an
  exception is not caught in \<open>main\<close>, as here, the implementation decides whether the objects are
  destroyed before the process is terminated: \<open>unwinds\<close>. A destructor that is undefined behaviour
  makes the whole undefined.
\<close>

definition with_object :: "bool \<Rightarrow> ('s, unit) comp \<Rightarrow> ('s, unit) comp \<Rightarrow> ('s, 'a) comp \<Rightarrow> ('s, 'a) comp" where
  "with_object unwinds setup teardown body =
     thenC setup (bindC (tryC body) (\<lambda>result. case result of
       Inr x \<Rightarrow> thenC teardown (ret x)
     | Inl e \<Rightarrow> if unwinds then thenC teardown (throw e) else throw e))"

definition with_logger :: "bool \<Rightarrow> Logger \<Rightarrow> ('u world, 'a) comp \<Rightarrow> ('u world, 'a) comp" where
  "with_logger unwinds lg = with_object unwinds (Logger_construct lg) (Logger_destroy lg)"

text \<open>The handler is the object 0 and has the default name; the handler of the signal is 0 too.\<close>

type_synonym registry = "nat GracefulShutdown \<times> (nat \<rightharpoonup> string)"

record ('v, 'h, 's, 'u) main_app =
  ms_handler_hooks :: "('v, 'h) hook_params any list"
  ms_issuer_hooks :: "('v, request_data \<times> 's) hook_params any list"
  ms_registry :: registry
  ms_events :: "sig_event list"
  ms_service :: 'u

definition on_registry :: "(registry, 'a) comp \<Rightarrow> (('v, 'h, 's, 'u) main_app world, 'a) comp" where
  "on_registry m = on_app (zoomC ms_registry (\<lambda>r s. s\<lparr>ms_registry := r\<rparr>) m)"

definition main_event :: "sig_event \<Rightarrow> (('v, 'h, 's, 'u) main_app world, unit) comp" where
  "main_event e = on_app (modifyC (\<lambda>s. s\<lparr>ms_events := ms_events s @ [e]\<rparr>))"

definition register_hooks :: "(('v, 'h, 's, 'u) main_app world, unit) comp" where
  "register_hooks =
     thenC (on_app (zoomC ms_handler_hooks (\<lambda>l s. s\<lparr>ms_handler_hooks := l\<rparr>) register_handler_hooks))
           (on_app (zoomC ms_issuer_hooks (\<lambda>l s. s\<lparr>ms_issuer_hooks := l\<rparr>) register_issuer_hooks))"

definition with_handler :: "bool \<Rightarrow> (('v, 'h, 's, 'u) main_app world, 'a) comp \<Rightarrow> (('v, 'h, 's, 'u) main_app world, 'a) comp" where
  "with_handler unwinds = with_object unwinds (on_registry (Handler_construct 0 ''handler'')) (on_registry (Handler_destroy 0))"

definition with_shutdown_signal :: "bool \<Rightarrow> (('v, 'h, 's, 'u) main_app world, 'a) comp \<Rightarrow> (('v, 'h, 's, 'u) main_app world, 'a) comp" where
  "with_shutdown_signal unwinds = with_object unwinds (main_event (GracefulShutdownOnSignal 0 SIG_SHUTDOWN))
     (thenC (main_event (Destroy 0)) (main_event (Join 0)))"

definition main_log_level :: "environment \<Rightarrow> exn + LogLevel" where
  "main_log_level env = getenv_or (getenv_optional LogLevel_extract env) ''LOG_LEVEL'' LL_info"

fun handler_Handle ::
    "(string \<Rightarrow> int \<Rightarrow> ('u world, unit) comp) \<Rightarrow> (string \<Rightarrow> int \<Rightarrow> ('u world, unit) comp) \<Rightarrow> made_handler \<Rightarrow>
     ('u world, unit) comp" where
  "handler_Handle listen serve (Made_HttpHandler host port) = HttpHandler_Handle listen host port"
| "handler_Handle listen serve (Made_GrpcHandler host port) = GrpcHandler_Handle (serve host port)"

definition service_main ::
    "bool \<Rightarrow> environment \<Rightarrow> (string \<Rightarrow> int \<Rightarrow> (('v, 'h, 's, 'u) main_app world, unit) comp) \<Rightarrow> (string \<Rightarrow> int \<Rightarrow> (('v, 'h, 's, 'u) main_app world, unit) comp) \<Rightarrow>
     (('v, 'h, 's, 'u) main_app world, int) comp" where
  "service_main unwinds env listen serve =
     thenC (main_context env)
     (bindC (liftE (main_log_level env)) (\<lambda>level.
        with_logger unwinds (ConsoleLogger level LL_err)
        (with_logger unwinds (StructuredLogger (ConsoleLogger level LL_err) default_fields to_json)
        (thenC register_hooks
        (bindC (liftE (make_handler env)) (\<lambda>handler.
           with_handler unwinds
           (with_shutdown_signal unwinds
           (thenC (handler_Handle listen serve handler) (ret 0)))))))))"

subsection \<open>What it serves with\<close>

text \<open>The settings that the environment gives: the log level and the handler.\<close>

definition main_settings :: "environment \<Rightarrow> exn + LogLevel \<times> made_handler" where
  "main_settings env =
     (case main_log_level env of Inl e \<Rightarrow> Inl e | Inr level \<Rightarrow>
     (case make_handler env of Inl e \<Rightarrow> Inl e | Inr handler \<Rightarrow> Inr (level, handler)))"

text \<open>The state in which the handler starts to serve.\<close>

definition serving_metadata :: "environment \<Rightarrow> metadata" where
  "serving_metadata env = [(''app'', value_or (env ''APP'') ''star-wars-starships''), (''version'', value_or (env ''VERSION'') ''1.0.0'')]"

definition process_start :: "'u \<Rightarrow> ('v, 'h, 's, 'u) main_app" where
  "process_start u = \<lparr>ms_handler_hooks = [], ms_issuer_hooks = [], ms_registry = (initial_shutdown, Map.empty), ms_events = [],
     ms_service = u\<rparr>"

definition serving_app :: "'u \<Rightarrow> ('v, 'h, 's, 'u) main_app" where
  "serving_app u = \<lparr>ms_handler_hooks = handler_globals, ms_issuer_hooks = issuer_globals,
     ms_registry = (initial_shutdown\<lparr>callbacks := [''handler'' \<mapsto> 0]\<rparr>, [0 \<mapsto> ''handler'']),
     ms_events = [Construct 0 SIG_TERM], ms_service = u\<rparr>"

definition serving_world :: "environment \<Rightarrow> LogLevel \<Rightarrow> 'u \<Rightarrow> ('v, 'h, 's, 'u) main_app world" where
  "serving_world env level u =
     (set_metadata GlobalContext (serving_metadata env) (initial_world (serving_app u)))
       \<lparr>log_provider := Some (StructuredLogger (ConsoleLogger level LL_err) default_fields to_json)\<rparr>"

text \<open>What the destructor of the handler leaves, when the handler is alive.\<close>

definition handler_gone :: "('v, 'h, 's, 'u) main_app world \<Rightarrow> ('v, 'h, 's, 'u) main_app world option" where
  "handler_gone w = (case ms_registry (app w) of (s, live) \<Rightarrow>
     (case live 0 of
        None \<Rightarrow> None
      | Some name \<Rightarrow> Some (w\<lparr>app := (app w)\<lparr>ms_registry := (s\<lparr>callbacks := (callbacks s)(name := None)\<rparr>, live(0 := None))\<rparr>\<rparr>)))"

lemma getenv_or_string_value: "c_str n = n \<Longrightarrow> c_str d = d \<Longrightarrow> getenv_or_string env n d = Inr (value_or (env n) d)"
  by (simp add: getenv_or_string_def getenv_or_def getenv_optional_string_def impl_getenv_def value_or_def split: option.split)

lemma c_str_names [simp]: "c_str ''APP'' = ''APP''" "c_str ''VERSION'' = ''VERSION''" "c_str ''1.0.0'' = ''1.0.0''"
    "c_str ''star-wars-starships'' = ''star-wars-starships''" "c_str ''HOST'' = ''HOST''" "c_str ''0.0.0.0'' = ''0.0.0.0''"
    "c_str ''HANDLER_TYPE'' = ''HANDLER_TYPE''" "c_str ''HTTP'' = ''HTTP''"
  by (simp_all add: c_str_def)

lemma Context_Insert_list_run:
  "contexts w a \<noteq> None \<Longrightarrow> on_contexts (Context_Insert_list a kvs) w
     = Some (Inr (), set_metadata a (fold mm_insert kvs (metadata_of a w)) w)"
  by (auto simp: Context_Insert_list_def update_context_def on_contexts_def zoomC_def set_metadata_def metadata_of_def)

lemma main_context_run:
  "main_context env (initial_world u) = Some (Inr (), set_metadata GlobalContext (serving_metadata env) (initial_world u))"
proof -
  have live: "contexts (initial_world u) GlobalContext \<noteq> None" "metadata_of GlobalContext (initial_world u) = []"
    by (simp_all add: metadata_of_def initial_contexts_def)
  have "fold mm_insert [(''app'', a), (''version'', v)] [] = [(''app'', a), (''version'', v)]" for a v
    by simp
  then show ?thesis
    by (simp add: main_context_def getenv_or_string_value Context_Insert_list_run [OF live(1)] live(2) serving_metadata_def)
qed

lemma with_object_run:
  assumes "setup w = Some (Inr (), w1)"
    and "\<And>w2. teardown w2 = (case f w2 of None \<Rightarrow> None | Some w3 \<Rightarrow> Some (Inr (), w3))"
  shows "with_object unwinds setup teardown body w = (case body w1 of
    None \<Rightarrow> None
  | Some (r, w2) \<Rightarrow> if isl r \<and> \<not> unwinds then Some (r, w2) else map_option (Pair r) (f w2))"
proof (cases "body w1")
  note start = thenC_Inr [where m = "setup" and w = w and x = "()" and w' = w1, OF assms(1)]
  case None
  then show ?thesis by (simp add: with_object_def start bindC_None tryC_None)
next
  note start = thenC_Inr [where m = "setup" and w = w and x = "()" and w' = w1, OF assms(1)]
  case (Some a)
  obtain r w2 where a: "a = (r, w2)" by fastforce
  have t: "thenC teardown m w2 = (case f w2 of None \<Rightarrow> None | Some w3 \<Rightarrow> m w3)" for m :: "('a, 'c) comp"
    by (simp add: thenC_def bindC_def assms(2) split: option.split)
  show ?thesis
    using Some a
    by (cases r) (simp_all add: with_object_def start bindC_Inr tryC_Some t throw_apply ret_apply split: option.split)
qed

lemma with_logger_run:
  assumes "lg \<noteq> DiscardLogger"
  shows "with_logger unwinds lg body w = (case body (w\<lparr>log_provider := Some lg\<rparr>) of
    None \<Rightarrow> None
  | Some (r, w') \<Rightarrow> Some (r, if isl r \<and> \<not> unwinds then w' else w'\<lparr>log_provider := None\<rparr>))"
proof -
  have "with_logger unwinds lg body w = (case body (w\<lparr>log_provider := Some lg\<rparr>) of
      None \<Rightarrow> None
    | Some (r, w') \<Rightarrow> if isl r \<and> \<not> unwinds then Some (r, w') else map_option (Pair r) (Some (w'\<lparr>log_provider := None\<rparr>)))"
    unfolding with_logger_def
    by (rule with_object_run; insert assms; cases lg)
      (simp_all add: Logger_construct_def Logger_destroy_def LogProvider_SetLogger_def modifyC_apply)
  then show ?thesis by (auto split: option.split)
qed

lemma on_app_modify: "on_app (modifyC f) w = Some (Inr (), w\<lparr>app := f (app w)\<rparr>)"
  by (simp add: on_app_def zoomC_def modifyC_apply)

lemma register_hooks_run:
  assumes "ms_handler_hooks (app w) = []" and "ms_issuer_hooks (app w) = []"
  shows "register_hooks w = Some (Inr (),
    w\<lparr>app := (app w)\<lparr>ms_handler_hooks := handler_globals, ms_issuer_hooks := issuer_globals\<rparr>\<rparr>)"
  using assms by (simp add: register_hooks_def on_app_def zoomC_def registered_globals thenC_def bindC_def)

lemma with_handler_run:
  assumes "ms_registry (app w) = (initial_shutdown, Map.empty)"
  shows "with_handler unwinds body w =
    (case body (w\<lparr>app := (app w)\<lparr>ms_registry := (initial_shutdown\<lparr>callbacks := [''handler'' \<mapsto> 0]\<rparr>, [0 \<mapsto> ''handler''])\<rparr>\<rparr>) of
       None \<Rightarrow> None
     | Some (r, w') \<Rightarrow> if isl r \<and> \<not> unwinds then Some (r, w') else map_option (Pair r) (handler_gone w'))"
  unfolding with_handler_def
proof (rule with_object_run)
  show "on_registry (Handler_construct 0 ''handler'') w = Some (Inr (),
      w\<lparr>app := (app w)\<lparr>ms_registry := (initial_shutdown\<lparr>callbacks := [''handler'' \<mapsto> 0]\<rparr>, [0 \<mapsto> ''handler''])\<rparr>\<rparr>)"
    using assms by (simp add: on_registry_def on_app_def zoomC_def Handler_construct_run initial_shutdown_def)
  show "on_registry (Handler_destroy 0) w2 = (case handler_gone w2 of None \<Rightarrow> None | Some w3 \<Rightarrow> Some (Inr (), w3))"
    for w2 :: "('a, 'b, 'c, 'd) main_app world"
  proof (cases "ms_registry (app w2)")
    case (Pair s live)
    then show ?thesis
      by (cases "live 0"; simp add: on_registry_def on_app_def zoomC_def handler_gone_def Handler_destroy_run; simp add: Handler_destroy_def comp_simps)
  qed
qed

lemma with_shutdown_signal_run:
  "with_shutdown_signal unwinds body w =
    (case body (w\<lparr>app := (app w)\<lparr>ms_events := ms_events (app w) @ [Construct 0 SIG_TERM]\<rparr>\<rparr>) of
       None \<Rightarrow> None
     | Some (r, w') \<Rightarrow> Some (r, if isl r \<and> \<not> unwinds then w'
         else w'\<lparr>app := (app w')\<lparr>ms_events := ms_events (app w') @ [Destroy 0, Join 0]\<rparr>\<rparr>))"
proof -
  have "with_shutdown_signal unwinds body w =
    (case body (w\<lparr>app := (app w)\<lparr>ms_events := ms_events (app w) @ [Construct 0 SIG_TERM]\<rparr>\<rparr>) of
       None \<Rightarrow> None
     | Some (r, w') \<Rightarrow> if isl r \<and> \<not> unwinds then Some (r, w')
         else map_option (Pair r) (Some (w'\<lparr>app := (app w')\<lparr>ms_events := ms_events (app w') @ [Destroy 0, Join 0]\<rparr>\<rparr>)))"
    unfolding with_shutdown_signal_def
    by (rule with_object_run) (simp_all add: main_event_def GracefulShutdownOnSignal_def on_app_modify thenC_def bindC_def)
  then show ?thesis by (auto split: option.split)
qed

lemma getenv_or_error: "getenv_or (getenv_optional extract env) n d = Inl e \<Longrightarrow> \<exists>m. e = InvalidArgument m"
  by (auto simp: getenv_or_def getenv_optional_def getenv_optional_string_def Let_def split: option.splits if_splits prod.splits)

lemma main_settings_error: "main_settings env = Inl e \<Longrightarrow> \<exists>m. e = InvalidArgument m"
  by (auto simp: main_settings_def main_log_level_def make_handler_def HttpHandler_construct_def GrpcHandler_construct_def
      getenv_or_string_value dest!: getenv_or_error split: sum.splits if_splits)

definition hooks_registered :: "'u \<Rightarrow> ('v, 'h, 's, 'u) main_app" where
  "hooks_registered u = (process_start u)\<lparr>ms_handler_hooks := handler_globals, ms_issuer_hooks := issuer_globals\<rparr>"

text \<open>The process behind a handler that served with the outcome \<open>r\<close>: what its objects leave.\<close>

definition objects_gone :: "bool \<Rightarrow> (exn + 'a) \<times> ('v, 'h, 's, 'u) main_app world \<Rightarrow> ((exn + 'a) \<times> ('v, 'h, 's, 'u) main_app world) option" where
  "objects_gone unwinds = (\<lambda>(r, w). if isl r \<and> \<not> unwinds then Some (r, w)
     else map_option (Pair r) (handler_gone (w\<lparr>app := (app w)\<lparr>ms_events := ms_events (app w) @ [Destroy 0, Join 0]\<rparr>\<rparr>)))"

lemma service_main_inner:
  fixes body :: "made_handler \<Rightarrow> (('v, 'h, 's, 'u) main_app world, int) comp" and u :: 'u
  shows "thenC register_hooks (bindC (liftE settings) (\<lambda>handler. with_handler unwinds (with_shutdown_signal unwinds (body handler))))
      ((set_metadata a md (initial_world (process_start u)))\<lparr>log_provider := lg\<rparr>) =
    (case settings of
       Inl e \<Rightarrow> Some (Inl e, (set_metadata a md (initial_world (hooks_registered u)))\<lparr>log_provider := lg\<rparr>)
     | Inr handler \<Rightarrow>
        Option.bind (body handler ((set_metadata a md (initial_world (serving_app u)))\<lparr>log_provider := lg\<rparr>)) (objects_gone unwinds))"
proof -
  have app: "set_metadata a md (initial_world x) \<lparr>log_provider := lg, app := y\<rparr> = (set_metadata a md (initial_world y))\<lparr>log_provider := lg\<rparr>"
    for x y :: "('v, 'h, 's, 'u) main_app"
    by (simp add: set_metadata_def initial_world_def)
  have start: "app (initial_world x) = x" for x :: "('v, 'h, 's, 'u) main_app" by (simp add: initial_world_def)
  have reg: "thenC register_hooks k ((set_metadata a md (initial_world (process_start u)))\<lparr>log_provider := lg\<rparr>)
      = k ((set_metadata a md (initial_world (hooks_registered u)))\<lparr>log_provider := lg\<rparr>)"
    for k :: "(('v, 'h, 's, 'u) main_app world, int) comp"
    by (subst thenC_Inr [OF register_hooks_run]) (simp_all add: start app hooks_registered_def, simp_all add: process_start_def)
  show ?thesis
    unfolding reg
    by (cases settings) (simp_all add: bindC_Inl liftE_apply with_handler_run with_shutdown_signal_run start app serving_app_def
        hooks_registered_def process_start_def objects_gone_def split: option.split prod.split, auto)
qed

lemma service_main_run:
  fixes listen serve :: "string \<Rightarrow> int \<Rightarrow> (('v, 'h, 's, 'u) main_app world, unit) comp" and u :: 'u
  shows "service_main unwinds env listen serve (initial_world (process_start u)) =
     (let w0 = \<lambda>x. set_metadata GlobalContext (serving_metadata env) (initial_world x) in
      case main_log_level env of
        Inl e \<Rightarrow> Some (Inl e, w0 (process_start u))
      | Inr level \<Rightarrow>
          (case make_handler env of
             Inl e \<Rightarrow> Some (Inl e, (w0 (hooks_registered u))\<lparr>log_provider :=
               if unwinds then None else Some (StructuredLogger (ConsoleLogger level LL_err) default_fields to_json)\<rparr>)
           | Inr handler \<Rightarrow>
               (case handler_Handle listen serve handler (serving_world env level u) of
                  None \<Rightarrow> None
                | Some (r, w) \<Rightarrow> if isl r \<and> \<not> unwinds then Some (map_sum id (\<lambda>_. 0) r, w)
                    else map_option (\<lambda>w. (map_sum id (\<lambda>_. 0) r, w\<lparr>log_provider := None\<rparr>))
                      (handler_gone (w\<lparr>app := (app w)\<lparr>ms_events := ms_events (app w) @ [Destroy 0, Join 0]\<rparr>\<rparr>)))))"
proof -
  let ?w = "set_metadata GlobalContext (serving_metadata env) (initial_world (process_start u))"
  have none: "(set_metadata a md (initial_world x))\<lparr>log_provider := None\<rparr> = set_metadata a md (initial_world x)"
    for a md and x :: "('v, 'h, 's, 'u) main_app" by (simp add: set_metadata_def initial_world_def)
  have served: "thenC m (ret (0 :: int)) w = map_option (\<lambda>(r, w'). (map_sum id (\<lambda>_. 0) r, w')) (m w)"
    for m :: "(('v, 'h, 's, 'u) main_app world, unit) comp" and w
    by (auto simp: thenC_def bindC_def ret_def split: option.split sum.split)
  have E: "service_main unwinds env listen serve (initial_world (process_start u)) =
     (case main_log_level env of Inl e \<Rightarrow> Some (Inl e, ?w)
      | Inr level \<Rightarrow> with_logger unwinds (ConsoleLogger level LL_err)
        (with_logger unwinds (StructuredLogger (ConsoleLogger level LL_err) default_fields to_json)
        (thenC register_hooks (bindC (liftE (make_handler env)) (\<lambda>handler. with_handler unwinds (with_shutdown_signal unwinds
           (thenC (handler_Handle listen serve handler) (ret 0))))))) ?w)"
    by (cases "main_log_level env")
      (simp_all add: service_main_def thenC_Inr [where m = "main_context env", OF main_context_run] bindC_Inl liftE_apply)
  show ?thesis
  proof (cases "main_log_level env")
    case (Inr level)
    then show ?thesis
      unfolding E
      by (simp add: with_logger_run service_main_inner none served serving_world_def objects_gone_def isl_map_sum
          option.case_distrib [of "map_option _"] split: sum.split option.split prod.split) (auto simp: isl_map_sum split: option.splits)
  qed (simp add: E)
qed

lemma serving_world_ready: "ready 2 (serving_world env level u)"
proof -
  let ?w = "set_metadata GlobalContext (serving_metadata env) (initial_world (serving_app u))"
  have sorted: "mm_sorted (serving_metadata env)" by (simp add: serving_metadata_def mm_sorted_def)
  have "stack_ok 2 ?w" using ready_initial [of "serving_app u"] sorted by (simp add: ready_def)
  then have "stack_ok 2 (serving_world env level u)"
    unfolding stack_ok_def serving_world_def using to_json_ok by auto
  then show ?thesis by (simp add: ready_def serving_world_def initial_contexts_def)
qed

subsection \<open>The property\<close>

text \<open>
  Claim C13: what \<open>main\<close> does in any environment. A setting that cannot be used (a log level, a port, a
  type of handler) ends it with \<open>invalid_argument\<close> before anything is served or printed. Otherwise it
  serves, with the handler and the address that were set, in a state that every result about the
  endpoints applies to: the global context names the service and its version, the structured
  logger is registered, the environment grants no token, the handler is registered to be stopped
  and SIGTERM asks for it. When serving returns, \<open>main\<close> returns 0: the handler of the signal is
  destroyed and its thread joined, then the callback of the handler is taken from the registry under
  the name that the handler has by then, and at last no logger is registered; the global context
  and all else are left as serving left them. An exception that serving throws leaves \<open>main\<close>; the
  objects are then destroyed in the same way, or nothing is, as the implementation chooses.
\<close>

theorem main_serves:
  fixes listen serve :: "string \<Rightarrow> int \<Rightarrow> (('v, 'h, 's, 'u) main_app world, unit) comp" and u :: 'u
  shows "case main_settings env of
      Inl e \<Rightarrow> (\<exists>m w. e = InvalidArgument m \<and> service_main unwinds env listen serve (initial_world (process_start u)) = Some (Inl e, w) \<and>
        app w = (if isl (main_log_level env) then process_start u else hooks_registered u) \<and> console w = [])
    | Inr (level, handler) \<Rightarrow>
       (let w0 = serving_world env level u in
        service_main unwinds env listen serve (initial_world (process_start u)) =
          (case handler_Handle listen serve handler w0 of
             None \<Rightarrow> None
           | Some (r, w) \<Rightarrow>
               if isl r \<and> \<not> unwinds then Some (map_sum id (\<lambda>_. 0) r, w)
               else (case ms_registry (app w) of (shutdown, live) \<Rightarrow>
                 (case live 0 of
                    None \<Rightarrow> None
                  | Some name \<Rightarrow> Some (map_sum id (\<lambda>_. 0) r, w\<lparr>log_provider := None,
                      app := (app w)\<lparr>ms_registry := (shutdown\<lparr>callbacks := (callbacks shutdown)(name := None)\<rparr>, live(0 := None)),
                        ms_events := ms_events (app w) @ [Destroy 0, Join 0]\<rparr>\<rparr>)))) \<and>
        ready 2 w0 \<and> app w0 = serving_app u \<and>
        log_provider w0 = Some (StructuredLogger (ConsoleLogger level LL_err) default_fields to_json) \<and>
        Context_At (contexts w0) GlobalContext ''app'' = Some (Inr (value_or (env ''APP'') ''star-wars-starships'')) \<and>
        Context_At (contexts w0) GlobalContext ''version'' = Some (Inr (value_or (env ''VERSION'') ''1.0.0'')) \<and>
        (\<forall>md. request_token md w0 = request_token md (initial_world u)))"
proof (cases "main_settings env")
  case (Inl e)
  obtain m where "e = InvalidArgument m" using main_settings_error [OF Inl] by blast
  then show ?thesis using Inl service_main_run [of unwinds env listen serve u]
    by (auto simp: main_settings_def Let_def initial_world_def split: sum.splits)
next
  case (Inr x)
  obtain level handler where x: "x = (level, handler)" by fastforce
  let ?w = "serving_world env level u :: ('v, 'h, 's, 'u) main_app world"
  have global: "contexts ?w GlobalContext = Some \<lparr>ctx_metadata = serving_metadata env, ctx_parent = None\<rparr>"
    by (simp add: serving_world_def set_metadata_def initial_contexts_def)
  have token: "request_token md ?w = request_token md (initial_world u)" for md
    by (simp add: request_token_def Context_At.simps [of _ GlobalContext] global initial_contexts_def serving_metadata_def
        mm_find_def cong: option.case_cong)
  have at: "Context_At (contexts ?w) GlobalContext ''app'' = Some (Inr (value_or (env ''APP'') ''star-wars-starships''))"
    "Context_At (contexts ?w) GlobalContext ''version'' = Some (Inr (value_or (env ''VERSION'') ''1.0.0''))"
    by (simp_all add: global Context_At.simps [of _ GlobalContext] serving_metadata_def mm_find_def)
  have app: "app ?w = serving_app u" by (simp add: serving_world_def initial_world_def)
  have "main_log_level env = Inr level" "make_handler env = Inr handler"
    using Inr x by (auto simp: main_settings_def split: sum.splits)
  then show ?thesis using service_main_run [of unwinds env listen serve u]
    by (simp add: Inr x Let_def token at app serving_world_ready handler_gone_def option.case_distrib [of "map_option _"]
        split: option.split prod.split) (simp add: serving_world_def)
qed

text \<open>An empty environment and servers that return at once; and a type of handler that is not known.\<close>

theorem main_serves_witness:
  "let start = initial_world (process_start () :: (unit, unit, unit, unit) main_app);
       run = (\<lambda>env. service_main False env (\<lambda>host port. ret ()) (\<lambda>host port. ret ()) start) in
   (\<exists>out. run Map.empty = Some (Inr 0, (serving_world Map.empty LL_info ())\<lparr>console := out, log_provider := None,
      app := (serving_app ())\<lparr>ms_registry := (initial_shutdown, Map.empty), ms_events := [Construct 0 SIG_TERM, Destroy 0, Join 0]\<rparr>\<rparr>)) \<and>
   (\<exists>m w. run [''HANDLER_TYPE'' \<mapsto> ''FTP''] = Some (Inl (InvalidArgument m), w) \<and> app w = hooks_registered () \<and> console w = [])"
proof -
  let ?w0 = "serving_world Map.empty LL_info () :: (unit, unit, unit, unit) main_app world"
  have settings: "main_settings Map.empty = Inr (LL_info, Made_HttpHandler ''0.0.0.0'' 8080)"
    "main_settings [''HANDLER_TYPE'' \<mapsto> ''FTP''] = Inl (InvalidArgument ''invalid handler type'')"
    "isl (main_log_level [''HANDLER_TYPE'' \<mapsto> ''FTP'']) = False"
    by (simp_all add: main_settings_def main_log_level_def make_handler_def HttpHandler_construct_def getenv_or_string_value
        getenv_or_def getenv_optional_def getenv_optional_string_def impl_getenv_def value_or_def) (simp_all add: c_str_def)
  have "world_ok ?w0" using serving_world_ready [of Map.empty LL_info "()"] unfolding ready_def by (blast dest: stack_ok_world)
  then obtain out where out: "mse_log ''http-handler.cpp'' ''Handle'' 106 LL_info (''serving on '' @ ''0.0.0.0'' @ '':'' @ show_int 8080) ?w0
      = Some (Inr (), ?w0\<lparr>console := console ?w0 @ out\<rparr>)"
    using mse_log_run [of ?w0 LL_info "''http-handler.cpp''" "''Handle''" 106 "''serving on '' @ ''0.0.0.0'' @ '':'' @ show_int 8080"] by blast
  note main = main_serves [where unwinds = False
      and listen = "(\<lambda>host port. ret ()) :: string \<Rightarrow> int \<Rightarrow> ((unit, unit, unit, unit) main_app world, unit) comp" and serve = "\<lambda>host port. ret ()" and u = "()"]
  have handle: "HttpHandler_Handle (\<lambda>host port. ret ()) ''0.0.0.0'' 8080 ?w0 = Some (Inr (), ?w0\<lparr>console := console ?w0 @ out\<rparr>)"
    by (simp add: HttpHandler_Handle_def thenC_def bindC_def out ret_apply del: append_Cons)
  have state: "app ?w0 = serving_app ()" "initial_shutdown\<lparr>callbacks := Map.empty\<rparr> = initial_shutdown"
    by (simp_all add: serving_world_def initial_world_def initial_shutdown_def)
  have "\<exists>out. service_main False Map.empty (\<lambda>host port. ret ()) (\<lambda>host port. ret ()) (initial_world (process_start ())) =
      Some (Inr 0, ?w0\<lparr>console := out, log_provider := None,
        app := (serving_app ())\<lparr>ms_registry := (initial_shutdown, Map.empty), ms_events := [Construct 0 SIG_TERM, Destroy 0, Join 0]\<rparr>\<rparr>)"
    using main [of Map.empty] by (simp add: settings Let_def handle state serving_app_def) blast
  with main [of "[''HANDLER_TYPE'' \<mapsto> ''FTP'']"] show ?thesis by (simp add: settings Let_def) blast
qed

end
