(* ===== verification/Spec2Isabelle.thy ===== *)
theory Spec2Isabelle
  imports Mse_Request_Processor Mse_Retry Mse_Circuit_Breaker Mse_Caching_Hook Mse_Exception_Handling
    Mse_Security Mse_Logging_Hook Mse_Status_Converter Mse_Metadata_Converter Mse_Environment Mse_Shutdown Mse_Url Mse_Handlers_Agree
    Mse_Starwars_Client_Props Mse_Service_Composed Mse_Service_Main
begin

text \<open>
  A verification library for microservice-essentials (\<open>src/src/microservice-essentials\<close>), a C++
  library of the parts every microservice needs. Its centre is the processing of requests. A
  \<open>Context\<close> holds the metadata of a request and points to a parent context; a \<open>RequestHandler\<close>
  (incoming) or \<open>RequestIssuer\<close> (outgoing) owns a context and a list of \<open>RequestHook\<close>s and calls a
  function through them. All cross cutting concerns are such hooks: retry, circuit breaker,
  caching, exception handling, error forwarding, authentication, authorisation, logging. Around
  it stand the logger (every log statement reads the contexts), status codes and converters, the
  environment, signals and the shutdown, and URLs.

  \<^bold>\<open>How the code is represented.\<close> A computation (\<open>comp\<close>, theory \<open>Mse_Effects\<close>) takes the state
  and gives \<open>None\<close> when C++ gives the run no result (undefined behaviour, a loop without end), and
  otherwise the new state with the exception that left the code or the value it returned; state
  changes made before a throw are kept. Exceptions are the type \<open>exn\<close> with a constructor per
  class the code throws or catches. The state \<open>world\<close> (theory \<open>Mse_Logger\<close>) has the store of
  contexts (a map from addresses), the top of the stack, the console, the provided logger, two
  clocks, and the part \<open>app\<close> of the application. Metadata is a list of pairs sorted by key as in
  \<open>std::multimap\<close> (\<open>Mse_Multimap\<close>), where \<open>find\<close> returns the first of equal keys. Virtual
  functions are fields of a record (hooks, strategies, caches, token operations), called by the
  base class as the code calls them. Characters are bytes; \<open>c_str\<close> cuts a string at its first
  null character where the code passes a C string.

  \<^bold>\<open>Theories and sources.\<close>
  \<^item> \<open>Mse_Prelude\<close>, \<open>Mse_Effects\<close>: collections of rewrite rules, the monad, its laws, and the three
    ways to state facts of computations: \<open>keeps\<close> (invariants), \<open>costs\<close> (invariant, result, bounded
    count) and \<open>hoare\<close> (total pre- and postconditions, exceptions included).
  \<^item> \<open>Mse_Status\<close>: \<open>status.h/.cpp\<close>. Printing and parsing of codes are inverse, \<open>invalid\<close> throws.
  \<^item> \<open>Mse_Multimap\<close>, \<open>Mse_Context\<close>: \<open>context.h/.cpp\<close>. Reads follow parent pointers
    (\<open>partial_function\<close>, as a cycle would not end); reachable stores are acyclic, so the reads return and
    agree with each other; copy assignment refuses exactly the remoter ancestors.
  \<^item> \<open>Mse_Logger\<close>: \<open>observability/logger\<close>. A log statement never throws for a printable level and changes
    nothing but at most one line of output; a reader that follows the grammar of JSON reads the records
    back, except those with a control character that the code does not escape.
  \<^item> \<open>Mse_Stack\<close>: the stack discipline of automatic contexts (\<open>stack_ok\<close>), kept by every operation.
  \<^item> \<open>Mse_Request_Hook\<close>, \<open>Mse_Hook_Rules\<close>: \<open>request/request-hook\<close>, \<open>request-type\<close>,
    \<open>request-hook-factory\<close>. \<open>RequestHook_Process\<close> refines the protocol pre, function, post; the rules
    derive the outcome of a hook from those of its parts, with every logger. The locale
    \<open>stack_hook\<close> is the contract of a hook with its environment, interpreted for every hook.
  \<^item> \<open>Mse_Request_Processor\<close>: \<open>request/request-processor\<close>. The calls, the state and the result of a
    processor are those of a descent through \<open>pre_process\<close> and an ascent through \<open>post_process\<close>;
    handlers install their context; a request through an issuer runs the hooks made of the global
    parameters and leaves none of its contexts.
  \<^item> \<open>Mse_Retry\<close>: \<open>reliability/retry-request-hook\<close>. Bounded calls, the schedule of the backoff strategy, and
    the wrap around of the counter.
  \<^item> \<open>Mse_Circuit_Breaker\<close>: \<open>reliability/circuit-breaker-request-hook\<close>, sequentially on the hook and as a
    step relation of interleaved requests on the counters.
  \<^item> \<open>Mse_Cache\<close>, \<open>Mse_Caching_Hook\<close>: \<open>performance/caching-request-hook\<close>. \<open>LRUCache\<close> keeps its invariant,
    never follows an invalid iterator, and refines a list of slots, in which a key that is inserted again
    leaves a stale slot behind.
  \<^item> \<open>Mse_Error_Forwarding\<close>, \<open>Mse_Exception_Handling\<close>: \<open>cross-cutting-concerns/exception-handling-*\<close>,
    \<open>error-forwarding-request-hook\<close>. The first mapper that matches decides, and mapped errors of a
    callee reach the caller of the service.
  \<^item> \<open>Mse_Security\<close>: \<open>security/token-auth\<close>, \<open>basic-token-auth\<close> and \<open>claim-checker-request-hook\<close>. Claims
    come from the token, in every case but one that is refused, and a scope guards a request.
  \<^item> \<open>Mse_Logging_Hook\<close>: \<open>observability/logging-request-hook\<close>. Transparent for statuses, not for
    exceptions.
  \<^item> \<open>Mse_Status_Converter\<close>, \<open>Mse_Metadata_Converter\<close>, \<open>Mse_Environment\<close>: \<open>utilities/\<close>. Round trips
    over gRPC, metadata and the environment.
  \<^item> \<open>Mse_Signal_Handler\<close>, \<open>Mse_Shutdown\<close>: \<open>utilities/signal-handler\<close>, \<open>handler\<close>,
    \<open>cross-cutting-concerns/graceful-shutdown\<close>. Threads, signals and destructors interleave as events, which
    decides the signals that are answered; the registry holds exactly the living handlers; a shutdown informs them in order.

  \<^item> \<open>Mse_Regex\<close>, \<open>Mse_Url\<close>: \<open>utilities/url\<close>. A matcher that finds the match \<open>std::regex\<close> finds, the parser
    and its round trip with the printer.

  The remaining theories model the service under \<open>src/examples/star-wars-starships\<close>, which puts the
  library to use.
  \<^item> \<open>Mse_Starships\<close>: \<open>ports\<close>, \<open>core\<close>, the store in memory and the constant client. The core is
    proved once for all adapters that keep the laws of their ports.
  \<^item> \<open>Mse_Starships_Service\<close>, \<open>Mse_Starships_Endpoints\<close>: what \<open>app/main.cpp\<close> registers, an incoming request
    through all hooks, the state that the parts of the service share, and the cached list.
  \<^item> \<open>Mse_Json\<close>, \<open>Mse_Http_Handler\<close>, \<open>Mse_Http_Service\<close>: \<open>adapters/http-handler\<close>. Each endpoint from the
    headers to the store; runs of requests refine an abstract service of a few lines.
  \<^item> \<open>Mse_Grpc_Handler\<close>, \<open>Mse_Handlers_Agree\<close>: \<open>adapters/grpc-handler\<close> and its agreement with the HTTP
    handler.
  \<^item> \<open>Mse_Starwars_Client\<close>, \<open>Mse_Starwars_Client_Run\<close>, \<open>Mse_Starwars_Client_Props\<close>,
    \<open>Mse_Starwars_Client_Get\<close>: \<open>adapters/http-starwars-client\<close>. An outgoing request through the hooks, the
    loop over the pages of the public API, when it ends and what it returns, and the lookup of a ship
    behind the copied context and the cache.
  \<^item> \<open>Mse_Service_Composed\<close>: the client keeps the contract \<open>starwars_client\<close> while it is \<open>usable\<close> (its
    breaker is closed and its cache has answers of the server), which its own requests keep; so the
    results about the handlers hold for the service with this client (\<open>service_over_http_client\<close>).
  \<^item> \<open>Mse_Service_Main\<close>: \<open>app/main.cpp\<close>, from the environment to the state that the service serves in, and
    what is left behind it. An exception that leaves \<open>main\<close> may or may not destroy its objects: C++
    leaves that to the implementation, and the flag \<open>unwinds\<close> of the model stands for its choice.

  \<^bold>\<open>Interfaces.\<close> The locales are \<open>stack_hook\<close> (what \<open>RequestProcessor\<close> needs of a hook),
  \<open>exception_mapper\<close> (mappers of the exception handling hook), \<open>token_auth\<close> and
  \<open>pure_token_auth\<close> (subclasses of the token hook), those of strategies and caches in their
  theories, and of the example \<open>starwars_client\<close> and \<open>status_db\<close> (the ports of the core) and
  \<open>starship_core\<close> (the core on any such adapters). Each is interpreted on the definitions of the code that provide it.

  \<^bold>\<open>Bounds and loops.\<close> Nothing of the code is bounded by fuel. The calls of the retry hook to itself,
  the reads along parent pointers and the loop over the pages may run for ever, so they are
  \<open>partial_function (option)\<close>, where a run without an end is \<open>None\<close>. That they return is proved:
  \<open>retry_bounded\<close> for every maximal retry count below \<open>2 ^ 32 - 1\<close> (with that count the counter wraps
  around and the bound is never reached), \<open>context_reads_agree\<close> for reachable stores, and
  \<open>client_list_ends_iff\<close> exactly when the links end. The counters of retry and circuit breaker are 32 bit words, the
  number of interleaved requests is assumed below \<open>2 ^ 32\<close>. Durations and the \<open>double\<close>s of the
  backoff are exact rationals; sleeping takes exactly the time asked for. The random deviation of
  the jitter, the values a type reads from a stream and the casts of gRPC are parameters. An
  \<open>unordered_map\<close> that is traversed gets its order as an argument.

  \<^bold>\<open>Not modelled.\<close> The threads of the servers are not interleaved: a run of the service is a sequence of
  requests, each on a thread of its own whose contexts are in order. The HTTP and gRPC libraries, JSON and the generated messages are parameters with
  their documented behaviour as hypotheses, and instances in the witnesses. The conan recipe, the
  example's build files, the tests and generated code are left out.
\<close>

end
